(* ===== verification/Prelude.thy ===== *)
theory Prelude
  imports Main "HOL-Library.Sublist"
begin

text \<open>
  Shared base of the development: the collections of facts the component theories
  add to, the result type of a Go function that returns \<open>(value, error)\<close>, and the
  functions of Go's \<^verbatim>\<open>strings\<close> package that the sources call.

  A Go string is a sequence of bytes, modelled as a HOL \<^typ>\<open>string\<close> (a \<^typ>\<open>char\<close> is
  one byte). Case mapping and white space are those of ASCII: bytes from 128 up are
  left alone, where Go would decode them as UTF-8 and consult the Unicode tables.
\<close>

named_theorems str_simps \<open>rewrite rules of the string functions\<close>
named_theorems result_iff \<open>when a result is a success or a failure\<close>

section \<open>Results of fallible functions\<close>

text \<open>
  A function returning \<open>(T, error)\<close> gives \<open>Inl e\<close> when the error is not nil and
  \<open>Inr v\<close> otherwise.
\<close>

definition is_ok :: "'e + 'a \<Rightarrow> bool" where
  "is_ok r = (case r of Inl _ \<Rightarrow> False | Inr _ \<Rightarrow> True)"

lemma is_ok_simps [simp]: "is_ok (Inr v)" "\<not> is_ok (Inl e)"
  by (simp_all add: is_ok_def)

lemma is_ok_iff [result_iff]: "is_ok r \<longleftrightarrow> (\<exists>v. r = Inr v)"
  by (cases r) auto

lemma sum_bind_Inr_iff [result_iff]:
  "(case r of Inl e \<Rightarrow> Inl e | Inr v \<Rightarrow> f v) = Inr w \<longleftrightarrow> (\<exists>v. r = Inr v \<and> f v = Inr w)"
  by (cases r) auto

section \<open>Characters\<close>

definition byte :: "char \<Rightarrow> nat" where
  "byte c = of_char c"

definition is_space :: "char \<Rightarrow> bool" where
  "is_space c = (byte c = 32 \<or> (9 \<le> byte c \<and> byte c \<le> 13))"

definition lower_char :: "char \<Rightarrow> char" where
  "lower_char c = (if 65 \<le> byte c \<and> byte c \<le> 90 then char_of (byte c + 32) else c)"

definition upper_char :: "char \<Rightarrow> char" where
  "upper_char c = (if 97 \<le> byte c \<and> byte c \<le> 122 then char_of (byte c - 32) else c)"

lemma byte_lt [simp]: "byte c < 256"
  by (simp add: byte_def)

lemma byte_char_of: "n < 256 \<Longrightarrow> byte (char_of n) = n"
  by (simp add: byte_def)

lemma byte_inj: "byte c = byte d \<longleftrightarrow> c = d"
  by (simp add: byte_def)

lemma lower_char_idem [str_simps]: "lower_char (lower_char c) = lower_char c"
  by (auto simp: lower_char_def byte_char_of)

lemma upper_char_idem [str_simps]: "upper_char (upper_char c) = upper_char c"
  by (auto simp: upper_char_def byte_char_of)

lemma is_space_lower [str_simps]: "is_space (lower_char c) = is_space c"
  by (auto simp: is_space_def lower_char_def byte_char_of)

lemma is_space_upper [str_simps]: "is_space (upper_char c) = is_space c"
  by (auto simp: is_space_def upper_char_def byte_char_of)

section \<open>The strings package\<close>

definition to_lower :: "string \<Rightarrow> string" where
  "to_lower s = map lower_char s"

definition to_upper :: "string \<Rightarrow> string" where
  "to_upper s = map upper_char s"

definition trim_left_by :: "(char \<Rightarrow> bool) \<Rightarrow> string \<Rightarrow> string" where
  "trim_left_by p s = dropWhile p s"

definition trim_right_by :: "(char \<Rightarrow> bool) \<Rightarrow> string \<Rightarrow> string" where
  "trim_right_by p s = rev (dropWhile p (rev s))"

definition trim_space :: "string \<Rightarrow> string" where
  "trim_space s = trim_right_by is_space (trim_left_by is_space s)"

definition trim_right :: "char \<Rightarrow> string \<Rightarrow> string" where
  "trim_right c s = trim_right_by (\<lambda>x. x = c) s"

definition has_prefix :: "string \<Rightarrow> string \<Rightarrow> bool" where
  "has_prefix s p = (take (length p) s = p)"

definition has_suffix :: "string \<Rightarrow> string \<Rightarrow> bool" where
  "has_suffix s p = (length p \<le> length s \<and> drop (length s - length p) s = p)"

definition trim_prefix :: "string \<Rightarrow> string \<Rightarrow> string" where
  "trim_prefix s p = (if has_prefix s p then drop (length p) s else s)"

definition trim_suffix :: "string \<Rightarrow> string \<Rightarrow> string" where
  "trim_suffix s p = (if has_suffix s p then take (length s - length p) s else s)"

fun contains :: "string \<Rightarrow> string \<Rightarrow> bool" where
  "contains [] sub = (sub = [])"
| "contains (c # s) sub = (has_prefix (c # s) sub \<or> contains s sub)"

text \<open>\<open>strings.Split\<close> on a one-byte separator: always at least one piece.\<close>

fun split_on :: "char \<Rightarrow> string \<Rightarrow> string list" where
  "split_on sep [] = [[]]"
| "split_on sep (c # s) =
     (if c = sep then [] # split_on sep s
      else case split_on sep s of [] \<Rightarrow> [[c]] | p # ps \<Rightarrow> (c # p) # ps)"

fun join_with :: "string \<Rightarrow> string list \<Rightarrow> string" where
  "join_with sep [] = []"
| "join_with sep [p] = p"
| "join_with sep (p # q # ps) = p @ sep @ join_with sep (q # ps)"

definition equal_fold :: "string \<Rightarrow> string \<Rightarrow> bool" where
  "equal_fold s t = (to_lower s = to_lower t)"

text \<open>\<open>strings.Cut\<close> on a one-byte separator: before, after, found.\<close>

fun cut_on :: "char \<Rightarrow> string \<Rightarrow> string \<times> string \<times> bool" where
  "cut_on sep [] = ([], [], False)"
| "cut_on sep (c # s) =
     (if c = sep then ([], s, True)
      else case cut_on sep s of (b, a, f) \<Rightarrow> (c # b, a, f))"

subsection \<open>Decimal numbers\<close>

definition is_digit :: "char \<Rightarrow> bool" where
  "is_digit c = (48 \<le> byte c \<and> byte c \<le> 57)"

definition digit_val :: "char \<Rightarrow> nat" where
  "digit_val c = byte c - 48"

definition digit_char :: "nat \<Rightarrow> char" where
  "digit_char d = char_of (48 + d mod 10)"

fun show_nat :: "nat \<Rightarrow> string" where
  "show_nat n = (if n < 10 then [digit_char n] else show_nat (n div 10) @ [digit_char n])"

declare show_nat.simps [simp del]

definition pad_left :: "nat \<Rightarrow> char \<Rightarrow> string \<Rightarrow> string" where
  "pad_left n c s = replicate (n - length s) c @ s"

definition nat_of_digits :: "string \<Rightarrow> nat" where
  "nat_of_digits s = foldl (\<lambda>acc c. acc * 10 + digit_val c) 0 s"

text \<open>\<open>strconv.ParseInt(s, 10, 64)\<close>: optional sign, digits only, in range.\<close>

definition parse_int64 :: "string \<Rightarrow> int option" where
  "parse_int64 s =
     (let (neg, ds) = (case s of [] \<Rightarrow> (False, [])
        | c # t \<Rightarrow> if c = CHR ''-'' then (True, t) else if c = CHR ''+'' then (False, t) else (False, s));
          v = (if neg then - int (nat_of_digits ds) else int (nat_of_digits ds))
      in if ds = [] \<or> \<not> list_all is_digit ds then None
         else if - (2 ^ 63) \<le> v \<and> v < 2 ^ 63 then Some v else None)"

lemma is_digit_digit_char [simp]: "is_digit (digit_char d)"
proof -
  have "byte (digit_char d) = 48 + d mod 10"
    unfolding digit_char_def by (rule byte_char_of) (simp add: less_trans [of _ 10])
  then show ?thesis by (simp add: is_digit_def)
qed

lemma digit_val_char [simp]: "digit_val (digit_char d) = d mod 10"
  by (simp add: digit_val_def digit_char_def byte_char_of less_trans [of _ 10])

lemma show_nat_digits: "list_all is_digit (show_nat n)"
  by (induction n rule: show_nat.induct) (simp add: show_nat.simps)

lemma show_nat_nonempty [simp]: "show_nat n \<noteq> []"
  by (subst show_nat.simps) simp

lemma nat_of_digits_snoc: "nat_of_digits (s @ [c]) = nat_of_digits s * 10 + digit_val c"
  by (simp add: nat_of_digits_def)

lemma nat_of_digits_show: "nat_of_digits (show_nat n) = n"
proof (induction n rule: show_nat.induct)
  case (1 n)
  show ?case
  proof (cases "n < 10")
    case True
    then show ?thesis by (simp add: show_nat.simps nat_of_digits_def)
  next
    case False
    then have "nat_of_digits (show_nat (n div 10)) = n div 10" using 1 by simp
    then show ?thesis using False by (simp add: show_nat.simps [of n] nat_of_digits_snoc)
  qed
qed

lemma show_nat_length: "n < 10 ^ Suc k \<Longrightarrow> length (show_nat n) \<le> Suc k"
proof (induction k arbitrary: n)
  case 0
  then show ?case by (simp add: show_nat.simps)
next
  case (Suc k)
  then have "n div 10 < 10 ^ Suc k" by (simp add: div_less_iff_less_mult mult.commute)
  then show ?case using Suc.IH by (subst show_nat.simps) simp
qed

lemma show_nat_inj: "show_nat m = show_nat n \<longleftrightarrow> m = n"
  by (metis nat_of_digits_show)

lemma nat_of_digits_pad: "nat_of_digits (replicate k CHR ''0'' @ s) = nat_of_digits s"
proof (induction k)
  case (Suc k)
  have "nat_of_digits (CHR ''0'' # t) = nat_of_digits t" for t
    by (simp add: nat_of_digits_def digit_val_def byte_def)
  then show ?case using Suc by simp
qed simp

lemma parse_show_nat: "int n < 2 ^ 63 \<Longrightarrow> parse_int64 (show_nat n) = Some (int n)"
proof -
  assume n: "int n < 2 ^ 63"
  obtain c t where ct: "show_nat n = c # t" by (cases "show_nat n") auto
  then have "is_digit c" using show_nat_digits [of n] by simp
  then have "c \<noteq> CHR ''-''" "c \<noteq> CHR ''+''" by (auto simp: is_digit_def byte_def)
  then show ?thesis
    using n ct show_nat_digits [of n] nat_of_digits_show [of n] by (simp add: parse_int64_def)
qed

subsection \<open>Laws\<close>

lemma to_lower_idem [str_simps]: "to_lower (to_lower s) = to_lower s"
  by (simp add: to_lower_def lower_char_idem)

lemma to_upper_idem [str_simps]: "to_upper (to_upper s) = to_upper s"
  by (simp add: to_upper_def upper_char_idem)

lemma to_lower_append [str_simps]: "to_lower (s @ t) = to_lower s @ to_lower t"
  by (simp add: to_lower_def)

lemma to_lower_eq_Nil [str_simps]: "to_lower s = [] \<longleftrightarrow> s = []"
  by (simp add: to_lower_def)

lemma dropWhile_idem: "dropWhile p (dropWhile p xs) = dropWhile p xs"
  by (induction xs) auto

lemma trim_left_by_idem [str_simps]: "trim_left_by p (trim_left_by p s) = trim_left_by p s"
  by (simp add: trim_left_by_def dropWhile_idem)

lemma trim_right_by_idem [str_simps]: "trim_right_by p (trim_right_by p s) = trim_right_by p s"
  by (simp add: trim_right_by_def dropWhile_idem)

lemma trim_right_idem [str_simps]: "trim_right c (trim_right c s) = trim_right c s"
  by (simp add: trim_right_def trim_right_by_idem)

lemma trim_right_by_prefix: "\<exists>t. s = trim_right_by p s @ t \<and> list_all p t"
proof -
  have "rev s = takeWhile p (rev s) @ dropWhile p (rev s)" by simp
  then have "s = rev (dropWhile p (rev s)) @ rev (takeWhile p (rev s))"
    by (metis rev_append rev_rev_ident)
  moreover have "list_all p (rev (takeWhile p (rev s)))"
    by (auto simp: list_all_iff dest: set_takeWhileD)
  ultimately show ?thesis by (auto simp: trim_right_by_def)
qed

lemma trim_left_right_by_id:
  "trim_left_by p s = s \<Longrightarrow> trim_left_by p (trim_right_by p s) = trim_right_by p s"
proof -
  assume left: "trim_left_by p s = s"
  obtain t where t: "s = trim_right_by p s @ t" using trim_right_by_prefix by blast
  show ?thesis
  proof (cases "trim_right_by p s")
    case Nil
    then show ?thesis by (simp add: trim_left_by_def)
  next
    case (Cons c u)
    then have s: "s = c # u @ t" using t by simp
    have "\<not> p c"
    proof
      assume "p c"
      then have "length (trim_left_by p s) \<le> length (u @ t)"
        using s length_dropWhile_le [of p "u @ t"] by (simp add: trim_left_by_def)
      then show False using left s by simp
    qed
    then show ?thesis using Cons by (simp add: trim_left_by_def)
  qed
qed

lemma trim_space_idem [str_simps]: "trim_space (trim_space s) = trim_space s"
  by (simp add: trim_space_def str_simps trim_left_right_by_id)

lemma dropWhile_map_inv:
  "(\<And>c. p (f c) = p c) \<Longrightarrow> dropWhile p (map f s) = map f (dropWhile p s)"
  by (induction s) auto

lemma trim_space_to_lower [str_simps]: "trim_space (to_lower s) = to_lower (trim_space s)"
  by (simp add: trim_space_def trim_left_by_def trim_right_by_def to_lower_def
      dropWhile_map_inv is_space_lower rev_map)

lemma digit_not_space: "is_digit c \<Longrightarrow> \<not> is_space c"
  by (simp add: is_digit_def is_space_def)

lemma trim_space_digits: "list_all is_digit s \<Longrightarrow> trim_space s = s"
proof -
  assume "list_all is_digit s"
  then have none: "\<forall>x \<in> set s. \<not> is_space x" by (auto simp: list_all_iff digit_not_space)
  then have "dropWhile is_space s = s" "dropWhile is_space (rev s) = rev s"
    by (simp_all add: dropWhile_eq_self_iff) (metis hd_in_set set_rev rev_is_Nil_conv)+
  then show ?thesis by (simp add: trim_space_def trim_right_by_def trim_left_by_def)
qed

lemma dropWhile_replicate_append: "p c \<Longrightarrow> dropWhile p (replicate n c @ s) = dropWhile p s"
  by (induction n) auto

lemma trim_right_trailing:
  "trim_right c (s @ replicate n c) = trim_right c s"
  by (simp add: trim_right_def trim_right_by_def dropWhile_replicate_append)

lemma trim_right_noop: "s = [] \<or> last s \<noteq> c \<Longrightarrow> trim_right c s = s"
  by (cases s rule: rev_cases) (auto simp: trim_right_def trim_right_by_def)

lemma has_prefix_iff: "has_prefix s p \<longleftrightarrow> prefix p s"
  by (auto simp: has_prefix_def prefix_def intro: exI [of _ "drop (length p) s"])
     (metis append_take_drop_id)

lemma has_suffix_iff: "has_suffix s p \<longleftrightarrow> suffix p s"
  by (auto simp: has_suffix_def suffix_def intro: exI [of _ "take (length s - length p) s"])
     (metis append_take_drop_id)

lemma contains_iff: "contains s sub \<longleftrightarrow> sublist sub s"
proof (induction s)
  case Nil
  then show ?case by auto
next
  case (Cons c s)
  then show ?case by (simp add: has_prefix_iff sublist_Cons_right)
qed

lemma trim_prefix_append [simp]: "trim_prefix (p @ s) p = s"
  by (simp add: trim_prefix_def has_prefix_def)

lemma trim_suffix_append [simp]: "trim_suffix (s @ p) p = s"
  by (simp add: trim_suffix_def has_suffix_def)

lemma trim_suffix_not: "\<not> suffix p s \<Longrightarrow> trim_suffix s p = s"
  by (simp add: trim_suffix_def has_suffix_iff)

lemma trim_suffix_decomp: "s = trim_suffix s p \<or> s = trim_suffix s p @ p"
  by (auto simp: trim_suffix_def has_suffix_def) (metis append_take_drop_id)

lemma split_on_nonempty [simp]: "split_on sep s \<noteq> []"
  by (cases s) (auto split: list.splits)

lemma join_split: "join_with [sep] (split_on sep s) = s"
proof (induction s)
  case Nil
  then show ?case by simp
next
  case (Cons c s)
  show ?case
  proof (cases "split_on sep s")
    case Nil
    then show ?thesis by simp
  next
    case (Cons p ps)
    then show ?thesis using Cons.IH by (cases ps) auto
  qed
qed

lemma split_on_no_sep: "p \<in> set (split_on sep s) \<Longrightarrow> sep \<notin> set p"
proof (induction s arbitrary: p)
  case Nil
  then show ?case by simp
next
  case (Cons c s)
  then show ?case
    by (cases "split_on sep s") (auto split: if_splits)
qed

lemma equal_fold_refl [simp]: "equal_fold s s"
  by (simp add: equal_fold_def)

text \<open>The functions a client never unfolds by accident.\<close>

lemmas str_defs = to_lower_def to_upper_def trim_space_def trim_left_by_def trim_right_by_def
  trim_right_def has_prefix_def has_suffix_def trim_prefix_def trim_suffix_def equal_fold_def
  lower_char_def upper_char_def is_space_def byte_def

end
