(* ===== verification/Go_Time.thy ===== *)
theory Go_Time
  imports Prelude
begin

text \<open>
  Go's \<^verbatim>\<open>time.Time\<close> and \<^verbatim>\<open>time.Duration\<close>, as far as the sources use them. A point in
  time is the number of nanoseconds since the Unix epoch (an \<^typ>\<open>int\<close>, so that the zero
  \<^verbatim>\<open>time.Time\<close>, the year 1, is a value like any other); a duration is an \<^typ>\<open>int\<close> of
  nanoseconds kept in the \<^verbatim>\<open>int64\<close> range by the operations that can leave it:
  \<^verbatim>\<open>Sub\<close> saturates, shifts and products wrap.
\<close>

type_synonym gtime = int
type_synonym duration = int

definition second :: duration where "second = 1000000000"
definition millisecond :: duration where "millisecond = 1000000"
definition max_duration :: duration where "max_duration = 2 ^ 63 - 1"
definition min_duration :: duration where "min_duration = - (2 ^ 63)"

definition wrap64 :: "int \<Rightarrow> int" where
  "wrap64 x = (x + 2 ^ 63) mod 2 ^ 64 - 2 ^ 63"

definition zero_time :: gtime where "zero_time = - 62135596800 * second"

definition is_zero :: "gtime \<Rightarrow> bool" where
  "is_zero t = (t = zero_time)"

definition unix :: "gtime \<Rightarrow> int" where
  "unix t = t div second"

definition time_unix :: "int \<Rightarrow> gtime" where
  "time_unix s = s * second"

definition time_sub :: "gtime \<Rightarrow> gtime \<Rightarrow> duration" where
  "time_sub t u = max min_duration (min max_duration (t - u))"

text \<open>Go's signed division truncates towards zero.\<close>

definition go_div :: "int \<Rightarrow> int \<Rightarrow> int" where
  "go_div a b = (if (0 \<le> a) = (0 \<le> b) then \<bar>a\<bar> div \<bar>b\<bar> else - (\<bar>a\<bar> div \<bar>b\<bar>))"

lemmas time_defs = second_def millisecond_def max_duration_def min_duration_def
  zero_time_def is_zero_def unix_def time_unix_def time_sub_def

lemma wrap64_id: "- (2 ^ 63) \<le> x \<Longrightarrow> x < 2 ^ 63 \<Longrightarrow> wrap64 x = x"
  by (simp add: wrap64_def)

lemma wrap64_range: "- (2 ^ 63) \<le> wrap64 x \<and> wrap64 x < 2 ^ 63"
proof -
  have "0 \<le> (x + 2 ^ 63) mod 2 ^ 64" "(x + 2 ^ 63) mod 2 ^ 64 < (2::int) ^ 64"
    by (rule pos_mod_sign, simp) (rule pos_mod_bound, simp)
  then show ?thesis by (simp add: wrap64_def)
qed

lemma time_sub_pos_iff: "0 < time_sub t u \<longleftrightarrow> u < t"
  by (auto simp: time_defs)

lemma time_sub_le_iff: "0 \<le> d \<Longrightarrow> d < max_duration \<Longrightarrow> time_sub t u \<le> d \<longleftrightarrow> t - u \<le> d"
  by (auto simp: time_defs)

lemma time_sub_exact: "min_duration \<le> t - u \<Longrightarrow> t - u \<le> max_duration \<Longrightarrow> time_sub t u = t - u"
  by (simp add: time_sub_def)

lemma time_sub_zero_time_neg: "0 \<le> t \<Longrightarrow> time_sub zero_time t < 0"
  by (simp add: time_defs)

lemma go_div_nonneg: "0 \<le> a \<Longrightarrow> 0 < b \<Longrightarrow> go_div a b = a div b"
  by (simp add: go_div_def)

lemma go_div_pos: "0 < b \<Longrightarrow> go_div a b = (if 0 \<le> a then a div b else - ((- a) div b))"
  by (simp add: go_div_def)

lemma go_div_mono: "0 < b \<Longrightarrow> a \<le> a' \<Longrightarrow> go_div a b \<le> go_div a' b"
proof -
  assume b: "0 < b" and le: "a \<le> a'"
  consider "0 \<le> a" | "a < 0" "0 \<le> a'" | "a' < 0" using le by linarith
  then show ?thesis
  proof cases
    case 1
    then show ?thesis using b le by (simp add: go_div_pos zdiv_mono1)
  next
    case 2
    then have "0 \<le> a' div b" "0 \<le> (- a) div b"
      using b by (simp_all add: pos_imp_zdiv_nonneg_iff)
    then show ?thesis using b 2 by (simp add: go_div_pos)
  next
    case 3
    then have "(- a') div b \<le> (- a) div b" using b le by (simp add: zdiv_mono1)
    then show ?thesis using b le 3 by (simp add: go_div_pos)
  qed
qed

lemma unix_mono: "t \<le> u \<Longrightarrow> unix t \<le> unix u"
  by (simp add: unix_def second_def zdiv_mono1)

lemma unix_time_unix [simp]: "unix (time_unix s) = s"
  by (simp add: time_defs)

lemma unix_nonneg: "0 \<le> t \<Longrightarrow> 0 \<le> unix t"
  by (simp add: time_defs)

lemma time_unix_unix_le: "time_unix (unix t) \<le> t"
  by (simp add: time_defs)

lemma lt_time_unix_Suc_unix: "t < time_unix (unix t + 1)"
  by (simp add: time_defs)

section \<open>TOTP windows\<close>

text \<open>The 30-second step of a point in time: \<^verbatim>\<open>t.Unix()/30\<close> on \<^verbatim>\<open>int64\<close>.\<close>

definition otp_step :: "gtime \<Rightarrow> int" where
  "otp_step t = go_div (unix t) 30"

lemma otp_step_mono: "t \<le> u \<Longrightarrow> otp_step t \<le> otp_step u"
  by (simp add: otp_step_def go_div_mono unix_mono)

lemma otp_step_nonneg: "0 \<le> t \<Longrightarrow> otp_step t = unix t div 30"
  by (simp add: otp_step_def go_div_nonneg unix_nonneg)

lemma otp_step_time_unix: "0 \<le> s \<Longrightarrow> otp_step (time_unix s) = s div 30"
  by (simp add: otp_step_def go_div_nonneg)

end
