(* ===== verification/Go_Error.thy ===== *)
theory Go_Error
  imports Go_Time
begin

text \<open>
  Error values. A Go \<^verbatim>\<open>error\<close> that the sources build or inspect is a value of
  \<open>go_error\<close>; \<open>unwrap\<close> gives what its \<^verbatim>\<open>Unwrap\<close> method returns, and \<open>err_chain\<close> lists
  the error tree in the depth-first order in which \<^verbatim>\<open>errors.Is\<close> and \<^verbatim>\<open>errors.As\<close> search
  it. Package-level sentinels are constants of the type \<open>sentinel\<close>.
\<close>

section \<open>Stages and kinds of authentication failures (errors.go)\<close>

datatype auth_stage = StageUnset | AuthStageLogin | AuthStageOTPVerification
  | AuthStageImpersonation | AuthStageSessionRecovery

datatype auth_kind = AuthKindRejectedCredentials | AuthKindRejectedOTP | AuthKindPermissionDenied
  | AuthKindRateLimited | AuthKindPersistentSessionLoss | AuthKindTransportFailure
  | AuthKindStorageFailure

fun stage_name :: "auth_stage \<Rightarrow> string" where
  "stage_name StageUnset = []"
| "stage_name AuthStageLogin = ''login''"
| "stage_name AuthStageOTPVerification = ''otp_verification''"
| "stage_name AuthStageImpersonation = ''impersonation''"
| "stage_name AuthStageSessionRecovery = ''session_recovery''"

fun kind_name :: "auth_kind \<Rightarrow> string" where
  "kind_name AuthKindRejectedCredentials = ''rejected_credentials''"
| "kind_name AuthKindRejectedOTP = ''rejected_otp''"
| "kind_name AuthKindPermissionDenied = ''permission_denied''"
| "kind_name AuthKindRateLimited = ''rate_limited''"
| "kind_name AuthKindPersistentSessionLoss = ''persistent_session_loss''"
| "kind_name AuthKindTransportFailure = ''transport_failure''"
| "kind_name AuthKindStorageFailure = ''storage_failure''"

section \<open>Errors\<close>

record api_error =
  ae_status :: int
  ae_body :: string
  ae_method :: string
  ae_url :: string

datatype sentinel = ErrResponseTooLarge | ErrOTPStateStorage
  | ErrSessionCacheUnsafe | ErrSessionCacheNotFound | ErrSessionCacheCorrupt
  | ErrSessionCacheCredentialMismatch | ErrSessionCookieNoExpiry | ErrSessionExpired
  | ContextCanceled | ContextDeadlineExceeded | OsErrNotExist

text \<open>
  \<open>Wrapped m es\<close> is an error built by \<^verbatim>\<open>fmt.Errorf\<close> with \<^verbatim>\<open>%w\<close> verbs or by
  \<^verbatim>\<open>errors.Join\<close>; \<open>NetError\<close> is an error of the network stack with no further structure.
\<close>

datatype go_error =
    Sentinel sentinel
  | Plain string
  | Wrapped string "go_error list"
  | NetError string
  | ApiErr api_error
  | AuthApiErr api_error duration
  | AuthErr auth_stage auth_kind "go_error option" duration

fun unwrap :: "go_error \<Rightarrow> go_error list" where
  "unwrap (Wrapped m es) = es"
| "unwrap (AuthApiErr a d) = [ApiErr a]"
| "unwrap (AuthErr st k (Some e) d) = [e]"
| "unwrap e = []"

fun err_chain :: "go_error \<Rightarrow> go_error list" where
  "err_chain (Wrapped m es) = Wrapped m es # concat (map err_chain es)"
| "err_chain (AuthApiErr a d) = [AuthApiErr a d, ApiErr a]"
| "err_chain (AuthErr st k (Some e) d) = AuthErr st k (Some e) d # err_chain e"
| "err_chain e = [e]"

lemma err_chain_unwrap: "err_chain e = e # concat (map err_chain (unwrap e))"
  by (cases e rule: err_chain.cases) auto

definition errors_is :: "go_error \<Rightarrow> sentinel \<Rightarrow> bool" where
  "errors_is e s = list_ex (\<lambda>x. x = Sentinel s) (err_chain e)"

fun first_some :: "('a \<Rightarrow> 'b option) \<Rightarrow> 'a list \<Rightarrow> 'b option" where
  "first_some f [] = None"
| "first_some f (x # xs) = (case f x of Some y \<Rightarrow> Some y | None \<Rightarrow> first_some f xs)"

fun api_of :: "go_error \<Rightarrow> api_error option" where
  "api_of (ApiErr a) = Some a"
| "api_of _ = None"

fun auth_api_of :: "go_error \<Rightarrow> (api_error \<times> duration) option" where
  "auth_api_of (AuthApiErr a d) = Some (a, d)"
| "auth_api_of _ = None"

fun auth_of :: "go_error \<Rightarrow> (auth_stage \<times> auth_kind \<times> go_error option \<times> duration) option" where
  "auth_of (AuthErr st k c d) = Some (st, k, c, d)"
| "auth_of _ = None"

definition as_api_error :: "go_error \<Rightarrow> api_error option" where
  "as_api_error e = first_some api_of (err_chain e)"

definition as_auth_api_error :: "go_error \<Rightarrow> (api_error \<times> duration) option" where
  "as_auth_api_error e = first_some auth_api_of (err_chain e)"

definition as_auth_error ::
  "go_error \<Rightarrow> (auth_stage \<times> auth_kind \<times> go_error option \<times> duration) option" where
  "as_auth_error e = first_some auth_of (err_chain e)"

lemma first_some_append:
  "first_some f (xs @ ys) = (case first_some f xs of Some y \<Rightarrow> Some y | None \<Rightarrow> first_some f ys)"
  by (induction xs) (auto split: option.splits)

lemma first_some_None_iff: "first_some f xs = None \<longleftrightarrow> (\<forall>x \<in> set xs. f x = None)"
  by (induction xs) (auto split: option.splits)

lemma first_some_SomeD: "first_some f xs = Some y \<Longrightarrow> \<exists>x \<in> set xs. f x = Some y"
  by (induction xs) (auto split: option.splits)

named_theorems err_simps \<open>what errors.Is and errors.As find in a constructed error\<close>

lemma errors_is_simps [err_simps]:
  "errors_is (Sentinel s) t \<longleftrightarrow> s = t"
  "\<not> errors_is (Plain m) t"
  "\<not> errors_is (NetError m) t"
  "\<not> errors_is (ApiErr a) t"
  "\<not> errors_is (AuthApiErr a d) t"
  "\<not> errors_is (AuthErr st k None d) t"
  "errors_is (AuthErr st k (Some e) d) t \<longleftrightarrow> errors_is e t"
  "errors_is (Wrapped m es) t \<longleftrightarrow> list_ex (\<lambda>e. errors_is e t) es"
  by (auto simp: errors_is_def list_ex_iff)

lemma as_api_error_simps [err_simps]:
  "as_api_error (Sentinel s) = None"
  "as_api_error (Plain m) = None"
  "as_api_error (NetError m) = None"
  "as_api_error (ApiErr a) = Some a"
  "as_api_error (AuthApiErr a d) = Some a"
  "as_api_error (AuthErr st k None d) = None"
  "as_api_error (AuthErr st k (Some e) d) = as_api_error e"
  by (simp_all add: as_api_error_def)

lemma as_api_error_Wrapped [err_simps]: "as_api_error (Wrapped m es) = first_some as_api_error es"
proof -
  have "first_some api_of (concat (map err_chain es)) = first_some as_api_error es"
    by (induction es) (auto simp: first_some_append as_api_error_def split: option.splits)
  then show ?thesis by (simp add: as_api_error_def)
qed

lemma as_auth_api_error_simps [err_simps]:
  "as_auth_api_error (Sentinel s) = None"
  "as_auth_api_error (Plain m) = None"
  "as_auth_api_error (NetError m) = None"
  "as_auth_api_error (ApiErr a) = None"
  "as_auth_api_error (AuthApiErr a d) = Some (a, d)"
  "as_auth_api_error (AuthErr st k None d) = None"
  "as_auth_api_error (AuthErr st k (Some e) d) = as_auth_api_error e"
  by (simp_all add: as_auth_api_error_def)

lemma as_auth_api_error_Wrapped [err_simps]:
  "as_auth_api_error (Wrapped m es) = first_some as_auth_api_error es"
proof -
  have "first_some auth_api_of (concat (map err_chain es)) = first_some as_auth_api_error es"
    by (induction es) (auto simp: first_some_append as_auth_api_error_def split: option.splits)
  then show ?thesis by (simp add: as_auth_api_error_def)
qed

lemma as_auth_error_simps [err_simps]:
  "as_auth_error (Sentinel s) = None"
  "as_auth_error (Plain m) = None"
  "as_auth_error (NetError m) = None"
  "as_auth_error (ApiErr a) = None"
  "as_auth_error (AuthApiErr a d) = None"
  "as_auth_error (AuthErr st k c d) = Some (st, k, c, d)"
  by (cases c; simp add: as_auth_error_def)+

lemma as_auth_error_Wrapped [err_simps]:
  "as_auth_error (Wrapped m es) = first_some as_auth_error es"
proof -
  have "first_some auth_of (concat (map err_chain es)) = first_some as_auth_error es"
    by (induction es) (auto simp: first_some_append as_auth_error_def split: option.splits)
  then show ?thesis by (simp add: as_auth_error_def)
qed

text \<open>An authentication error found in a chain is itself part of the chain.\<close>

lemma auth_of_Some_iff: "auth_of x = Some (st, k, c, d) \<longleftrightarrow> x = AuthErr st k c d"
  by (cases x) auto

lemma as_auth_error_in_chain:
  "as_auth_error e = Some (st, k, c, d) \<Longrightarrow> AuthErr st k c d \<in> set (err_chain e)"
proof -
  assume "as_auth_error e = Some (st, k, c, d)"
  then obtain x where "x \<in> set (err_chain e)" "auth_of x = Some (st, k, c, d)"
    unfolding as_auth_error_def by (blast dest: first_some_SomeD)
  then show ?thesis by (simp add: auth_of_Some_iff)
qed

text \<open>\<open>fmt.Errorf("%w: detail", sentinel)\<close>, the shape of every storage error.\<close>

definition wrap_sentinel :: "sentinel \<Rightarrow> string \<Rightarrow> go_error" where
  "wrap_sentinel s detail = Wrapped detail [Sentinel s]"

lemma errors_is_wrap_sentinel [err_simps]: "errors_is (wrap_sentinel s m) t \<longleftrightarrow> s = t"
  by (simp add: wrap_sentinel_def err_simps)

lemma as_api_error_wrap_sentinel [err_simps]: "as_api_error (wrap_sentinel s m) = None"
  by (simp add: wrap_sentinel_def err_simps)

definition is_context_error :: "go_error \<Rightarrow> bool" where
  "is_context_error e = (errors_is e ContextCanceled \<or> errors_is e ContextDeadlineExceeded)"

text \<open>Failures of the network stack: of a request, or in the middle of a response body.\<close>

datatype net_failure = NetCanceled | NetDeadline | NetOther string

fun net_error :: "net_failure \<Rightarrow> go_error" where
  "net_error NetCanceled = Wrapped ''request failed'' [Sentinel ContextCanceled]"
| "net_error NetDeadline = Wrapped ''request failed'' [Sentinel ContextDeadlineExceeded]"
| "net_error (NetOther m) = NetError m"

lemma net_error_simps [err_simps]:
  "as_api_error (net_error f) = None" "as_auth_error (net_error f) = None"
  "as_auth_api_error (net_error f) = None"
  by (cases f; simp add: err_simps)+

lemma errors_is_net_error [err_simps]:
  "errors_is (net_error f) s \<longleftrightarrow>
     (f = NetCanceled \<and> s = ContextCanceled) \<or> (f = NetDeadline \<and> s = ContextDeadlineExceeded)"
  by (cases f) (auto simp: err_simps)

end
