(* ===== verification/Go_Date.thy ===== *)
theory Go_Date
  imports Go_Time "HOL-Library.Monad_Syntax"
begin

text \<open>
  The text of a \<^verbatim>\<open>time.Time\<close>: the proleptic Gregorian calendar, the RFC 3339 form that
  \<^verbatim>\<open>MarshalJSON\<close> writes and the form that \<^verbatim>\<open>UnmarshalJSON\<close> reads. The location of a
  time is not part of a \<^typ>\<open>gtime\<close>; the writer takes its offset in minutes as an argument, and
  the instant that is read does not depend on it.
\<close>

section \<open>The calendar\<close>

definition leap_year :: "int \<Rightarrow> bool" where
  "leap_year y = (y mod 4 = 0 \<and> (y mod 100 \<noteq> 0 \<or> y mod 400 = 0))"

definition month_lengths :: "int \<Rightarrow> int list" where
  "month_lengths y = [31, if leap_year y then 29 else 28, 31, 30, 31, 30, 31, 31, 30, 31, 30, 31]"

text \<open>Days since the first of January of the year 1.\<close>

definition days_before_year :: "int \<Rightarrow> int" where
  "days_before_year y = (let p = y - 1 in 365 * p + p div 4 - p div 100 + p div 400)"

definition date_days :: "int \<Rightarrow> int \<Rightarrow> int \<Rightarrow> int" where
  "date_days y m d = days_before_year y + sum_list (take (nat (m - 1)) (month_lengths y)) + (d - 1)"

definition days_in :: "int \<Rightarrow> int \<Rightarrow> int" where
  "days_in m y = month_lengths y ! nat (m - 1)"

definition year_of :: "int \<Rightarrow> int" where
  "year_of n =
     (let a = n div 146097; r = n mod 146097;
          b = min 3 (r div 36524); s = r - 36524 * b;
          c = s div 1461; t = s mod 1461;
          d = min 3 (t div 365)
      in 400 * a + 100 * b + 4 * c + d + 1)"

fun month_of :: "int list \<Rightarrow> int \<Rightarrow> nat \<times> int" where
  "month_of [] n = (0, n)"
| "month_of (l # ls) n = (if n < l then (0, n) else case month_of ls (n - l) of (m, d) \<Rightarrow> (Suc m, d))"

definition civil :: "int \<Rightarrow> int \<times> int \<times> int" where
  "civil n =
     (let y = year_of n
      in case month_of (month_lengths y) (n - days_before_year y) of (m, d) \<Rightarrow> (y, int m + 1, d + 1))"

lemma year_parts:
  fixes a b c d :: int
  assumes "0 \<le> b" "b \<le> 3" "0 \<le> c" "c \<le> 24" "0 \<le> d" "d \<le> 3"
  shows "days_before_year (400 * a + 100 * b + 4 * c + d + 1) = 146097 * a + 36524 * b + 1461 * c + 365 * d"
proof -
  let ?p = "400 * a + 100 * b + 4 * c + d"
  have "?p div 4 = 100 * a + 25 * b + c"
    by (rule int_div_pos_eq [of _ _ _ d]) (use assms in auto)
  moreover have "?p div 100 = 4 * a + b"
    by (rule int_div_pos_eq [of _ _ _ "4 * c + d"]) (use assms in auto)
  moreover have "?p div 400 = a"
    by (rule int_div_pos_eq [of _ _ _ "100 * b + 4 * c + d"]) (use assms in auto)
  ultimately show ?thesis by (simp add: days_before_year_def Let_def)
qed

lemma leap_parts:
  fixes a b c :: int
  assumes "0 \<le> b" "b \<le> 3" "0 \<le> c" "c \<le> 24" "c < 24 \<or> b = 3"
  shows "leap_year (400 * a + 100 * b + 4 * c + 3 + 1)"
proof -
  let ?y = "400 * a + 100 * b + 4 * c + 3 + 1"
  have four: "?y mod 4 = 0"
    by (rule int_mod_pos_eq [of _ _ "100 * a + 25 * b + c + 1"]) auto
  show ?thesis
  proof (cases "c < 24")
    case True
    then have "?y mod 100 = 4 * c + 4"
      by (intro int_mod_pos_eq [of _ _ "4 * a + b"]) (use assms in auto)
    then show ?thesis using four assms by (simp add: leap_year_def)
  next
    case False
    then have "?y mod 400 = 0"
      by (intro int_mod_pos_eq [of _ _ "a + 1"]) (use assms in auto)
    then show ?thesis using four by (simp add: leap_year_def)
  qed
qed

lemma sum_month_lengths: "sum_list (month_lengths y) = (if leap_year y then 366 else 365)"
  by (simp add: month_lengths_def)

lemma year_of_bounds:
  "days_before_year (year_of n) \<le> n \<and> n < days_before_year (year_of n) + sum_list (month_lengths (year_of n))"
proof -
  define a r where ar: "a = n div 146097" "r = n mod 146097"
  define b s where bs: "b = min 3 (r div 36524)" "s = r - 36524 * b"
  define c t where ct: "c = s div 1461" "t = s mod 1461"
  define d where d: "d = min 3 (t div 365)"
  have y: "year_of n = 400 * a + 100 * b + 4 * c + d + 1"
    by (simp add: year_of_def Let_def ar bs ct d)
  have n: "n = 146097 * a + r" "0 \<le> r" "r < 146097" by (simp_all add: ar)
  have b: "0 \<le> b" "b \<le> 3" "0 \<le> s" "s \<le> 36524" "s < 36524 \<or> b = 3"
    using n(2,3) unfolding bs by (auto simp: min_def)
  have s: "s = 1461 * c + t" "0 \<le> t" "t < 1461" by (simp_all add: ct)
  have c: "0 \<le> c" "c \<le> 24" using b s by linarith+
  have dd: "0 \<le> d" "d \<le> 3" "0 \<le> t - 365 * d" "t - 365 * d < 365 \<or> d = 3 \<and> t = 1460"
    using s(2,3) unfolding d by (auto simp: min_def)
  have before: "days_before_year (year_of n) = n - (t - 365 * d)"
    using year_parts [OF b(1,2) c dd(1,2), of a] y n(1) s(1) bs(2) by simp
  have "365 \<le> sum_list (month_lengths (year_of n))" by (simp add: sum_month_lengths)
  moreover have "sum_list (month_lengths (year_of n)) = 366" if "d = 3" "t = 1460"
  proof -
    have "c < 24 \<or> b = 3" using b s that by linarith
    then have "leap_year (400 * a + 100 * b + 4 * c + 3 + 1)" using b c by (intro leap_parts) auto
    then show ?thesis using y that by (simp add: sum_month_lengths)
  qed
  ultimately show ?thesis using before dd by auto
qed

lemma month_of_correct:
  "month_of ls n = (m, d) \<Longrightarrow> 0 \<le> n \<Longrightarrow> n < sum_list ls \<Longrightarrow>
     m < length ls \<and> 0 \<le> d \<and> d < ls ! m \<and> n = sum_list (take m ls) + d"
proof (induction ls n arbitrary: m d rule: month_of.induct)
  case (2 l ls n)
  then show ?case
    by (cases "month_of ls (n - l)") (auto split: if_splits)
qed simp

lemma civil_correct:
  assumes "civil n = (y, m, d)"
  shows "1 \<le> m \<and> m \<le> 12 \<and> 1 \<le> d \<and> d \<le> days_in m y \<and> date_days y m d = n"
proof -
  let ?y = "year_of n"
  obtain k e where k: "month_of (month_lengths ?y) (n - days_before_year ?y) = (k, e)" by fastforce
  then have "k < length (month_lengths ?y) \<and> 0 \<le> e \<and> e < month_lengths ?y ! k
      \<and> n - days_before_year ?y = sum_list (take k (month_lengths ?y)) + e"
    using year_of_bounds [of n] by (intro month_of_correct) auto
  moreover have "length (month_lengths ?y) = 12" by (simp add: month_lengths_def)
  ultimately show ?thesis
    using assms k by (auto simp: civil_def Let_def days_in_def date_days_def)
qed

lemma days_in_le: "1 \<le> m \<Longrightarrow> m \<le> 12 \<Longrightarrow> days_in m y \<le> 31"
proof -
  assume "1 \<le> m" "m \<le> 12"
  then have "nat (m - 1) < length (month_lengths y)" by (simp add: month_lengths_def)
  then have "month_lengths y ! nat (m - 1) \<in> set (month_lengths y)" by (rule nth_mem)
  then show ?thesis by (auto simp: days_in_def month_lengths_def split: if_splits)
qed

section \<open>Writing\<close>

definition digits2 :: "int \<Rightarrow> string" where
  "digits2 n = [digit_char (nat n div 10), digit_char (nat n)]"

definition digits4 :: "int \<Rightarrow> string" where
  "digits4 n = digits2 (n div 100) @ digits2 (n mod 100)"

text \<open>Nine digits without the trailing zeros, and nothing at all for none.\<close>

definition fraction_text :: "int \<Rightarrow> string" where
  "fraction_text n =
     (if n = 0 then [] else CHR ''.'' # trim_right (CHR ''0'') (pad_left 9 (CHR ''0'') (show_nat (nat n))))"

definition zone_text :: "int \<Rightarrow> string" where
  "zone_text off =
     (if off = 0 then ''Z''
      else (if off < 0 then CHR ''-'' else CHR ''+'') # digits2 (\<bar>off\<bar> div 60) @ '':'' @ digits2 (\<bar>off\<bar> mod 60))"

definition time_text :: "int \<Rightarrow> gtime \<Rightarrow> string option" where
  "time_text off t =
     (let local = (t - zero_time) div second + 60 * off;
          clock = local mod 86400
      in case civil (local div 86400) of (y, m, d) \<Rightarrow>
           if y < 0 \<or> 9999 < y \<or> 24 \<le> \<bar>off\<bar> div 60 then None
           else Some (digits4 y @ ''-'' @ digits2 m @ ''-'' @ digits2 d @ ''T''
                  @ digits2 (clock div 3600) @ '':'' @ digits2 (clock div 60 mod 60) @ '':'' @ digits2 (clock mod 60)
                  @ fraction_text ((t - zero_time) mod second) @ zone_text off))"

section \<open>Reading\<close>

text \<open>
  \<^verbatim>\<open>time.Parse\<close> on the RFC 3339 layout, laxer than the RFC: an hour may have one digit, a
  comma may start the fraction, an offset may be 24 hours or 60 minutes.
\<close>

definition literal :: "char \<Rightarrow> string \<Rightarrow> string option" where
  "literal c s = (case s of [] \<Rightarrow> None | d # t \<Rightarrow> if d = c then Some t else None)"

definition year_num :: "string \<Rightarrow> (int \<times> string) option" where
  "year_num s =
     (if 4 \<le> length s \<and> list_all is_digit (take 4 s) then Some (int (nat_of_digits (take 4 s)), drop 4 s)
      else None)"

definition two_num :: "bool \<Rightarrow> string \<Rightarrow> (int \<times> string) option" where
  "two_num fixed s =
     (case s of
        [] \<Rightarrow> None
      | a # t \<Rightarrow>
          if \<not> is_digit a then None
          else (case t of
                  [] \<Rightarrow> if fixed then None else Some (int (digit_val a), t)
                | b # u \<Rightarrow>
                    if is_digit b then Some (int (digit_val a * 10 + digit_val b), u)
                    else if fixed then None else Some (int (digit_val a), t)))"

definition ranged :: "int \<Rightarrow> int \<Rightarrow> (int \<times> string) option \<Rightarrow> (int \<times> string) option" where
  "ranged lo hi r = do { (v, s) \<leftarrow> r; if lo \<le> v \<and> v \<le> hi then Some (v, s) else None }"

definition fraction_num :: "string \<Rightarrow> int \<times> string" where
  "fraction_num s =
     (case s of
        c # d # t \<Rightarrow>
          if (c = CHR ''.'' \<or> c = CHR '','') \<and> is_digit d
          then let ds = takeWhile is_digit (d # t); n = min 9 (length ds)
               in (int (nat_of_digits (take n ds) * 10 ^ (9 - n)), dropWhile is_digit (d # t))
          else (0, s)
      | _ \<Rightarrow> (0, s))"

definition zone_num :: "string \<Rightarrow> (int \<times> string) option" where
  "zone_num s =
     (case s of
        [] \<Rightarrow> None
      | c # t \<Rightarrow>
          if c = CHR ''Z'' then Some (0, t)
          else if c = CHR ''+'' \<or> c = CHR ''-'' then
            do { (h, u) \<leftarrow> ranged 0 24 (two_num True t);
                 v \<leftarrow> literal (CHR '':'') u;
                 (m, w) \<leftarrow> ranged 0 60 (two_num True v);
                 Some (if c = CHR ''-'' then - (60 * h + m) else 60 * h + m, w) }
          else None)"

definition parse_time :: "string \<Rightarrow> gtime option" where
  "parse_time s =
     do { (y, s) \<leftarrow> year_num s;
          s \<leftarrow> literal (CHR ''-'') s;
          (m, s) \<leftarrow> ranged 1 12 (two_num True s);
          s \<leftarrow> literal (CHR ''-'') s;
          (d, s) \<leftarrow> two_num True s;
          s \<leftarrow> literal (CHR ''T'') s;
          (h, s) \<leftarrow> ranged 0 23 (two_num False s);
          s \<leftarrow> literal (CHR '':'') s;
          (mi, s) \<leftarrow> ranged 0 59 (two_num True s);
          s \<leftarrow> literal (CHR '':'') s;
          (sec, s) \<leftarrow> ranged 0 59 (two_num True s);
          let (nanos, s) = fraction_num s;
          (off, s) \<leftarrow> zone_num s;
          if s = [] \<and> 1 \<le> d \<and> d \<le> days_in m y
          then Some ((date_days y m d * 86400 + h * 3600 + mi * 60 + sec - 60 * off) * second + nanos + zero_time)
          else None }"

section \<open>What is written is read back\<close>

lemma digit_char_digit: "d < 10 \<Longrightarrow> digit_val (digit_char d) = d"
  by simp

lemma two_num_digits: "0 \<le> n \<Longrightarrow> n < 100 \<Longrightarrow> two_num fixed (digits2 n @ s) = Some (n, s)"
proof -
  assume n: "0 \<le> n" "n < 100"
  then have "nat n div 10 mod 10 = nat n div 10" by simp
  then have "(nat n div 10 mod 10) * 10 + nat n mod 10 = nat n" by simp
  then show ?thesis using n by (simp add: two_num_def digits2_def)
qed

lemma ranged_digits:
  "0 \<le> lo \<Longrightarrow> lo \<le> n \<Longrightarrow> n \<le> hi \<Longrightarrow> hi < 100 \<Longrightarrow> ranged lo hi (two_num fixed (digits2 n @ s)) = Some (n, s)"
  by (simp add: ranged_def two_num_digits)

lemma year_num_digits: "0 \<le> y \<Longrightarrow> y \<le> 9999 \<Longrightarrow> year_num (digits4 y @ s) = Some (y, s)"
proof -
  assume y: "0 \<le> y" "y \<le> 9999"
  define a b where ab: "a = nat (y div 100)" "b = nat (y mod 100)"
  have a: "a < 100" "b < 100" using y by (simp_all add: ab nat_less_iff)
  have "y = 100 * (y div 100) + y mod 100" by simp
  moreover have "0 \<le> y div 100" using y by (simp add: pos_imp_zdiv_nonneg_iff)
  ultimately have y': "y = int (100 * a + b)" by (simp add: ab)
  have "a div 10 mod 10 = a div 10" "b div 10 mod 10 = b div 10" using a by simp_all
  then have "nat_of_digits [digit_char (a div 10), digit_char a, digit_char (b div 10), digit_char b] = 100 * a + b"
    by (simp add: nat_of_digits_def)
  moreover have "digits4 y = [digit_char (a div 10), digit_char a, digit_char (b div 10), digit_char b]"
    by (simp add: digits4_def digits2_def ab)
  moreover have "int (100 * a + b) = y" using y' by (rule sym)
  ultimately show ?thesis by (simp add: year_num_def del: of_nat_add of_nat_mult)
qed

lemma literal_simps [simp]: "literal c (c # s) = Some s"
  by (simp add: literal_def)

lemma nat_of_digits_zeros: "nat_of_digits (s @ replicate k CHR ''0'') = nat_of_digits s * 10 ^ k"
proof (induction k)
  case (Suc k)
  have "s @ replicate (Suc k) CHR ''0'' = (s @ replicate k CHR ''0'') @ [CHR ''0'']"
    by (simp add: replicate_append_same)
  moreover have "digit_val (CHR ''0'') = 0" by code_simp
  ultimately show ?case using Suc by (simp add: nat_of_digits_snoc del: append_assoc)
qed simp

lemma trim_right_split: "\<exists>k. s = trim_right c s @ replicate k c"
proof -
  obtain t where t: "s = trim_right_by (\<lambda>x. x = c) s @ t" "list_all (\<lambda>x. x = c) t"
    using trim_right_by_prefix [of s "\<lambda>x. x = c"] by blast
  have "t = replicate (length t) c" by (rule replicate_eqI) (use t(2) in \<open>auto simp: list_all_iff\<close>)
  then have "s = trim_right c s @ replicate (length t) c" using t(1) by (simp add: trim_right_def)
  then show ?thesis by (rule exI)
qed

lemma zone_head: "zone_text off = c # u \<Longrightarrow> c \<in> {CHR ''Z'', CHR ''+'', CHR ''-''}"
  by (auto simp: zone_text_def split: if_splits)

lemma zone_nonempty: "\<exists>c u. zone_text off = c # u \<and> \<not> is_digit c \<and> c \<noteq> CHR ''.'' \<and> c \<noteq> CHR '',''"
proof -
  obtain c u where u: "zone_text off = c # u" by (cases "zone_text off") (auto simp: zone_text_def split: if_splits)
  from zone_head [OF this] show ?thesis using u by (auto simp: is_digit_def byte_def)
qed

lemma fraction_read:
  assumes "0 \<le> n" "n < second"
  shows "fraction_num (fraction_text n @ zone_text off) = (n, zone_text off)"
proof -
  obtain z u where z: "zone_text off = z # u" "\<not> is_digit z" "z \<noteq> CHR ''.''" "z \<noteq> CHR '',''"
    using zone_nonempty by blast
  show ?thesis
  proof (cases "n = 0")
    case True
    then show ?thesis using z by (simp add: fraction_num_def fraction_text_def split: list.splits)
  next
    case False
    let ?full = "pad_left 9 (CHR ''0'') (show_nat (nat n))"
    define ds where ds: "ds = trim_right (CHR ''0'') ?full"
    have "nat n < 10 ^ Suc 8" using assms by (simp add: second_def nat_less_iff)
    then have full: "length ?full = 9" using show_nat_length [of "nat n" 8] by (simp add: pad_left_def)
    have val: "nat_of_digits ?full = nat n" by (simp add: pad_left_def nat_of_digits_pad nat_of_digits_show)
    obtain k where k: "?full = ds @ replicate k CHR ''0''" using trim_right_split ds by blast
    then have len: "length ds = 9 - k" "k \<le> 9" using full by (metis length_append length_replicate add_diff_cancel_right')
        (use full k in \<open>metis length_append length_replicate le_add2\<close>)
    have digits: "list_all is_digit ds"
    proof -
      have "is_digit (CHR ''0'')" by code_simp
      then have "list_all is_digit ?full"
        using show_nat_digits [of "nat n"] by (auto simp: pad_left_def list_all_iff)
      then show ?thesis using k by (metis list_all_append)
    qed
    have nonempty: "ds \<noteq> []"
    proof
      assume "ds = []"
      then have "nat n = 0" using val k nat_of_digits_zeros [of "[]" k] by (simp add: nat_of_digits_def)
      then show False using False assms by simp
    qed
    have spans: "takeWhile is_digit (ds @ zone_text off) = ds" "dropWhile is_digit (ds @ zone_text off) = zone_text off"
      using digits z by (simp_all add: takeWhile_append dropWhile_append list_all_iff)
    have "nat_of_digits ds * 10 ^ k = nat n" using val k nat_of_digits_zeros [of ds k] by simp
    then have amount: "int (nat_of_digits ds) * 10 ^ k = n"
      using assms(1) by (metis int_nat_eq of_nat_mult of_nat_numeral of_nat_power)
    obtain d t where dt: "ds = d # t" "is_digit d" using nonempty digits by (cases ds) auto
    have "fraction_text n @ zone_text off = CHR ''.'' # ds @ zone_text off"
      using False by (simp add: fraction_text_def ds)
    moreover have "min 9 (length ds) = length ds" "9 - length ds = k" using len by simp_all
    ultimately show ?thesis
      using spans amount dt by (simp add: fraction_num_def Let_def del: length_Cons)
  qed
qed

lemma zone_read: "\<bar>off\<bar> div 60 < 24 \<Longrightarrow> zone_num (zone_text off) = Some (off, [])"
proof -
  assume small: "\<bar>off\<bar> div 60 < 24"
  define h m where hm: "h = \<bar>off\<bar> div 60" "m = \<bar>off\<bar> mod 60"
  have off: "60 * h + m = \<bar>off\<bar>" unfolding hm by (rule mult_div_mod_eq)
  have h: "0 \<le> h" "h \<le> 24" using small by (simp_all add: hm pos_imp_zdiv_nonneg_iff)
  have m: "0 \<le> m" "m \<le> 60" by (simp_all add: hm less_imp_le)
  have "ranged 0 24 (two_num True (digits2 h @ s)) = Some (h, s)" for s
    using h by (intro ranged_digits) auto
  moreover have "ranged 0 60 (two_num True (digits2 m)) = Some (m, [])"
    using ranged_digits [of 0 m 60 True "[]"] m by simp
  moreover have "zone_text off
      = (if off = 0 then ''Z'' else (if off < 0 then CHR ''-'' else CHR ''+'') # digits2 h @ '':'' @ digits2 m)"
    by (simp add: zone_text_def hm)
  moreover have "off < 0 \<Longrightarrow> - (60 * h) - m = off" using off by linarith
  ultimately show ?thesis using off by (simp add: zone_num_def)
qed

lemma clock_parts:
  fixes c :: int
  assumes "0 \<le> c" "c < 86400"
  shows "0 \<le> c div 3600" "c div 3600 \<le> 23" "0 \<le> c div 60 mod 60" "c div 60 mod 60 \<le> 59" "0 \<le> c mod 60" "c mod 60 \<le> 59"
    and "(c div 3600) * 3600 + (c div 60 mod 60) * 60 + c mod 60 = c"
proof -
  have "c div 3600 < 24" using assms by (simp add: div_less_iff_less_mult)
  moreover have "c div 60 mod 60 < 60" "c mod 60 < 60" by (rule pos_mod_bound, simp)+
  ultimately show "0 \<le> c div 3600" "c div 3600 \<le> 23" "0 \<le> c div 60 mod 60" "c div 60 mod 60 \<le> 59"
    "0 \<le> c mod 60" "c mod 60 \<le> 59"
    using assms by (simp_all add: pos_imp_zdiv_nonneg_iff)
  define q r where qr: "q = c div 60" "r = q div 60"
  have "c div 3600 = r" by (simp add: qr zdiv_zmult2_eq [of 60 c 60, simplified])
  moreover have "60 * q + c mod 60 = c" unfolding qr by (rule mult_div_mod_eq)
  moreover have "60 * r + q mod 60 = q" unfolding qr(2) by (rule mult_div_mod_eq)
  ultimately show "(c div 3600) * 3600 + (c div 60 mod 60) * 60 + c mod 60 = c"
    unfolding qr(1) [symmetric] by linarith
qed

lemma parse_fields:
  assumes y: "0 \<le> y" "y \<le> 9999" and m: "1 \<le> m" "m \<le> 12" and d: "1 \<le> d" "d \<le> days_in m y"
    and h: "0 \<le> h" "h \<le> 23" and mi: "0 \<le> mi" "mi \<le> 59" and se: "0 \<le> se" "se \<le> 59"
    and n: "0 \<le> n" "n < second" and off: "\<bar>off\<bar> div 60 < 24"
  shows "parse_time (digits4 y @ ''-'' @ digits2 m @ ''-'' @ digits2 d @ ''T''
           @ digits2 h @ '':'' @ digits2 mi @ '':'' @ digits2 se @ fraction_text n @ zone_text off)
       = Some ((date_days y m d * 86400 + h * 3600 + mi * 60 + se - 60 * off) * second + n + zero_time)"
proof -
  have "d \<le> 31" using days_in_le [OF m, of y] d by linarith
  then have day: "two_num True (digits2 d @ r) = Some (d, r)" for r using d by (intro two_num_digits) auto
  have "ranged 1 12 (two_num True (digits2 m @ r)) = Some (m, r)"
    "ranged 0 23 (two_num False (digits2 h @ r)) = Some (h, r)"
    "ranged 0 59 (two_num True (digits2 mi @ r)) = Some (mi, r)"
    "ranged 0 59 (two_num True (digits2 se @ r)) = Some (se, r)" for r
    using m h mi se by (auto intro!: ranged_digits)
  then show ?thesis
    unfolding parse_time_def
    by (simp only: year_num_digits [OF y] day append_Cons append_Nil literal_simps bind.simps prod.case Let_def
        fraction_read [OF n] zone_read [OF off] d simp_thms if_True)
qed

theorem parse_time_text:
  assumes "time_text off t = Some s"
  shows "parse_time s = Some t"
proof -
  define secs n where sn: "secs = (t - zero_time) div second" "n = (t - zero_time) mod second"
  define days clock where dc: "days = (secs + 60 * off) div 86400" "clock = (secs + 60 * off) mod 86400"
  obtain y m d where c: "civil days = (y, m, d)" by (metis prod_cases3)
  have ok: "0 \<le> y" "y \<le> 9999" "\<bar>off\<bar> div 60 < 24"
    and s: "s = digits4 y @ ''-'' @ digits2 m @ ''-'' @ digits2 d @ ''T''
                  @ digits2 (clock div 3600) @ '':'' @ digits2 (clock div 60 mod 60) @ '':'' @ digits2 (clock mod 60)
                  @ fraction_text n @ zone_text off"
    using assms unfolding time_text_def Let_def sn [symmetric] dc [symmetric] c prod.case
    by (simp_all split: if_split_asm)
  have date: "1 \<le> m" "m \<le> 12" "1 \<le> d" "d \<le> days_in m y" "date_days y m d = days"
    using civil_correct [OF c] by auto
  have "0 \<le> clock" "clock < 86400" by (simp_all add: dc)
  note clock = clock_parts [OF this]
  have local: "days * 86400 + clock = secs + 60 * off" unfolding dc by (rule div_mult_mod_eq)
  have n: "0 \<le> n" "n < second" by (simp_all add: sn second_def)
  have t: "secs * second + n + zero_time = t" unfolding sn by (simp add: div_mult_mod_eq)
  have "parse_time s = Some ((days * 86400 + clock div 3600 * 3600 + clock div 60 mod 60 * 60 + clock mod 60 - 60 * off)
      * second + n + zero_time)"
    unfolding s date(5) [symmetric] by (intro parse_fields ok date clock n)
  moreover have "days * 86400 + clock div 3600 * 3600 + clock div 60 mod 60 * 60 + clock mod 60 - 60 * off = secs"
    using clock(7) local by linarith
  ultimately show ?thesis using t by simp
qed

end
