(* ===== verification/Http_Date.thy ===== *)
theory Http_Date
  imports Go_Date
begin

text \<open>
  \<^verbatim>\<open>http.ParseTime\<close>, which \<^verbatim>\<open>parseRetryAfter\<close> relies on: \<^verbatim>\<open>time.Parse\<close> with the
  preferred date format of HTTP and its two obsolete ones. Only the abbreviations of time zones
  that the machine's own location knows are an argument.
\<close>

definition short_days :: "string list" where
  "short_days = [''Sun'', ''Mon'', ''Tue'', ''Wed'', ''Thu'', ''Fri'', ''Sat'']"

definition long_days :: "string list" where
  "long_days = [''Sunday'', ''Monday'', ''Tuesday'', ''Wednesday'', ''Thursday'', ''Friday'', ''Saturday'']"

definition short_months :: "string list" where
  "short_months = [''Jan'', ''Feb'', ''Mar'', ''Apr'', ''May'', ''Jun'', ''Jul'', ''Aug'', ''Sep'', ''Oct'', ''Nov'', ''Dec'']"

text \<open>The first name that starts the text, letters compared without case: its position and the rest.\<close>

fun lookup_name :: "string list \<Rightarrow> string \<Rightarrow> (int \<times> string) option" where
  "lookup_name [] s = None"
| "lookup_name (v # vs) s =
     (if length v \<le> length s \<and> equal_fold (take (length v) s) v then Some (0, drop (length v) s)
      else do { (i, r) \<leftarrow> lookup_name vs s; Some (i + 1, r) })"

definition month_name :: "string \<Rightarrow> (int \<times> string) option" where
  "month_name s = do { (i, r) \<leftarrow> lookup_name short_months s; Some (i + 1, r) }"

text \<open>A blank of the layout takes any number of blanks, at least one unless the text is at its end.\<close>

definition blanks :: "string \<Rightarrow> string option" where
  "blanks s =
     (case s of [] \<Rightarrow> Some [] | c # t \<Rightarrow> if c = CHR '' '' then Some (dropWhile (\<lambda>x. x = CHR '' '') t) else None)"

text \<open>The seconds of the day and the fraction behind them.\<close>

definition clock_num :: "string \<Rightarrow> (int \<times> int \<times> string) option" where
  "clock_num s =
     do { (h, s) \<leftarrow> ranged 0 23 (two_num False s);
          s \<leftarrow> literal (CHR '':'') s;
          (mi, s) \<leftarrow> ranged 0 59 (two_num True s);
          s \<leftarrow> literal (CHR '':'') s;
          (sec, s) \<leftarrow> ranged 0 59 (two_num True s);
          Some (h * 3600 + mi * 60 + sec, fraction_num s) }"

definition instant :: "int \<Rightarrow> int \<Rightarrow> int \<Rightarrow> int \<Rightarrow> int \<Rightarrow> gtime option" where
  "instant y m d clock nanos =
     (if 1 \<le> d \<and> d \<le> days_in m y then Some ((date_days y m d * 86400 + clock) * second + nanos + zero_time) else None)"

text \<open>\<^verbatim>\<open>http.TimeFormat\<close>: \<^verbatim>\<open>Mon, 02 Jan 2006 15:04:05 GMT\<close>.\<close>

definition parse_imf :: "string \<Rightarrow> gtime option" where
  "parse_imf s =
     do { (_, s) \<leftarrow> lookup_name short_days s;
          s \<leftarrow> literal (CHR '','') s;
          s \<leftarrow> blanks s;
          (d, s) \<leftarrow> two_num True s;
          s \<leftarrow> blanks s;
          (m, s) \<leftarrow> month_name s;
          s \<leftarrow> blanks s;
          (y, s) \<leftarrow> year_num s;
          s \<leftarrow> blanks s;
          (clock, nanos, s) \<leftarrow> clock_num s;
          s \<leftarrow> blanks s;
          if s = ''GMT'' then instant y m d clock nanos else None }"

text \<open>A year of two characters, a sign among them included.\<close>

definition short_year :: "string \<Rightarrow> (int \<times> string) option" where
  "short_year s =
     (case s of
        a # b # t \<Rightarrow>
          if \<not> is_digit b then None
          else do { v \<leftarrow> (if is_digit a then Some (int (digit_val a * 10 + digit_val b))
                          else if a = CHR ''+'' then Some (int (digit_val b))
                          else if a = CHR ''-'' then Some (- int (digit_val b)) else None);
                    Some (if 69 \<le> v then v + 1900 else v + 2000, t) }
      | _ \<Rightarrow> None)"

text \<open>The length of an offset of at most 23 hours with its sign, 0 for none.\<close>

definition signed_offset :: "string \<Rightarrow> nat" where
  "signed_offset s =
     (case s of [] \<Rightarrow> 0
      | c # t \<Rightarrow>
          let ds = takeWhile is_digit t
          in if (c = CHR ''+'' \<or> c = CHR ''-'') \<and> ds \<noteq> [] \<and> nat_of_digits ds \<le> 23 then 1 + length ds else 0)"

definition is_upper :: "char \<Rightarrow> bool" where
  "is_upper c = (65 \<le> byte c \<and> byte c \<le> 90)"

definition zone_name_len :: "string \<Rightarrow> nat option" where
  "zone_name_len s =
     (if length s < 3 then None
      else if take 4 s = ''ChST'' \<or> take 4 s = ''MeST'' then Some 4
      else if take 3 s = ''GMT'' then Some (3 + signed_offset (drop 3 s))
      else if hd s = CHR ''+'' \<or> hd s = CHR ''-'' then (if 0 < signed_offset s then Some (signed_offset s) else None)
      else let n = length (takeWhile is_upper (take 6 s))
           in if n = 5 then (if s ! 4 = CHR ''T'' then Some 5 else None)
              else if n = 4 then (if s ! 3 = CHR ''T'' \<or> take 4 s = ''WITA'' then Some 4 else None)
              else if n = 3 then Some 3 else None)"

text \<open>
  \<^verbatim>\<open>time.RFC850\<close>: \<^verbatim>\<open>Monday, 02-Jan-06 15:04:05 MST\<close>. A zone the location knows shifts
  the instant (\<open>zones\<close> gives its offset in seconds); any other name, \<^verbatim>\<open>GMT+3\<close> too, leaves it.
\<close>

definition parse_rfc850 :: "(string \<Rightarrow> gtime \<Rightarrow> int option) \<Rightarrow> string \<Rightarrow> gtime option" where
  "parse_rfc850 zones s =
     do { (_, s) \<leftarrow> lookup_name long_days s;
          s \<leftarrow> literal (CHR '','') s;
          s \<leftarrow> blanks s;
          (d, s) \<leftarrow> two_num True s;
          s \<leftarrow> literal (CHR ''-'') s;
          (m, s) \<leftarrow> month_name s;
          s \<leftarrow> literal (CHR ''-'') s;
          (y, s) \<leftarrow> short_year s;
          s \<leftarrow> blanks s;
          (clock, nanos, s) \<leftarrow> clock_num s;
          s \<leftarrow> blanks s;
          if take 3 s = ''UTC'' then (if length s = 3 then instant y m d clock nanos else None)
          else do { n \<leftarrow> zone_name_len s;
                    t \<leftarrow> instant y m d clock nanos;
                    if length s = n
                    then Some (case zones s t of None \<Rightarrow> t | Some off \<Rightarrow> t - off * second) else None } }"

text \<open>\<^verbatim>\<open>time.ANSIC\<close>: \<^verbatim>\<open>Mon Jan _2 15:04:05 2006\<close>.\<close>

definition parse_ansic :: "string \<Rightarrow> gtime option" where
  "parse_ansic s =
     do { (_, s) \<leftarrow> lookup_name short_days s;
          s \<leftarrow> blanks s;
          (m, s) \<leftarrow> month_name s;
          s \<leftarrow> blanks s;
          (d, s) \<leftarrow> two_num False s;
          s \<leftarrow> blanks s;
          (clock, nanos, s) \<leftarrow> clock_num s;
          s \<leftarrow> blanks s;
          (y, s) \<leftarrow> year_num s;
          if s = [] then instant y m d clock nanos else None }"

definition parse_http_date :: "(string \<Rightarrow> gtime \<Rightarrow> int option) \<Rightarrow> string \<Rightarrow> gtime option" where
  "parse_http_date zones s =
     (case parse_imf s of
        Some t \<Rightarrow> Some t
      | None \<Rightarrow> (case parse_rfc850 zones s of Some t \<Rightarrow> Some t | None \<Rightarrow> parse_ansic s))"

section \<open>The date a server sends\<close>

text \<open>The preferred format of a whole second, from the year 0 to 9999.\<close>

definition http_date :: "int \<Rightarrow> string option" where
  "http_date secs =
     (let local = secs - zero_time div second; clock = local mod 86400; days = local div 86400
      in case civil days of (y, m, d) \<Rightarrow>
           if y < 0 \<or> 9999 < y then None
           else Some (short_days ! nat ((days + 1) mod 7) @ '', '' @ digits2 d @ '' '' @ short_months ! nat (m - 1)
                  @ '' '' @ digits4 y @ '' '' @ digits2 (clock div 3600) @ '':'' @ digits2 (clock div 60 mod 60)
                  @ '':'' @ digits2 (clock mod 60) @ '' GMT''))"

lemma lookup_nth:
  "i < length vs \<Longrightarrow> list_all (\<lambda>v. length v = n) vs \<Longrightarrow> distinct (map to_lower vs) \<Longrightarrow>
     lookup_name vs (vs ! i @ s) = Some (int i, s)"
proof (induction vs arbitrary: i)
  case (Cons v vs)
  show ?case
  proof (cases i)
    case 0
    then show ?thesis by (simp add: equal_fold_def)
  next
    case (Suc k)
    have k: "k < length vs" using Cons.prems(1) Suc by simp
    then have "vs ! k \<in> set vs" by simp
    then have len: "length (vs ! k) = length v" using Cons.prems(2) by (simp add: list_all_iff)
    have "to_lower (vs ! k) \<noteq> to_lower v"
      using Cons.prems(3) \<open>vs ! k \<in> set vs\<close> by (auto simp: image_iff)
    then show ?thesis
      using Cons.IH [OF k] Cons.prems len Suc by (simp add: equal_fold_def)
  qed
qed simp

lemma names_distinct:
  "list_all (\<lambda>v. length v = 3) short_days" "distinct (map to_lower short_days)"
  "list_all (\<lambda>v. length v = 3) short_months" "distinct (map to_lower short_months)"
  by code_simp+

lemma lookup_day: "i < 7 \<Longrightarrow> lookup_name short_days (short_days ! i @ s) = Some (int i, s)"
  by (rule lookup_nth [OF _ names_distinct(1,2)]) (simp add: short_days_def)

lemma month_read: "1 \<le> m \<Longrightarrow> m \<le> 12 \<Longrightarrow> month_name (short_months ! nat (m - 1) @ s) = Some (m, s)"
proof -
  assume m: "1 \<le> m" "m \<le> 12"
  then have "nat (m - 1) < length short_months" by (simp add: short_months_def)
  from lookup_nth [OF this names_distinct(3,4), of s] show ?thesis using m by (simp add: month_name_def)
qed

lemma blanks_one: "c \<noteq> CHR '' '' \<Longrightarrow> blanks (CHR '' '' # c # s) = Some (c # s)"
  by (simp add: blanks_def)

lemma digit_not_blank: "digit_char d \<noteq> CHR '' ''"
  using is_digit_digit_char [of d] by (auto simp: is_digit_def byte_def)

lemma blanks_digits:
  "blanks (CHR '' '' # digits2 n @ s) = Some (digits2 n @ s)" "blanks (CHR '' '' # digits4 n @ s) = Some (digits4 n @ s)"
  by (simp_all add: digits2_def digits4_def blanks_def digit_not_blank)

lemma blanks_month: "1 \<le> m \<Longrightarrow> m \<le> 12 \<Longrightarrow>
    blanks (CHR '' '' # short_months ! nat (m - 1) @ s) = Some (short_months ! nat (m - 1) @ s)"
proof -
  assume "1 \<le> m" "m \<le> 12"
  then have "short_months ! nat (m - 1) \<in> set short_months" by (intro nth_mem) (simp add: short_months_def)
  then show ?thesis by (auto simp: short_months_def blanks_def)
qed

lemma clock_read:
  assumes "0 \<le> h" "h \<le> 23" "0 \<le> mi" "mi \<le> 59" "0 \<le> se" "se \<le> 59"
  shows "clock_num (digits2 h @ '':'' @ digits2 mi @ '':'' @ digits2 se @ '' GMT'')
       = Some (h * 3600 + mi * 60 + se, 0, '' GMT'')"
proof -
  have "ranged 0 23 (two_num False (digits2 h @ r)) = Some (h, r)"
    "ranged 0 59 (two_num True (digits2 mi @ r)) = Some (mi, r)"
    "ranged 0 59 (two_num True (digits2 se @ r)) = Some (se, r)" for r
    using assms by (auto intro!: ranged_digits)
  then show ?thesis by (simp add: clock_num_def fraction_num_def)
qed

lemma http_date_read:
  assumes "http_date secs = Some s"
  shows "parse_http_date zones s = Some (time_unix secs)"
proof -
  define local where local: "local = secs - zero_time div second"
  define days clock where dc: "days = local div 86400" "clock = local mod 86400"
  obtain y m d where c: "civil days = (y, m, d)" by (metis prod_cases3)
  have y: "0 \<le> y" "y \<le> 9999"
    and s: "s = short_days ! nat ((days + 1) mod 7) @ '', '' @ digits2 d @ '' '' @ short_months ! nat (m - 1)
                  @ '' '' @ digits4 y @ '' '' @ digits2 (clock div 3600) @ '':'' @ digits2 (clock div 60 mod 60)
                  @ '':'' @ digits2 (clock mod 60) @ '' GMT''"
    using assms unfolding http_date_def Let_def local [symmetric] dc [symmetric] c prod.case
    by (simp_all split: if_split_asm)
  have date: "1 \<le> m" "m \<le> 12" "1 \<le> d" "d \<le> days_in m y" "date_days y m d = days"
    using civil_correct [OF c] by auto
  have "d \<le> 31" using days_in_le [of m y] date by linarith
  then have day: "two_num True (digits2 d @ r) = Some (d, r)" for r using date by (intro two_num_digits) auto
  have weekday: "lookup_name short_days (short_days ! nat ((days + 1) mod 7) @ r)
      = Some (int (nat ((days + 1) mod 7)), r)" for r
    by (rule lookup_day) (simp add: nat_less_iff)
  have "0 \<le> clock" "clock < 86400" by (simp_all add: dc)
  note clock = clock_parts [OF this]
  have "days * 86400 + clock = local" unfolding dc by (rule div_mult_mod_eq)
  moreover have "(local + zero_time div second) * second = secs * second" by (simp add: local)
  moreover have "zero_time div second * second = zero_time" by (simp add: zero_time_def second_def)
  ultimately have total: "(days * 86400 + clock) * second + 0 + zero_time = time_unix secs"
    by (simp add: time_unix_def algebra_simps)
  have gmt: "blanks '' GMT'' = Some ''GMT''" by (simp add: blanks_def)
  have "parse_imf s = instant y m d clock 0"
    unfolding parse_imf_def s
    by (simp only: weekday day append_Cons append_Nil literal_simps bind.simps prod.case blanks_digits
        blanks_month [OF date(1,2)] month_read [OF date(1,2)] year_num_digits [OF y] gmt
        clock_read [OF clock(1-6), unfolded append_Cons append_Nil] clock(7) simp_thms if_True)
  also have "\<dots> = Some (time_unix secs)" using date total by (simp add: instant_def)
  finally show ?thesis by (simp add: parse_http_date_def)
qed

text \<open>The three spellings of one date that RFC 9110 gives as its example.\<close>

lemma date_spellings:
  "parse_http_date zones ''Sun, 06 Nov 1994 08:49:37 GMT'' = Some (time_unix 784111777)"
  "parse_http_date (\<lambda>_ _. None) ''Sunday, 06-Nov-94 08:49:37 GMT'' = Some (time_unix 784111777)"
  "parse_http_date zones ''Sun Nov  6 08:49:37 1994'' = Some (time_unix 784111777)"
  by code_simp+

end
