(* ===== verification/Auth_Errors.thy ===== *)
theory Auth_Errors
  imports Go_Error Http_Date
begin

text \<open>
  errors.go and the rate-limit predicate of session.go: capped reads, the classification
  of a failure by stage and status, and the retry delay a server asked for.
\<close>

section \<open>Constants\<close>

definition account_lockout_wait :: duration where
  "account_lockout_wait = 61 * second"

definition login_response_bytes :: nat where
  "login_response_bytes = 2 ^ 16"

definition max_response_bytes :: nat where
  "max_response_bytes = 8 * 2 ^ 20"

section \<open>Capped reads\<close>

text \<open>
  A body is the bytes that can be read from it and the error that follows them, if any
  (\<^verbatim>\<open>None\<close> is end of file). \<open>io.ReadAll(io.LimitReader(body, n))\<close> stops after \<open>n\<close> bytes,
  before an error that lies behind them.
\<close>

record body =
  content :: string
  read_error :: "net_failure option"

definition read_all_limited :: "body \<Rightarrow> nat \<Rightarrow> go_error + string" where
  "read_all_limited b n =
     (if n \<le> length (content b) then Inr (take n (content b))
      else case read_error b of Some f \<Rightarrow> Inl (net_error f) | None \<Rightarrow> Inr (content b))"

definition read_capped :: "body \<Rightarrow> nat \<Rightarrow> go_error + string" where
  "read_capped b limit =
     (case read_all_limited b (limit + 1) of
        Inl e \<Rightarrow> Inl e
      | Inr payload \<Rightarrow>
          if limit < length payload
          then Inl (wrap_sentinel ErrResponseTooLarge (''limit is '' @ show_nat limit @ '' bytes''))
          else Inr payload)"

section \<open>Rate limits\<close>

definition is_rate_limited :: "go_error \<Rightarrow> bool" where
  "is_rate_limited err =
     (case as_api_error err of
        None \<Rightarrow> False
      | Some a \<Rightarrow>
          if ae_status a = 429 then True
          else let body = to_lower (ae_body a)
               in contains body ''too many'' \<or> contains body ''wait a minute''
                  \<or> contains body ''rate limit'')"

definition is_rate_limited_opt :: "go_error option \<Rightarrow> bool" where
  "is_rate_limited_opt err = (case err of None \<Rightarrow> False | Some e \<Rightarrow> is_rate_limited e)"

definition auth_retry_after :: "go_error \<Rightarrow> duration" where
  "auth_retry_after err =
     (case (case as_auth_error err of
              Some (st, k, c, d) \<Rightarrow> if 0 < d then Some d else None
            | None \<Rightarrow> None) of
        Some d \<Rightarrow> d
      | None \<Rightarrow>
          (case as_auth_api_error err of
             Some (a, r) \<Rightarrow>
               if 0 < r then r
               else if contains (to_lower (ae_body a)) ''wait a minute'' then account_lockout_wait
               else 0
           | None \<Rightarrow> 0))"

section \<open>Classification\<close>

fun kind_by_stage :: "auth_stage \<Rightarrow> int \<Rightarrow> auth_kind" where
  "kind_by_stage AuthStageLogin status =
     (if status = 400 \<or> status = 401 then AuthKindRejectedCredentials
      else if status = 403 then AuthKindPermissionDenied
      else AuthKindTransportFailure)"
| "kind_by_stage AuthStageOTPVerification status =
     (if status = 400 \<or> status = 401 then AuthKindRejectedOTP
      else if status = 403 then AuthKindPermissionDenied
      else AuthKindTransportFailure)"
| "kind_by_stage AuthStageImpersonation status =
     (if status = 401 \<or> status = 403 then AuthKindPermissionDenied else AuthKindTransportFailure)"
| "kind_by_stage AuthStageSessionRecovery status =
     (if status = 401 \<or> status = 403 \<or> (300 \<le> status \<and> status \<le> 399)
      then AuthKindPersistentSessionLoss else AuthKindTransportFailure)"
| "kind_by_stage StageUnset status = AuthKindTransportFailure"

definition error_kind :: "auth_stage \<Rightarrow> go_error \<Rightarrow> auth_kind" where
  "error_kind stage err =
     (if errors_is err ErrOTPStateStorage then AuthKindStorageFailure
      else if is_rate_limited err then AuthKindRateLimited
      else case as_api_error err of
             None \<Rightarrow> AuthKindTransportFailure
           | Some a \<Rightarrow> if 500 \<le> ae_status a then AuthKindTransportFailure
                       else kind_by_stage stage (ae_status a))"

definition classify_auth_error :: "auth_stage \<Rightarrow> go_error \<Rightarrow> go_error" where
  "classify_auth_error stage err =
     (case as_auth_error err of
        Some (st, k, c, d) \<Rightarrow> AuthErr st k c d
      | None \<Rightarrow> AuthErr stage (error_kind stage err) (Some err) (auth_retry_after err))"

definition auth_error_stage :: "go_error \<Rightarrow> auth_stage \<Rightarrow> auth_stage" where
  "auth_error_stage err fallback =
     (case as_auth_error err of
        Some (st, k, c, d) \<Rightarrow> if st \<noteq> StageUnset then st else fallback
      | None \<Rightarrow> fallback)"

section \<open>Retry-After\<close>

text \<open>A number of seconds or a date; \<open>zones\<close> are the time-zone names the machine's location knows.\<close>

definition parse_retry_after :: "(string \<Rightarrow> gtime \<Rightarrow> int option) \<Rightarrow> string \<Rightarrow> gtime \<Rightarrow> duration" where
  "parse_retry_after zones value now =
     (let value = trim_space value
      in if value = [] then 0
         else case parse_int64 value of
                Some seconds \<Rightarrow>
                  if 0 \<le> seconds \<and> seconds \<le> max_duration div second
                  then wrap64 (seconds * second) else 0
              | None \<Rightarrow>
                  (case parse_http_date zones value of
                     None \<Rightarrow> 0
                   | Some when \<Rightarrow>
                       let delay = time_sub when now in if 0 < delay then delay else 0))"

section \<open>Lemmas\<close>

lemma read_capped_Inr_iff [result_iff]:
  "read_capped b limit = Inr p \<longleftrightarrow>
     length (content b) \<le> limit \<and> read_error b = None \<and> p = content b"
  by (auto simp: read_capped_def read_all_limited_def split: option.splits if_splits)

lemma read_capped_Inl_cases:
  "read_capped b limit = Inl e \<Longrightarrow>
     (limit < length (content b) \<and> errors_is e ErrResponseTooLarge)
     \<or> (length (content b) \<le> limit \<and> (\<exists>f. read_error b = Some f \<and> e = net_error f))"
  by (auto simp: read_capped_def read_all_limited_def err_simps split: option.splits if_splits)

lemma classify_is_auth_error:
  "\<exists>st k c d. classify_auth_error stage err = AuthErr st k c d"
  by (auto simp: classify_auth_error_def split: option.splits)

lemma as_auth_classify [err_simps]:
  "as_auth_error (classify_auth_error stage err) =
     (case as_auth_error err of
        Some x \<Rightarrow> Some x
      | None \<Rightarrow> Some (stage, error_kind stage err, Some err, auth_retry_after err))"
  by (auto simp: classify_auth_error_def err_simps split: option.splits)

lemma classify_idem: "classify_auth_error st (classify_auth_error st' err) = classify_auth_error st' err"
  by (auto simp: classify_auth_error_def err_simps split: option.splits)

lemma as_api_classify_fresh [err_simps]:
  "as_auth_error err = None \<Longrightarrow> as_api_error (classify_auth_error stage err) = as_api_error err"
  by (simp add: classify_auth_error_def err_simps)

lemma rate_limited_classify:
  "as_auth_error err = None \<Longrightarrow> is_rate_limited (classify_auth_error stage err) = is_rate_limited err"
  by (simp add: is_rate_limited_def as_api_classify_fresh)

lemma auth_retry_after_nonneg: "0 \<le> auth_retry_after err"
  by (auto simp: auth_retry_after_def account_lockout_wait_def second_def split: option.splits)

lemma retry_seconds_in_range:
  "0 \<le> s \<Longrightarrow> s \<le> max_duration div second \<Longrightarrow>
     wrap64 (s * second) = s * second \<and> 0 \<le> s * second \<and> s * second \<le> max_duration"
  by (simp add: time_defs wrap64_id)

lemma parse_retry_after_range:
  "0 \<le> parse_retry_after pt v now \<and> parse_retry_after pt v now \<le> max_duration"
proof -
  have "time_sub w now \<le> max_duration" for w
    by (simp add: time_defs)
  then show ?thesis
    by (auto simp: parse_retry_after_def Let_def retry_seconds_in_range max_duration_def
        split: option.splits dest: retry_seconds_in_range)
qed

section \<open>Properties\<close>

text \<open>A capped read returns the whole body or an error: it succeeds exactly when the body fits
  and ends well, and reports the body as too large exactly when it does not fit.\<close>

theorem read_capped_all_or_error:
  "(\<forall>p. read_capped b limit = Inr p \<longleftrightarrow>
      length (content b) \<le> limit \<and> read_error b = None \<and> p = content b)
   \<and> (case read_capped b limit of
        Inl e \<Rightarrow> errors_is e ErrResponseTooLarge \<longleftrightarrow> limit < length (content b)
      | Inr p \<Rightarrow> True)"
proof (cases "read_capped b limit")
  case (Inl e)
  then show ?thesis
    using read_capped_Inl_cases [OF Inl] read_capped_Inr_iff [of b limit]
    by (auto simp: err_simps)
next
  case (Inr p)
  then have "case read_capped b limit of
        Inl e \<Rightarrow> errors_is e ErrResponseTooLarge \<longleftrightarrow> limit < length (content b)
      | Inr p \<Rightarrow> True" by (simp only: sum.case)
  then show ?thesis using read_capped_Inr_iff [of b limit] by blast
qed

text \<open>Classification is idempotent: an error that already carries its stage and kind keeps them
  through every later stage, and so do its retry delay and its rate-limit verdict.\<close>

theorem classification_stable:
  "classify_auth_error st (classify_auth_error st' err) = classify_auth_error st' err
   \<and> (\<exists>s k c d. classify_auth_error st err = AuthErr s k c d
        \<and> (as_auth_error err = None \<longrightarrow> s = st \<and> d = auth_retry_after err
             \<and> is_rate_limited (classify_auth_error st err) = is_rate_limited err))"
  using classify_idem [of st st' err] rate_limited_classify [of err st]
  by (cases "as_auth_error err") (auto simp: classify_auth_error_def split: option.splits)

lemma classification_stable_witness:
  "classify_auth_error AuthStageLogin (classify_auth_error AuthStageOTPVerification (Plain ''x''))
     = classify_auth_error AuthStageOTPVerification (Plain ''x'')"
  using classification_stable [of AuthStageLogin AuthStageOTPVerification "Plain ''x''"] by blast

lemma trim_space_id: "\<not> is_space (hd s) \<Longrightarrow> \<not> is_space (last s) \<Longrightarrow> trim_space s = s"
proof -
  assume ends: "\<not> is_space (hd s)" "\<not> is_space (last s)"
  then have "dropWhile is_space s = s" "dropWhile is_space (rev s) = rev s"
    by (simp_all add: dropWhile_eq_self_iff hd_rev)
  then show ?thesis by (simp add: trim_space_def trim_right_by_def trim_left_by_def)
qed

lemma http_date_shape:
  assumes "http_date secs = Some s"
  shows "trim_space s = s \<and> parse_int64 s = None \<and> s \<noteq> []"
proof -
  obtain i u where s: "s = short_days ! i @ u @ ''GMT''" and i: "i < length short_days"
  proof -
    obtain y m d where c: "civil ((secs - zero_time div second) div 86400) = (y, m, d)" by (metis prod_cases3)
    have "nat (((secs - zero_time div second) div 86400 + 1) mod 7) < length short_days"
      by (simp add: short_days_def nat_less_iff)
    then show thesis
      using assms c
      by (intro that [of _ "'', '' @ digits2 d @ '' '' @ short_months ! nat (m - 1) @ '' '' @ digits4 y @ '' ''
            @ digits2 ((secs - zero_time div second) mod 86400 div 3600) @ '':''
            @ digits2 ((secs - zero_time div second) mod 86400 div 60 mod 60) @ '':''
            @ digits2 ((secs - zero_time div second) mod 86400 mod 60) @ '' ''"])
         (auto simp: http_date_def Let_def split: if_splits)
  qed
  have "short_days ! i \<in> set short_days" using i by (rule nth_mem)
  then obtain a v where day: "short_days ! i = a # v" "a \<in> {CHR ''S'', CHR ''M'', CHR ''T'', CHR ''W'', CHR ''F''}"
    by (auto simp: short_days_def)
  then have "hd s = a" "last s = CHR ''T''" by (simp_all add: s)
  moreover have "\<not> is_space a" "\<not> is_digit a" "a \<noteq> CHR ''-''" "a \<noteq> CHR ''+''"
    using day(2) by (auto simp: is_space_def is_digit_def byte_def)
  moreover have "\<not> is_space (CHR ''T'')" by (simp add: is_space_def byte_def)
  ultimately show ?thesis
    using trim_space_id [of s] day(1) by (simp add: s parse_int64_def Let_def)
qed

text \<open>C39: A Retry-After header never yields a negative or overflowing delay, whatever its text; a number
  of seconds in range is taken exactly, and a date is taken as the time until it, none when it has
  passed.\<close>

theorem retry_after_exact:
  "0 \<le> parse_retry_after zones v now \<and> parse_retry_after zones v now \<le> max_duration
   \<and> (int n \<le> max_duration div second \<longrightarrow> parse_retry_after zones (show_nat n) now = int n * second)
   \<and> (http_date secs = Some date \<longrightarrow>
        parse_retry_after zones date now = max 0 (min max_duration (time_unix secs - now)))"
proof (intro conjI impI)
  show "0 \<le> parse_retry_after zones v now" "parse_retry_after zones v now \<le> max_duration"
    using parse_retry_after_range by blast+
next
  assume n: "int n \<le> max_duration div second"
  then have "int n < 2 ^ 63" by (simp add: max_duration_def second_def)
  then show "parse_retry_after zones (show_nat n) now = int n * second"
    using n retry_seconds_in_range [of "int n"] trim_space_digits [OF show_nat_digits]
    by (simp add: parse_retry_after_def Let_def parse_show_nat)
next
  assume date: "http_date secs = Some date"
  then have "parse_retry_after zones date now
      = (let delay = time_sub (time_unix secs) now in if 0 < delay then delay else 0)"
    using http_date_shape [OF date] http_date_read [OF date] by (simp add: parse_retry_after_def Let_def)
  then show "parse_retry_after zones date now = max 0 (min max_duration (time_unix secs - now))"
    by (auto simp: Let_def time_sub_def min_duration_def max_duration_def)
qed

lemma retry_after_exact_witness:
  "parse_retry_after (\<lambda>s t. None) ''Sun, 06 Nov 1994 08:49:37 GMT'' (time_unix 784111770) = 7 * second"
proof -
  have "http_date 784111777 = Some ''Sun, 06 Nov 1994 08:49:37 GMT''" by code_simp
  then show ?thesis
    using retry_after_exact [of "\<lambda>s t. None" "[]" "time_unix 784111770" 0 784111777]
    by (simp add: time_unix_def second_def max_duration_def)
qed

end
