(* ===== verification/Go_URL.thy ===== *)
theory Go_URL
  imports Prelude
begin

text \<open>
  Go's \<^verbatim>\<open>net/url\<close> as the sources use it: \<^verbatim>\<open>url.Parse\<close> with its splitting into scheme,
  authority, path, query and fragment and its validation of escapes, hosts and ports;
  \<^verbatim>\<open>Hostname\<close>, \<^verbatim>\<open>Port\<close>, \<^verbatim>\<open>net.JoinHostPort\<close> and \<^verbatim>\<open>URL.String\<close>. IPv6 zone identifiers
  are not treated specially. A parse error is \<open>None\<close>.
\<close>

record url =
  u_scheme :: string
  u_opaque :: string
  u_user :: "string option"
  u_host :: string
  u_path :: string
  u_raw_path :: string
  u_force_query :: bool
  u_raw_query :: string
  u_fragment :: string

definition empty_url :: url where
  "empty_url = \<lparr>u_scheme = [], u_opaque = [], u_user = None, u_host = [], u_path = [],
     u_raw_path = [], u_force_query = False, u_raw_query = [], u_fragment = []\<rparr>"

section \<open>Characters and escapes\<close>

definition is_alpha :: "char \<Rightarrow> bool" where
  "is_alpha c = ((65 \<le> byte c \<and> byte c \<le> 90) \<or> (97 \<le> byte c \<and> byte c \<le> 122))"

definition is_ctl :: "char \<Rightarrow> bool" where
  "is_ctl c = (byte c < 32 \<or> byte c = 127)"

definition unhex :: "char \<Rightarrow> nat option" where
  "unhex c =
     (if 48 \<le> byte c \<and> byte c \<le> 57 then Some (byte c - 48)
      else if 97 \<le> byte c \<and> byte c \<le> 102 then Some (byte c - 87)
      else if 65 \<le> byte c \<and> byte c \<le> 70 then Some (byte c - 55)
      else None)"

definition upper_hex :: "nat \<Rightarrow> char" where
  "upper_hex d = ''0123456789ABCDEF'' ! (d mod 16)"

datatype encoding = EncodePath | EncodeHost | EncodeFragment

definition should_escape :: "encoding \<Rightarrow> char \<Rightarrow> bool" where
  "should_escape mode c =
     (if is_alpha c \<or> is_digit c then False
      else if mode = EncodeHost \<and> c \<in> set ''!$&()*+,;=:[]<>'' then False
      else if mode = EncodeHost \<and> (byte c = 34 \<or> byte c = 39) then False
      else if c \<in> set ''-_.~'' then False
      else if c \<in> set ''$&+,/:;=?@'' then
        (case mode of EncodePath \<Rightarrow> c = CHR ''?'' | EncodeHost \<Rightarrow> True | EncodeFragment \<Rightarrow> False)
      else if mode = EncodeFragment \<and> c \<in> set ''!()*'' then False
      else True)"

fun escape :: "encoding \<Rightarrow> string \<Rightarrow> string" where
  "escape mode [] = []"
| "escape mode (c # s) =
     (if should_escape mode c
      then CHR ''%'' # upper_hex (byte c div 16) # upper_hex (byte c) # escape mode s
      else c # escape mode s)"

fun unescape :: "encoding \<Rightarrow> string \<Rightarrow> string option" where
  "unescape mode [] = Some []"
| "unescape mode (c # s) =
     (if c = CHR ''%'' then
        (case s of
           h # l # t \<Rightarrow>
             (case (unhex h, unhex l) of
                (Some x, Some y) \<Rightarrow>
                  if mode = EncodeHost \<and> x < 8 \<and> \<not> (x = 2 \<and> y = 5) then None
                  else map_option (\<lambda>r. char_of (x * 16 + y) # r) (unescape mode t)
              | _ \<Rightarrow> None)
         | _ \<Rightarrow> None)
      else if mode = EncodeHost \<and> byte c < 128 \<and> should_escape EncodeHost c then None
      else map_option (\<lambda>r. c # r) (unescape mode s))"

section \<open>Scheme, authority, path\<close>

text \<open>\<open>getScheme\<close>: \<open>None\<close> is the error of a missing scheme before a colon.\<close>

fun get_scheme :: "nat \<Rightarrow> string \<Rightarrow> string \<Rightarrow> string \<Rightarrow> (string \<times> string) option" where
  "get_scheme i acc whole [] = Some ([], whole)"
| "get_scheme i acc whole (c # s) =
     (if is_alpha c then get_scheme (Suc i) (acc @ [c]) whole s
      else if is_digit c \<or> c \<in> set ''+-.'' then
        (if i = 0 then Some ([], whole) else get_scheme (Suc i) (acc @ [c]) whole s)
      else if c = CHR '':'' then (if i = 0 then None else Some (acc, s))
      else Some ([], whole))"

definition valid_optional_port :: "string \<Rightarrow> bool" where
  "valid_optional_port p =
     (case p of [] \<Rightarrow> True | c # ds \<Rightarrow> c = CHR '':'' \<and> list_all is_digit ds)"

text \<open>Split before the last occurrence of a byte, which stays with the right part.\<close>

definition last_split :: "char \<Rightarrow> string \<Rightarrow> (string \<times> string) option" where
  "last_split c s =
     (if c \<in> set s
      then (let r = takeWhile (\<lambda>x. x \<noteq> c) (rev s)
            in Some (take (length s - length r - 1) s, drop (length s - length r - 1) s))
      else None)"

definition parse_host :: "string \<Rightarrow> string option" where
  "parse_host host =
     (if has_prefix host ''['' then
        (case last_split (CHR '']'') host of
           None \<Rightarrow> None
         | Some (_, r) \<Rightarrow>
             if valid_optional_port (tl r) then unescape EncodeHost host else None)
      else case last_split (CHR '':'') host of
             Some (_, port) \<Rightarrow>
               if valid_optional_port port then unescape EncodeHost host else None
           | None \<Rightarrow> unescape EncodeHost host)"

definition valid_userinfo_char :: "char \<Rightarrow> bool" where
  "valid_userinfo_char c = (is_alpha c \<or> is_digit c \<or> c \<in> set ''-._:~!$&()*+,;=%@'' \<or> byte c = 39)"

definition parse_authority :: "string \<Rightarrow> (string option \<times> string) option" where
  "parse_authority authority =
     (case last_split (CHR ''@'') authority of
        None \<Rightarrow> map_option (\<lambda>h. (None, h)) (parse_host authority)
      | Some (userinfo, r) \<Rightarrow>
          (case parse_host (tl r) of
             None \<Rightarrow> None
           | Some h \<Rightarrow>
               if list_all valid_userinfo_char userinfo \<and> unescape EncodePath userinfo \<noteq> None
               then Some (Some userinfo, h) else None))"

definition set_path :: "string \<Rightarrow> url \<Rightarrow> url option" where
  "set_path p u =
     (case unescape EncodePath p of
        None \<Rightarrow> None
      | Some path \<Rightarrow>
          Some (u\<lparr>u_path := path, u_raw_path := (if escape EncodePath path = p then [] else p)\<rparr>))"

definition split_query :: "string \<Rightarrow> string \<times> bool \<times> string" where
  "split_query rest =
     (if has_suffix rest ''?'' \<and> count_list rest (CHR ''?'') = 1
      then (butlast rest, True, [])
      else case cut_on (CHR ''?'') rest of (r, q, _) \<Rightarrow> (r, False, q))"

definition parse_hierarchy :: "string \<Rightarrow> url \<Rightarrow> url option" where
  "parse_hierarchy rest u =
     (if \<not> has_prefix rest ''/'' \<and> u_scheme u \<noteq> [] then Some (u\<lparr>u_opaque := rest\<rparr>)
      else if \<not> has_prefix rest ''/'' \<and> CHR '':'' \<in> set (fst (cut_on (CHR ''/'') rest)) then None
      else if (u_scheme u \<noteq> [] \<or> \<not> has_prefix rest ''///'') \<and> has_prefix rest ''//'' then
        (let authority = takeWhile (\<lambda>c. c \<noteq> CHR ''/'') (drop 2 rest);
             path = dropWhile (\<lambda>c. c \<noteq> CHR ''/'') (drop 2 rest)
         in case parse_authority authority of
              None \<Rightarrow> None
            | Some (user, host) \<Rightarrow> set_path path (u\<lparr>u_user := user, u_host := host\<rparr>))
      else set_path rest u)"

definition url_parse :: "string \<Rightarrow> url option" where
  "url_parse raw =
     (case cut_on (CHR ''#'') raw of (front, frag, _) \<Rightarrow>
        if list_ex is_ctl front then None
        else if front = ''*'' then
          map_option (\<lambda>f. empty_url\<lparr>u_path := ''*'', u_fragment := f\<rparr>) (unescape EncodeFragment frag)
        else case get_scheme 0 [] front front of
          None \<Rightarrow> None
        | Some (scheme, rest) \<Rightarrow>
            (case split_query rest of (path, force, query) \<Rightarrow>
               case parse_hierarchy path
                      (empty_url\<lparr>u_scheme := to_lower scheme, u_force_query := force, u_raw_query := query\<rparr>) of
                 None \<Rightarrow> None
               | Some u \<Rightarrow>
                   map_option (\<lambda>f. u\<lparr>u_fragment := f\<rparr>) (unescape EncodeFragment frag)))"

section \<open>Host, port, printing\<close>

definition split_host_port :: "string \<Rightarrow> string \<times> string" where
  "split_host_port hp =
     (let (host, port) =
        (case last_split (CHR '':'') hp of
           Some (h, p) \<Rightarrow> if valid_optional_port p then (h, tl p) else (hp, [])
         | None \<Rightarrow> (hp, []))
      in (if has_prefix host ''['' \<and> has_suffix host '']'' then butlast (tl host) else host, port))"

definition hostname :: "url \<Rightarrow> string" where
  "hostname u = fst (split_host_port (u_host u))"

definition port :: "url \<Rightarrow> string" where
  "port u = snd (split_host_port (u_host u))"

definition join_host_port :: "string \<Rightarrow> string \<Rightarrow> string" where
  "join_host_port h p = (if CHR '':'' \<in> set h then ''['' @ h @ '']:'' @ p else h @ '':'' @ p)"

definition escaped_path :: "url \<Rightarrow> string" where
  "escaped_path u =
     (if u_raw_path u \<noteq> [] \<and> unescape EncodePath (u_raw_path u) = Some (u_path u) then u_raw_path u
      else if u_path u = ''*'' then ''*''
      else escape EncodePath (u_path u))"

definition url_string :: "url \<Rightarrow> string" where
  "url_string u =
     (let scheme = (if u_scheme u \<noteq> [] then u_scheme u @ '':'' else []);
          path = escaped_path u;
          auth = (if (u_scheme u \<noteq> [] \<or> u_host u \<noteq> [] \<or> u_user u \<noteq> None)
                     \<and> (u_host u \<noteq> [] \<or> u_path u \<noteq> [] \<or> u_user u \<noteq> None)
                  then ''//'' @ (case u_user u of None \<Rightarrow> [] | Some i \<Rightarrow> i @ ''@'')
                         @ escape EncodeHost (u_host u)
                  else []);
          slash = (if path \<noteq> [] \<and> \<not> has_prefix path ''/'' \<and> u_host u \<noteq> [] then ''/'' else []);
          main = (if u_opaque u \<noteq> [] then scheme @ u_opaque u else scheme @ auth @ slash @ path)
      in main @ (if u_force_query u \<or> u_raw_query u \<noteq> [] then ''?'' @ u_raw_query u else [])
           @ (if u_fragment u \<noteq> [] then ''#'' @ escape EncodeFragment (u_fragment u) else []))"

section \<open>Lower case\<close>

lemma byte_lower_char: "byte (lower_char c) = (if 65 \<le> byte c \<and> byte c \<le> 90 then byte c + 32 else byte c)"
  by (simp add: lower_char_def byte_char_of)

lemma is_alpha_lower [str_simps]: "is_alpha (lower_char c) = is_alpha c"
  by (auto simp: is_alpha_def byte_lower_char)

lemma lower_char_fix: "\<not> is_alpha c \<Longrightarrow> lower_char c = c"
  by (auto simp: lower_char_def is_alpha_def)

lemma lower_char_eq_iff: "\<not> is_alpha d \<Longrightarrow> lower_char c = d \<longleftrightarrow> c = d"
  by (metis is_alpha_lower lower_char_fix)

lemma not_alpha_separators [simp]: "\<not> is_alpha (CHR ''.'')" "\<not> is_alpha (CHR ''-'')"
  by (simp_all add: is_alpha_def byte_def)

lemma separators_fixed [simp]:
  "lower_char (CHR ''.'') = CHR ''.''" "lower_char (CHR ''-'') = CHR ''-''"
  by (simp_all add: lower_char_fix)

lemma not_digit_separators [simp]: "\<not> is_digit (CHR ''.'')" "\<not> is_digit (CHR ''-'')"
  by (simp_all add: is_digit_def byte_def)

lemma is_digit_lower [str_simps]: "is_digit (lower_char c) = is_digit c"
  by (auto simp: is_digit_def byte_lower_char)

end
