(* ===== verification/Go_Cookie.thy ===== *)
theory Go_Cookie
  imports Go_URL Go_Time "HOL-Library.List_Lexorder" "HOL-Library.Char_ord" "HOL-Library.Product_Lexorder"
begin

text \<open>
  \<^verbatim>\<open>http.Cookie\<close>, its \<^verbatim>\<open>Valid\<close> method, and the in-memory \<^verbatim>\<open>cookiejar.Jar\<close> the sources
  wrap (created by \<^verbatim>\<open>cookiejar.New(nil)\<close>, so without a public-suffix list). Hosts are
  ASCII: the punycode conversion of \<^verbatim>\<open>cookiejar\<close> is the identity on them. The jar's maps
  are lists of entries, newest last, each with the key of the map it lives in.
\<close>

record http_cookie =
  hc_name :: string
  hc_value :: string
  hc_path :: string
  hc_domain :: string
  hc_expires :: gtime
  hc_max_age :: int
  hc_secure :: bool
  hc_http_only :: bool
  hc_same_site :: int

section \<open>Validity\<close>

definition is_token_char :: "char \<Rightarrow> bool" where
  "is_token_char c = (is_alpha c \<or> is_digit c \<or> c \<in> set ''!#$%&*+-.^_`|~'' \<or> byte c = 39)"

definition is_token :: "string \<Rightarrow> bool" where
  "is_token s = (s \<noteq> [] \<and> list_all is_token_char s)"

definition valid_value_byte :: "char \<Rightarrow> bool" where
  "valid_value_byte c = (32 \<le> byte c \<and> byte c < 127 \<and> byte c \<noteq> 34 \<and> byte c \<noteq> 59 \<and> byte c \<noteq> 92)"

definition valid_path_byte :: "char \<Rightarrow> bool" where
  "valid_path_byte c = (32 \<le> byte c \<and> byte c < 127 \<and> byte c \<noteq> 59)"

text \<open>\<open>isCookieDomainName\<close>: the loop carries the previous byte, a letter seen, and the
  length of the current label.\<close>

fun domain_name_loop :: "char \<Rightarrow> bool \<Rightarrow> nat \<Rightarrow> string \<Rightarrow> bool" where
  "domain_name_loop lst ok n [] = (lst \<noteq> CHR ''-'' \<and> n \<le> 63 \<and> ok)"
| "domain_name_loop lst ok n (c # s) =
     (if is_alpha c then domain_name_loop c True (Suc n) s
      else if is_digit c then domain_name_loop c ok (Suc n) s
      else if c = CHR ''-'' then
        (if lst = CHR ''.'' then False else domain_name_loop c ok (Suc n) s)
      else if c = CHR ''.'' then
        (if lst = CHR ''.'' \<or> lst = CHR ''-'' \<or> 63 < n \<or> n = 0 then False
         else domain_name_loop c ok 0 s)
      else False)"

definition is_cookie_domain_name :: "string \<Rightarrow> bool" where
  "is_cookie_domain_name s =
     (if s = [] \<or> 255 < length s then False
      else domain_name_loop (CHR ''.'') False 0 (trim_prefix s ''.''))"

definition is_octet :: "string \<Rightarrow> bool" where
  "is_octet s = (s \<noteq> [] \<and> length s \<le> 3 \<and> list_all is_digit s \<and> nat_of_digits s \<le> 255
     \<and> (length s > 1 \<longrightarrow> hd s \<noteq> CHR ''0''))"

definition is_ipv4 :: "string \<Rightarrow> bool" where
  "is_ipv4 s = (length (split_on (CHR ''.'') s) = 4 \<and> list_all is_octet (split_on (CHR ''.'') s))"

definition valid_cookie_domain :: "string \<Rightarrow> bool" where
  "valid_cookie_domain s = (is_cookie_domain_name s \<or> is_ipv4 s)"

text \<open>The first instant of the year 1601.\<close>

definition first_cookie_expiry :: gtime where
  "first_cookie_expiry = - 11644473600 * second"

definition cookie_valid :: "http_cookie \<Rightarrow> bool" where
  "cookie_valid c =
     (is_token (hc_name c)
      \<and> (is_zero (hc_expires c) \<or> first_cookie_expiry \<le> hc_expires c)
      \<and> list_all valid_value_byte (hc_value c)
      \<and> list_all valid_path_byte (hc_path c)
      \<and> (hc_domain c = [] \<or> valid_cookie_domain (hc_domain c)))"

section \<open>The standard jar\<close>

record jar_entry =
  je_key :: string
  je_name :: string
  je_value :: string
  je_domain :: string
  je_path :: string
  je_secure :: bool
  je_host_only :: bool
  je_persistent :: bool
  je_expires :: gtime
  je_creation :: gtime
  je_seq :: nat

record std_jar =
  sj_entries :: "jar_entry list"
  sj_next_seq :: nat

definition empty_jar :: std_jar where
  "empty_jar = \<lparr>sj_entries = [], sj_next_seq = 0\<rparr>"

definition has_dot_suffix :: "string \<Rightarrow> string \<Rightarrow> bool" where
  "has_dot_suffix s suff = has_suffix s (''.'' @ suff)"

definition is_ip :: "string \<Rightarrow> bool" where
  "is_ip host = (CHR '':'' \<in> set host \<or> CHR ''%'' \<in> set host \<or> is_ipv4 host)"

definition has_port :: "string \<Rightarrow> bool" where
  "has_port host =
     (let colons = count_list host (CHR '':'')
      in colons = 1 \<or> (1 < colons \<and> has_prefix host ''['' \<and> contains host '']:''))"

definition canonical_host :: "string \<Rightarrow> string" where
  "canonical_host host =
     to_lower (trim_suffix (if has_port host then fst (split_host_port host) else host) ''.'')"

definition jar_key :: "string \<Rightarrow> string" where
  "jar_key host =
     (if is_ip host then host
      else case rev (split_on (CHR ''.'') host) of
             l # k # rest \<Rightarrow> if k = [] \<and> rest = [] then host else k @ ''.'' @ l
           | _ \<Rightarrow> host)"

definition default_path :: "string \<Rightarrow> string" where
  "default_path path =
     (if \<not> has_prefix path ''/'' then ''/''
      else case last_split (CHR ''/'') path of
             Some (dir, _) \<Rightarrow> if dir = [] then ''/'' else dir
           | None \<Rightarrow> ''/'')"

definition domain_and_type :: "string \<Rightarrow> string \<Rightarrow> (string \<times> bool) option" where
  "domain_and_type host domain =
     (if domain = [] then Some (host, True)
      else if is_ip host then (if host \<noteq> domain then None else Some (host, True))
      else let d = trim_prefix domain ''.''
           in if d = [] \<or> hd d = CHR ''.'' then None
              else if list_ex (\<lambda>c. 128 \<le> byte c) d then None
              else let d = to_lower d
                   in if last d = CHR ''.'' then None
                      else if host \<noteq> d \<and> \<not> has_dot_suffix host d then None
                      else Some (d, False))"

datatype entry_action = EntryReject | EntryRemove jar_entry | EntryPut jar_entry

definition new_entry :: "http_cookie \<Rightarrow> gtime \<Rightarrow> string \<Rightarrow> string \<Rightarrow> entry_action" where
  "new_entry c now def_path host =
     (case domain_and_type host (hc_domain c) of
        None \<Rightarrow> EntryReject
      | Some (domain, host_only) \<Rightarrow>
          let path = (if has_prefix (hc_path c) ''/'' then hc_path c else def_path);
              e = \<lparr>je_key = jar_key host, je_name = hc_name c, je_value = hc_value c,
                   je_domain = domain, je_path = path, je_secure = hc_secure c,
                   je_host_only = host_only, je_persistent = False, je_expires = zero_time,
                   je_creation = now, je_seq = 0\<rparr>
          in if hc_max_age c < 0 then EntryRemove e
             else if 0 < hc_max_age c then
               EntryPut (e\<lparr>je_expires := now + wrap64 (hc_max_age c * second), je_persistent := True\<rparr>)
             else if is_zero (hc_expires c) then EntryPut e
             else if hc_expires c \<le> now then EntryRemove e
             else EntryPut (e\<lparr>je_expires := hc_expires c, je_persistent := True\<rparr>))"

definition entry_id :: "jar_entry \<Rightarrow> string" where
  "entry_id e = je_domain e @ '';'' @ je_path e @ '';'' @ je_name e"

definition same_slot :: "jar_entry \<Rightarrow> jar_entry \<Rightarrow> bool" where
  "same_slot e f = (je_key e = je_key f \<and> entry_id e = entry_id f)"

definition put_entry :: "jar_entry \<Rightarrow> gtime \<Rightarrow> std_jar \<Rightarrow> std_jar" where
  "put_entry e now j =
     (case filter (same_slot e) (sj_entries j) of
        old # _ \<Rightarrow>
          j\<lparr>sj_entries := filter (\<lambda>f. \<not> same_slot e f) (sj_entries j)
             @ [e\<lparr>je_creation := je_creation old, je_seq := je_seq old\<rparr>]\<rparr>
      | [] \<Rightarrow>
          j\<lparr>sj_entries := sj_entries j @ [e\<lparr>je_creation := now, je_seq := sj_next_seq j\<rparr>],
            sj_next_seq := Suc (sj_next_seq j)\<rparr>)"

definition set_cookie :: "string \<Rightarrow> string \<Rightarrow> gtime \<Rightarrow> http_cookie \<Rightarrow> std_jar \<Rightarrow> std_jar" where
  "set_cookie host def_path now c j =
     (case new_entry c now def_path host of
        EntryReject \<Rightarrow> j
      | EntryRemove e \<Rightarrow> j\<lparr>sj_entries := filter (\<lambda>f. \<not> same_slot e f) (sj_entries j)\<rparr>
      | EntryPut e \<Rightarrow> put_entry e now j)"

definition jar_scheme_ok :: "url \<Rightarrow> bool" where
  "jar_scheme_ok u = (u_scheme u = ''http'' \<or> u_scheme u = ''https'')"

definition jar_set_cookies :: "gtime \<Rightarrow> url \<Rightarrow> http_cookie list \<Rightarrow> std_jar \<Rightarrow> std_jar" where
  "jar_set_cookies now u cs j =
     (if \<not> jar_scheme_ok u then j
      else fold (set_cookie (canonical_host (u_host u)) (default_path (u_path u)) now) cs j)"

definition domain_match :: "jar_entry \<Rightarrow> string \<Rightarrow> bool" where
  "domain_match e host =
     (je_domain e = host \<or> (\<not> je_host_only e \<and> has_dot_suffix host (je_domain e)))"

definition path_match :: "jar_entry \<Rightarrow> string \<Rightarrow> bool" where
  "path_match e p =
     (p = je_path e
      \<or> (has_prefix p (je_path e)
         \<and> (has_suffix (je_path e) ''/'' \<or> has_prefix (drop (length (je_path e)) p) ''/'')))"

definition should_send :: "jar_entry \<Rightarrow> bool \<Rightarrow> string \<Rightarrow> string \<Rightarrow> bool" where
  "should_send e https host p = (domain_match e host \<and> path_match e p \<and> (https \<or> \<not> je_secure e))"

text \<open>What a request to \<open>u\<close> carries: longest path first, then oldest; expired entries skipped.\<close>

definition jar_cookies :: "gtime \<Rightarrow> std_jar \<Rightarrow> url \<Rightarrow> (string \<times> string) list" where
  "jar_cookies now j u =
     (if \<not> jar_scheme_ok u then []
      else let host = canonical_host (u_host u);
               p = (if u_path u = [] then ''/'' else u_path u);
               sel = filter (\<lambda>e. je_key e = jar_key host
                        \<and> (je_persistent e \<longrightarrow> now < je_expires e)
                        \<and> should_send e (u_scheme u = ''https'') host p) (sj_entries j)
           in map (\<lambda>e. (je_name e, je_value e))
                (sort_key (\<lambda>e. (- int (length (je_path e)), je_creation e, je_seq e)) sel))"

section \<open>Facts\<close>

lemma has_dot_suffix_iff: "has_dot_suffix host d \<longleftrightarrow> suffix (''.'' @ d) host"
  by (simp add: has_dot_suffix_def has_suffix_iff)

text \<open>The jar accepts a domain only when the host lies in it.\<close>

lemma domain_and_type_matches:
  "domain_and_type host domain = Some (d, host_only) \<Longrightarrow>
     (host_only \<and> d = host) \<or> (\<not> host_only \<and> (host = d \<or> has_dot_suffix host d))"
  by (auto simp: domain_and_type_def Let_def split: if_splits)

definition entry_scoped :: "string \<Rightarrow> jar_entry \<Rightarrow> bool" where
  "entry_scoped host e = (domain_match e host \<and> je_key e = jar_key host)"

lemma new_entry_scoped:
  assumes "new_entry c now p host = EntryPut e"
  shows "entry_scoped host e"
proof -
  obtain d ho where d: "domain_and_type host (hc_domain c) = Some (d, ho)"
    using assms by (auto simp: new_entry_def split: option.splits)
  then have "je_domain e = d" "je_host_only e = ho" "je_key e = jar_key host"
    using assms by (auto simp: new_entry_def Let_def split: if_splits)
  then show ?thesis
    using domain_and_type_matches [OF d] by (auto simp: entry_scoped_def domain_match_def)
qed

end
