(* ===== verification/Session_Loss.thy ===== *)
theory Session_Loss
  imports Auth_Errors Go_Cookie
begin

text \<open>
  HTTP messages as far as the sources look at them, and the detection of a lost session
  (session.go): a 401, a redirect to a login page, or the 403 that closes an impersonation.
\<close>

section \<open>Messages\<close>

text \<open>The names in \<open>rq_headers\<close> are in the canonical form in which \<^verbatim>\<open>Header.Set\<close> and
  \<^verbatim>\<open>Header.Del\<close> take them, whatever the spelling in the sources: \<^verbatim>\<open>X-CSRFToken\<close> is
  \<^verbatim>\<open>X-Csrftoken\<close> and \<^verbatim>\<open>OTP\<close> is \<^verbatim>\<open>Otp\<close>.\<close>

record http_request =
  rq_method :: string
  rq_url :: string
  rq_headers :: "(string \<times> string) list"
  rq_cookies :: "(string \<times> string) list"
  rq_body :: "string option"

text \<open>\<open>rs_set_cookie\<close> is what \<^verbatim>\<open>Response.Cookies\<close> parses from the \<^verbatim>\<open>Set-Cookie\<close> headers; a
  missing header is the empty string, a nil body is \<open>None\<close>.\<close>

record http_response =
  rs_status :: int
  rs_retry_after :: string
  rs_location :: string
  rs_set_cookie :: "http_cookie list"
  rs_body :: "body option"

text \<open>\<^verbatim>\<open>Header.Set\<close> and \<^verbatim>\<open>Header.Del\<close>, on headers with canonical names.\<close>

definition header_del :: "string \<Rightarrow> (string \<times> string) list \<Rightarrow> (string \<times> string) list" where
  "header_del k hs = filter (\<lambda>(n, v). n \<noteq> k) hs"

definition header_set :: "string \<Rightarrow> string \<Rightarrow> (string \<times> string) list \<Rightarrow> (string \<times> string) list" where
  "header_set k v hs = header_del k hs @ [(k, v)]"

lemma header_del_mem [simp]: "(n, v) \<in> set (header_del k hs) \<longleftrightarrow> n \<noteq> k \<and> (n, v) \<in> set hs"
  by (auto simp: header_del_def)

lemma header_set_mem [simp]:
  "(n, v) \<in> set (header_set k w hs) \<longleftrightarrow> (n = k \<and> v = w) \<or> (n \<noteq> k \<and> (n, v) \<in> set hs)"
  by (auto simp: header_set_def)

section \<open>Detection\<close>

definition is_login_redirect :: "string \<Rightarrow> bool" where
  "is_login_redirect location =
     (if location = [] then False
      else case url_parse location of
             None \<Rightarrow> False
           | Some u \<Rightarrow> list_ex (\<lambda>segment. equal_fold segment ''login'') (split_on (CHR ''/'') (u_path u)))"

definition impersonation_session_closed :: string where
  "impersonation_session_closed = ''impersonation session has been closed''"

definition peek_limit :: nat where "peek_limit = 4096"

text \<open>
  What \<^verbatim>\<open>io.ReadAll(io.LimitReader(body, n))\<close> returns when its error is ignored, and the
  body as it stands afterwards. \<open>multi_reader\<close> puts bytes back in front of a body.
\<close>

definition read_prefix :: "nat \<Rightarrow> body \<Rightarrow> string \<times> body" where
  "read_prefix n b = (take n (content b), b\<lparr>content := drop n (content b)\<rparr>)"

definition multi_reader :: "string \<Rightarrow> body \<Rightarrow> body" where
  "multi_reader pre b = b\<lparr>content := pre @ content b\<rparr>"

text \<open>The verdict, and the response with its peeked body restored.\<close>

definition is_session_loss_for :: "http_response \<Rightarrow> bool \<Rightarrow> bool \<times> http_response" where
  "is_session_loss_for response impersonate =
     (if rs_status response = 401 then (True, response)
      else case (if rs_status response = 403 \<and> impersonate then rs_body response else None) of
        Some b \<Rightarrow>
          (case read_prefix peek_limit b of (pre, rest) \<Rightarrow>
             (contains (to_lower pre) impersonation_session_closed,
              response\<lparr>rs_body := Some (multi_reader pre rest)\<rparr>))
      | None \<Rightarrow>
          if rs_status response < 300 \<or> 399 < rs_status response then (False, response)
          else (is_login_redirect (rs_location response), response))"

definition reason_session_loss :: string where "reason_session_loss = ''session_loss''"
definition reason_login_redirect :: string where "reason_login_redirect = ''login_redirect''"

definition session_loss_reason :: "http_response \<Rightarrow> string" where
  "session_loss_reason response =
     (if 300 \<le> rs_status response \<and> rs_status response \<le> 399 then reason_login_redirect
      else reason_session_loss)"

definition drain_limit :: nat where "drain_limit = 2 ^ 16"

definition drain_body :: "http_response \<Rightarrow> string" where
  "drain_body response =
     (case rs_body response of None \<Rightarrow> [] | Some b \<Rightarrow> fst (read_prefix drain_limit b))"

definition session_loss_error :: "http_request \<Rightarrow> http_response \<Rightarrow> go_error" where
  "session_loss_error request response =
     ApiErr \<lparr>ae_status = rs_status response, ae_body = trim_space (drain_body response),
             ae_method = rq_method request, ae_url = rq_url request\<rparr>"

section \<open>Lemmas\<close>

lemma multi_reader_restores: "multi_reader (fst (read_prefix n b)) (snd (read_prefix n b)) = b"
  by (simp add: read_prefix_def multi_reader_def)

lemma session_loss_keeps_response: "snd (is_session_loss_for response imp) = response"
  by (cases "rs_body response")
     (auto simp: is_session_loss_for_def multi_reader_restores [unfolded read_prefix_def, simplified]
       read_prefix_def multi_reader_def)

lemma session_loss_cases:
  "fst (is_session_loss_for response imp) \<Longrightarrow>
     rs_status response = 401
     \<or> (rs_status response = 403 \<and> imp \<and> rs_body response \<noteq> None)
     \<or> (300 \<le> rs_status response \<and> rs_status response \<le> 399
        \<and> is_login_redirect (rs_location response))"
  by (auto simp: is_session_loss_for_def split: if_splits option.splits prod.splits)

lemma session_loss_success_status:
  "200 \<le> rs_status response \<Longrightarrow> rs_status response \<le> 299 \<Longrightarrow>
     \<not> fst (is_session_loss_for response imp)"
  by (auto dest: session_loss_cases)

lemma session_loss_classified:
  assumes "fst (is_session_loss_for response imp)"
    and "\<not> is_rate_limited (session_loss_error request response)"
  shows "error_kind AuthStageSessionRecovery (session_loss_error request response)
           = AuthKindPersistentSessionLoss"
  using session_loss_cases [OF assms(1)] assms(2)
  by (auto simp: error_kind_def session_loss_error_def err_simps)

lemma split_on_no_sep_single: "sep \<notin> set s \<Longrightarrow> split_on sep s = [s]"
  by (induction s) auto

lemma split_on_append: "split_on sep (s @ sep # t) = split_on sep s @ split_on sep t"
proof (induction s)
  case Nil
  then show ?case by simp
next
  case (Cons c s)
  then show ?case by (cases "split_on sep s") auto
qed

section \<open>Properties\<close>

text \<open>The inspection of a response decides session loss from its status, the peeked text of an
  impersonation's 403 or the Location of a redirect, and hands the response on unchanged: the
  bytes it read are back in front of the body.\<close>

theorem session_loss_verdict:
  "is_session_loss_for response imp =
     (rs_status response = 401
      \<or> (\<exists>b. rs_status response = 403 \<and> imp \<and> rs_body response = Some b
             \<and> contains (to_lower (take 4096 (content b))) impersonation_session_closed)
      \<or> (300 \<le> rs_status response \<and> rs_status response \<le> 399
         \<and> is_login_redirect (rs_location response)),
      response)"
proof (rule prod_eqI)
  show "snd (is_session_loss_for response imp) = snd (v, response)" for v :: bool
    using session_loss_keeps_response by simp
  show "fst (is_session_loss_for response imp) = fst (rs_status response = 401
      \<or> (\<exists>b. rs_status response = 403 \<and> imp \<and> rs_body response = Some b
             \<and> contains (to_lower (take 4096 (content b))) impersonation_session_closed)
      \<or> (300 \<le> rs_status response \<and> rs_status response \<le> 399
         \<and> is_login_redirect (rs_location response)), response)"
    by (cases "rs_body response")
       (auto simp: is_session_loss_for_def read_prefix_def peek_limit_def split: prod.split)
qed

text \<open>A lost session is reported as a persistent session loss with the status the server sent,
  unless the answer is a rate limit; a 2xx is never one.\<close>

theorem session_loss_typed:
  assumes "fst (is_session_loss_for response imp)"
  shows "\<not> (200 \<le> rs_status response \<and> rs_status response \<le> 299)
     \<and> as_api_error (session_loss_error request response) =
         Some \<lparr>ae_status = rs_status response, ae_body = trim_space (drain_body response),
               ae_method = rq_method request, ae_url = rq_url request\<rparr>
     \<and> error_kind AuthStageSessionRecovery (session_loss_error request response) =
         (if is_rate_limited (session_loss_error request response) then AuthKindRateLimited
          else AuthKindPersistentSessionLoss)"
proof -
  let ?e = "session_loss_error request response"
  have "error_kind AuthStageSessionRecovery ?e = AuthKindRateLimited" if "is_rate_limited ?e"
    using that by (simp add: error_kind_def session_loss_error_def err_simps)
  then show ?thesis
    using assms session_loss_success_status session_loss_classified
    by (auto simp: session_loss_error_def err_simps)
qed

definition plain_response :: "int \<Rightarrow> http_response" where
  "plain_response status = \<lparr>rs_status = status, rs_retry_after = [], rs_location = [], rs_set_cookie = [],
     rs_body = Some \<lparr>content = [], read_error = None\<rparr>\<rparr>"

definition plain_request :: http_request where
  "plain_request = \<lparr>rq_method = ''GET'', rq_url = [], rq_headers = [], rq_cookies = [], rq_body = None\<rparr>"

lemma session_loss_typed_witness:
  "error_kind AuthStageSessionRecovery (session_loss_error plain_request (plain_response 401))
     = AuthKindPersistentSessionLoss"
proof -
  have loss: "fst (is_session_loss_for (plain_response 401) False)"
    by (simp add: is_session_loss_for_def plain_response_def)
  have "\<not> is_rate_limited (session_loss_error plain_request (plain_response 401))"
    by (simp add: is_rate_limited_def session_loss_error_def err_simps plain_response_def drain_body_def
        read_prefix_def str_defs)
  with session_loss_typed [OF loss, of plain_request] show ?thesis by simp
qed

end
