(* ===== verification/Auth_Events.thy ===== *)
theory Auth_Events
  imports Session_Loss
begin

text \<open>
  auth.go: the bounded events an optional handler observes. Their reason and outcome are
  strings; the sources only ever use the constants below, the names of the error kinds and
  the reasons of \<^verbatim>\<open>emitAttemptResult\<close>.
\<close>

datatype auth_event_type = AuthEventHandshakeStart | AuthEventHandshakeResult
  | AuthEventRecovery | AuthEventCooldown | AuthEventRateLimited | AuthEventAttemptResult

record auth_event =
  ev_type :: auth_event_type
  ev_stage :: auth_stage
  ev_reason :: string
  ev_outcome :: string
  ev_status :: int
  ev_retry_after :: duration

definition outcome_started :: string where "outcome_started = ''started''"
definition outcome_success :: string where "outcome_success = ''success''"
definition outcome_failure :: string where "outcome_failure = ''failure''"
definition outcome_skipped :: string where "outcome_skipped = ''skipped''"
definition outcome_retrying :: string where "outcome_retrying = ''retrying''"

definition reason_initial :: string where "reason_initial = ''initial''"
definition reason_rate_limit :: string where "reason_rate_limit = ''rate_limit''"
definition reason_cooldown :: string where "reason_cooldown = ''cooldown''"
definition reason_authentication :: string where "reason_authentication = ''authentication''"

definition new_event :: "auth_event_type \<Rightarrow> auth_stage \<Rightarrow> string \<Rightarrow> string \<Rightarrow> auth_event" where
  "new_event ty st reason outcome =
     \<lparr>ev_type = ty, ev_stage = st, ev_reason = reason, ev_outcome = outcome,
      ev_status = 0, ev_retry_after = 0\<rparr>"

text \<open>The reason of an attempt result (session.go): what kind of answer a request got.\<close>

definition attempt_reason :: "go_error \<Rightarrow> string" where
  "attempt_reason err =
     (if is_rate_limited err then reason_rate_limit
      else case as_api_error err of
             None \<Rightarrow> ''transport''
           | Some a \<Rightarrow>
               if ae_status a = 400 \<or> ae_status a = 401 then ''rejected''
               else if ae_status a = 403 then ''permission_denied''
               else if 500 \<le> ae_status a then ''server_error''
               else ''http_error'')"

definition attempt_event :: "auth_stage \<Rightarrow> int \<Rightarrow> go_error option \<Rightarrow> auth_event" where
  "attempt_event stage status err =
     (case err of
        None \<Rightarrow> (new_event AuthEventAttemptResult stage reason_authentication outcome_success)
                 \<lparr>ev_status := status\<rparr>
      | Some e \<Rightarrow> (new_event AuthEventAttemptResult stage (attempt_reason e) outcome_failure)
                 \<lparr>ev_status := status\<rparr>)"

text \<open>Events are of low cardinality: a fixed vocabulary, whatever the server answered.\<close>

definition event_reasons :: "string list" where
  "event_reasons = [reason_initial, reason_rate_limit, reason_cooldown, reason_authentication,
     reason_session_loss, reason_login_redirect, ''transport'', ''rejected'', ''permission_denied'',
     ''server_error'', ''http_error'', ''rejected_credentials'', ''rejected_otp'', ''rate_limited'',
     ''persistent_session_loss'', ''transport_failure'', ''storage_failure'']"

definition event_outcomes :: "string list" where
  "event_outcomes = [outcome_started, outcome_success, outcome_failure, outcome_skipped, outcome_retrying]"

definition event_bounded :: "auth_event \<Rightarrow> bool" where
  "event_bounded e =
     (ev_reason e \<in> set event_reasons \<and> ev_outcome e \<in> set event_outcomes
      \<and> (ev_type e \<noteq> AuthEventAttemptResult \<longrightarrow> ev_status e = 0))"

lemma kind_name_bounded [simp]: "kind_name k \<in> set event_reasons"
  by (cases k) (simp_all add: event_reasons_def)

lemma attempt_reason_bounded: "attempt_reason e \<in> set event_reasons"
  by (simp add: attempt_reason_def event_reasons_def split: option.split)

lemma loss_reason_bounded [simp]: "session_loss_reason r \<in> set event_reasons"
  by (simp add: session_loss_reason_def event_reasons_def)

lemma outcomes_bounded [simp]:
  "outcome_started \<in> set event_outcomes" "outcome_success \<in> set event_outcomes"
  "outcome_failure \<in> set event_outcomes" "outcome_skipped \<in> set event_outcomes"
  "outcome_retrying \<in> set event_outcomes"
  by (simp_all add: event_outcomes_def)

lemma reasons_bounded [simp]:
  "reason_initial \<in> set event_reasons" "reason_rate_limit \<in> set event_reasons"
  "reason_cooldown \<in> set event_reasons" "reason_authentication \<in> set event_reasons"
  by (simp_all add: event_reasons_def)

lemma new_event_bounded [simp]:
  "event_bounded (new_event ty st reason outcome)
     \<longleftrightarrow> reason \<in> set event_reasons \<and> outcome \<in> set event_outcomes"
  by (simp add: event_bounded_def new_event_def)

lemma retry_event_bounded [simp]: "event_bounded (e\<lparr>ev_retry_after := d\<rparr>) \<longleftrightarrow> event_bounded e"
  by (simp add: event_bounded_def)

lemma attempt_event_bounded [simp]: "event_bounded (attempt_event st s e)"
  by (cases e) (simp_all add: attempt_event_def event_bounded_def new_event_def attempt_reason_bounded)

end
