(* ===== verification/Session_Cookie.thy ===== *)
theory Session_Cookie
  imports Go_Cookie Go_Error
begin

text \<open>
  The persisted form of a cookie (session_store.go): \<^verbatim>\<open>SessionCookie\<close>, its construction
  from a received cookie with a bounded local lifetime, its validation, and its
  conversion back for a jar.
\<close>

definition default_session_cookie_ttl :: duration where
  "default_session_cookie_ttl = 30 * 60 * second"

definition max_session_cookie_ttl :: duration where
  "max_session_cookie_ttl = 24 * 60 * 60 * second"

definition max_cookie_age_seconds :: int where
  "max_cookie_age_seconds = (2 ^ 63 - 1) div second"

record session_cookie =
  sc_name :: string
  sc_value :: string
  sc_path :: string
  sc_domain :: string
  sc_host_only :: bool
  sc_expires :: gtime
  sc_max_age :: int
  sc_secure :: bool
  sc_http_only :: bool
  sc_same_site :: int
  sc_local_expiry :: bool

definition to_http_cookie :: "session_cookie \<Rightarrow> http_cookie" where
  "to_http_cookie c =
     \<lparr>hc_name = sc_name c, hc_value = sc_value c, hc_path = sc_path c,
      hc_domain = (if sc_host_only c then [] else sc_domain c),
      hc_expires = sc_expires c, hc_max_age = 0, hc_secure = sc_secure c,
      hc_http_only = sc_http_only c, hc_same_site = sc_same_site c\<rparr>"

definition validate_session_cookie :: "session_cookie \<Rightarrow> gtime \<Rightarrow> go_error option" where
  "validate_session_cookie c now =
     (if sc_name c = [] \<or> list_ex (\<lambda>x. byte x = 13 \<or> byte x = 10 \<or> byte x = 0) (sc_name c)
        then Some (wrap_sentinel ErrSessionCacheCorrupt ''invalid cookie name'')
      else if is_zero (sc_expires c) then Some (Sentinel ErrSessionCookieNoExpiry)
      else if \<not> is_zero now \<and> \<not> now < sc_expires c then Some (Sentinel ErrSessionExpired)
      else if sc_max_age c < 0 \<or> max_cookie_age_seconds < sc_max_age c
        then Some (wrap_sentinel ErrSessionCacheCorrupt ''invalid cookie lifetime'')
      else if \<not> cookie_valid (to_http_cookie c)
        then Some (wrap_sentinel ErrSessionCacheCorrupt ''invalid cookie attributes'')
      else None)"

text \<open>\<open>wall\<close> is what \<^verbatim>\<open>time.Now()\<close> returns, read only when \<open>now\<close> is the zero time.\<close>

definition new_session_cookie ::
  "gtime \<Rightarrow> http_cookie \<Rightarrow> gtime \<Rightarrow> duration \<Rightarrow> go_error + session_cookie" where
  "new_session_cookie wall cookie now ttl =
     (let now = (if is_zero now then wall else now);
          no_expiry = (is_zero (hc_expires cookie) \<and> hc_max_age cookie \<le> 0)
      in if 0 < hc_max_age cookie \<and> max_cookie_age_seconds < hc_max_age cookie
         then Inl (Sentinel ErrSessionCookieNoExpiry)
         else if no_expiry \<and> (ttl \<le> 0 \<or> max_session_cookie_ttl < ttl)
         then Inl (Sentinel ErrSessionCookieNoExpiry)
         else
           let expires =
                 (if 0 < hc_max_age cookie then now + wrap64 (hc_max_age cookie * second)
                  else if is_zero (hc_expires cookie) then now + ttl
                  else hc_expires cookie);
               stored =
                 \<lparr>sc_name = hc_name cookie, sc_value = hc_value cookie, sc_path = hc_path cookie,
                  sc_domain = hc_domain cookie, sc_host_only = False, sc_expires = expires,
                  sc_max_age = hc_max_age cookie, sc_secure = hc_secure cookie,
                  sc_http_only = hc_http_only cookie, sc_same_site = hc_same_site cookie,
                  sc_local_expiry = no_expiry\<rparr>
           in case validate_session_cookie stored now of
                Some e \<Rightarrow> Inl e
              | None \<Rightarrow> Inr stored)"

text \<open>\<open>NewSessionCookie\<close>, which invents no expiry.\<close>

definition plain_session_cookie :: "gtime \<Rightarrow> http_cookie \<Rightarrow> gtime \<Rightarrow> go_error + session_cookie" where
  "plain_session_cookie wall cookie now = new_session_cookie wall cookie now 0"

section \<open>Facts\<close>

definition cookie_well_formed :: "session_cookie \<Rightarrow> bool" where
  "cookie_well_formed c =
     (sc_name c \<noteq> [] \<and> list_all (\<lambda>x. byte x \<noteq> 13 \<and> byte x \<noteq> 10 \<and> byte x \<noteq> 0) (sc_name c)
      \<and> \<not> is_zero (sc_expires c) \<and> 0 \<le> sc_max_age c \<and> sc_max_age c \<le> max_cookie_age_seconds
      \<and> cookie_valid (to_http_cookie c))"

text \<open>Validation is well-formedness, which no clock changes, and a live expiry.\<close>

lemma validate_None_iff:
  "validate_session_cookie c now = None \<longleftrightarrow>
     cookie_well_formed c \<and> (is_zero now \<or> now < sc_expires c)"
proof -
  have "\<not> list_ex (\<lambda>x. byte x = 13 \<or> byte x = 10 \<or> byte x = 0) (sc_name c) \<longleftrightarrow>
        list_all (\<lambda>x. byte x \<noteq> 13 \<and> byte x \<noteq> 10 \<and> byte x \<noteq> 0) (sc_name c)"
    by (auto simp: list_all_iff list_ex_iff)
  then show ?thesis
    by (auto simp: validate_session_cookie_def cookie_well_formed_def)
qed

text \<open>Every failure is one of the three documented sentinels.\<close>

lemma validate_Some_sentinel:
  "validate_session_cookie c now = Some e \<Longrightarrow>
     errors_is e ErrSessionCacheCorrupt \<or> errors_is e ErrSessionCookieNoExpiry
     \<or> errors_is e ErrSessionExpired"
  by (auto simp: validate_session_cookie_def err_simps split: if_splits)

lemma validate_expired_only_by_time:
  "validate_session_cookie c now = Some e \<Longrightarrow> errors_is e ErrSessionExpired \<Longrightarrow>
     \<not> is_zero now \<and> sc_expires c \<le> now"
  by (auto simp: validate_session_cookie_def err_simps split: if_splits)

lemma new_session_cookie_valid:
  "new_session_cookie wall c now ttl = Inr s \<Longrightarrow>
     validate_session_cookie s (if is_zero now then wall else now) = None"
  by (auto simp: new_session_cookie_def Let_def split: if_splits option.splits)

lemma max_age_in_range:
  "0 < m \<Longrightarrow> m \<le> max_cookie_age_seconds \<Longrightarrow> wrap64 (m * second) = m * second"
  by (simp add: max_cookie_age_seconds_def second_def wrap64_id)

lemma new_session_cookie_fields:
  "new_session_cookie wall c now ttl = Inr s \<Longrightarrow> \<not> is_zero now \<Longrightarrow>
     sc_name s = hc_name c \<and> sc_value s = hc_value c \<and> sc_path s = hc_path c
     \<and> sc_domain s = hc_domain c \<and> \<not> sc_host_only s
     \<and> sc_expires s = (if 0 < hc_max_age c then now + hc_max_age c * second
                       else if is_zero (hc_expires c) then now + ttl else hc_expires c)
     \<and> (sc_local_expiry s \<longleftrightarrow> is_zero (hc_expires c) \<and> hc_max_age c \<le> 0)
     \<and> (sc_local_expiry s \<longrightarrow> 0 < ttl \<and> ttl \<le> max_session_cookie_ttl)"
  by (auto simp: new_session_cookie_def Let_def max_age_in_range not_less
      split: if_splits option.splits)

lemma plain_session_cookie_server_expiry:
  "plain_session_cookie wall c now = Inr s \<Longrightarrow>
     \<not> sc_local_expiry s \<and> (0 < hc_max_age c \<or> \<not> is_zero (hc_expires c))"
  by (auto simp: plain_session_cookie_def new_session_cookie_def Let_def split: if_splits option.splits)

section \<open>Properties\<close>

text \<open>A cookie made persistent is valid and carries a bounded expiry: the server's, or, when the
  server set none, a local one that lies at most a day ahead.\<close>

theorem new_session_cookie_bounded:
  assumes "new_session_cookie wall c now ttl = Inr s" and "\<not> is_zero now"
  shows "validate_session_cookie s now = None \<and> now < sc_expires s
     \<and> to_http_cookie s = c\<lparr>hc_expires := sc_expires s, hc_max_age := 0\<rparr>
     \<and> (sc_local_expiry s \<longleftrightarrow> is_zero (hc_expires c) \<and> hc_max_age c \<le> 0)
     \<and> (sc_local_expiry s \<longrightarrow> sc_expires s = now + ttl \<and> sc_expires s \<le> now + max_session_cookie_ttl)"
proof -
  have "validate_session_cookie s now = None"
    using new_session_cookie_valid [OF assms(1)] assms(2) by simp
  moreover from this have "now < sc_expires s" using assms(2) by (simp add: validate_None_iff)
  moreover have "to_http_cookie s = c\<lparr>hc_expires := sc_expires s, hc_max_age := 0\<rparr>"
    using assms(1) by (auto simp: new_session_cookie_def to_http_cookie_def Let_def split: if_splits option.splits)
  ultimately show ?thesis
    using new_session_cookie_fields [OF assms] by auto
qed

definition sample_cookie :: http_cookie where
  "sample_cookie = \<lparr>hc_name = ''sessionid'', hc_value = ''abc'', hc_path = ''/'', hc_domain = [],
     hc_expires = zero_time, hc_max_age = 0, hc_secure = True, hc_http_only = True, hc_same_site = 0\<rparr>"

lemma new_session_cookie_bounded_witness:
  "\<exists>s. new_session_cookie 0 sample_cookie 5 (60 * second) = Inr s \<and> sc_expires s \<le> 5 + max_session_cookie_ttl"
proof -
  have "is_ok (new_session_cookie 0 sample_cookie 5 (60 * second))" by code_simp
  then obtain s where s: "new_session_cookie 0 sample_cookie 5 (60 * second) = Inr s" by (auto simp: is_ok_iff)
  from new_session_cookie_bounded [OF this] show ?thesis
    using s by (auto simp: sample_cookie_def is_zero_def zero_time_def second_def)
qed

end
