(* ===== verification/Tracked_Jar.thy ===== *)
theory Tracked_Jar
  imports Session_Cookie "HOL-Library.AList" "HOL-Library.Multiset"
begin

text \<open>
  tracked_cookie_jar.go: a cookie jar that also remembers the attributes a request never
  shows, so that a session can be written to disk and restored. The Go map of tracked
  cookies is an association list with distinct keys; iterating over it is iterating over
  the list, in an order Go leaves open, which is why the snapshot is sorted.
\<close>

type_synonym tracked_key = "string \<times> string \<times> string"

definition tk_of :: "string \<Rightarrow> string \<Rightarrow> string \<Rightarrow> tracked_key" where
  "tk_of name domain path = (name, domain, path)"

record tracked_jar =
  tj_inner :: "std_jar option"
  tj_ttl :: duration
  tj_cookies :: "(tracked_key \<times> session_cookie) list"

definition new_tracked_cookie_jar_with_ttl ::
  "std_jar option \<Rightarrow> duration \<Rightarrow> go_error + tracked_jar" where
  "new_tracked_cookie_jar_with_ttl jar ttl =
     (if ttl \<le> 0 \<or> max_session_cookie_ttl < ttl
      then Inl (Plain ''cloudsigma: tracked cookie TTL must be within (0, 24h]'')
      else Inr \<lparr>tj_inner = Some (case jar of None \<Rightarrow> empty_jar | Some j \<Rightarrow> j),
                tj_ttl = ttl, tj_cookies = []\<rparr>)"

definition new_tracked_cookie_jar :: "std_jar option \<Rightarrow> tracked_jar" where
  "new_tracked_cookie_jar jar =
     (case new_tracked_cookie_jar_with_ttl jar default_session_cookie_ttl of
        Inr j \<Rightarrow> j
      | Inl _ \<Rightarrow> \<lparr>tj_inner = jar, tj_ttl = default_session_cookie_ttl, tj_cookies = []\<rparr>)"

definition cookie_domain :: "url option \<Rightarrow> string \<Rightarrow> string" where
  "cookie_domain u domain =
     (if domain \<noteq> [] then trim_prefix (to_lower domain) ''.''
      else case u of None \<Rightarrow> [] | Some u \<Rightarrow> to_lower (hostname u))"

definition default_cookie_path :: "url option \<Rightarrow> string" where
  "default_cookie_path u =
     (case u of
        None \<Rightarrow> ''/''
      | Some u \<Rightarrow>
          if \<not> has_prefix (u_path u) ''/'' then ''/''
          else case last_split (CHR ''/'') (u_path u) of
                 Some (dir, _) \<Rightarrow> if dir = [] then ''/'' else dir
               | None \<Rightarrow> ''/'')"

section \<open>SetCookies\<close>

datatype tracked_action = TrackSkip | TrackRemove tracked_key | TrackPut tracked_key session_cookie

definition track_action ::
  "gtime \<Rightarrow> gtime \<Rightarrow> duration \<Rightarrow> url \<Rightarrow> http_cookie \<Rightarrow> tracked_action" where
  "track_action wall now ttl u c =
     (let domain = cookie_domain (Some u) (hc_domain c);
          path = (if hc_path c = [] then default_cookie_path (Some u) else hc_path c);
          key = tk_of (hc_name c) domain path
      in if hc_max_age c < 0
            \<or> (hc_max_age c \<le> 0 \<and> \<not> is_zero (hc_expires c) \<and> \<not> now < hc_expires c)
         then TrackRemove key
         else case new_session_cookie wall c now ttl of
                Inl _ \<Rightarrow> TrackSkip
              | Inr stored \<Rightarrow>
                  TrackPut key (stored\<lparr>sc_domain := domain, sc_host_only := (hc_domain c = []),
                                      sc_path := path\<rparr>))"

text \<open>All removals of a response are applied before all of its insertions.\<close>

fun apply_removes :: "tracked_action list \<Rightarrow> (tracked_key \<times> session_cookie) list \<Rightarrow>
    (tracked_key \<times> session_cookie) list" where
  "apply_removes [] m = m"
| "apply_removes (TrackRemove k # as) m = apply_removes as (AList.delete k m)"
| "apply_removes (_ # as) m = apply_removes as m"

fun apply_puts :: "tracked_action list \<Rightarrow> (tracked_key \<times> session_cookie) list \<Rightarrow>
    (tracked_key \<times> session_cookie) list" where
  "apply_puts [] m = m"
| "apply_puts (TrackPut k c # as) m = apply_puts as (AList.update k c m)"
| "apply_puts (_ # as) m = apply_puts as m"

definition tracked_set_cookies ::
  "gtime \<Rightarrow> gtime \<Rightarrow> url \<Rightarrow> http_cookie list \<Rightarrow> tracked_jar \<Rightarrow> tracked_jar" where
  "tracked_set_cookies wall now u cs j =
     (case tj_inner j of
        None \<Rightarrow> j
      | Some inner \<Rightarrow>
          let actions = map (track_action wall now (tj_ttl j) u) cs
          in j\<lparr>tj_cookies := apply_puts actions (apply_removes actions (tj_cookies j)),
               tj_inner := Some (jar_set_cookies wall u cs inner)\<rparr>)"

definition tracked_cookies :: "gtime \<Rightarrow> tracked_jar \<Rightarrow> url \<Rightarrow> (string \<times> string) list" where
  "tracked_cookies wall j u =
     (case tj_inner j of None \<Rightarrow> [] | Some inner \<Rightarrow> jar_cookies wall inner u)"

section \<open>PersistentCookies\<close>

definition cookie_order :: "session_cookie \<Rightarrow> string \<times> string \<times> string" where
  "cookie_order c = (sc_domain c, sc_path c, sc_name c)"

text \<open>The loop over the map: expired cookies are dropped, the first invalid one is an error.\<close>

fun collect_live :: "gtime \<Rightarrow> (tracked_key \<times> session_cookie) list \<Rightarrow>
    (go_error + session_cookie list) \<times> (tracked_key \<times> session_cookie) list" where
  "collect_live now [] = (Inr [], [])"
| "collect_live now ((k, c) # m) =
     (if \<not> now < sc_expires c then collect_live now m
      else case validate_session_cookie c now of
             Some e \<Rightarrow> (Inl e, (k, c) # m)
           | None \<Rightarrow>
               (case collect_live now m of
                  (Inl e, m') \<Rightarrow> (Inl e, (k, c) # m')
                | (Inr cs, m') \<Rightarrow> (Inr (c # cs), (k, c) # m')))"

definition persistent_cookies ::
  "gtime \<Rightarrow> gtime \<Rightarrow> tracked_jar \<Rightarrow> (go_error + session_cookie list) \<times> tracked_jar" where
  "persistent_cookies wall now j =
     (let now = (if is_zero now then wall else now)
      in case collect_live now (tj_cookies j) of
           (Inl e, m) \<Rightarrow> (Inl e, j\<lparr>tj_cookies := m\<rparr>)
         | (Inr cs, m) \<Rightarrow> (Inr (sort_key cookie_order cs), j\<lparr>tj_cookies := m\<rparr>))"

section \<open>Restore\<close>

definition restore_domain :: "session_cookie \<Rightarrow> string" where
  "restore_domain c = trim_prefix (to_lower (sc_domain c)) ''.''"

definition restore_path :: "session_cookie \<Rightarrow> string" where
  "restore_path c = (if sc_path c = [] then ''/'' else sc_path c)"

definition restore_key :: "session_cookie \<Rightarrow> tracked_key" where
  "restore_key c = tk_of (sc_name c) (restore_domain c) (restore_path c)"

fun check_restored :: "gtime \<Rightarrow> session_cookie list \<Rightarrow> go_error + session_cookie list" where
  "check_restored now [] = Inr []"
| "check_restored now (c # cs) =
     (case validate_session_cookie c now of
        Some e \<Rightarrow> Inl e
      | None \<Rightarrow>
          if restore_domain c = [] then Inl (Plain ''cloudsigma: persisted cookie has no domain'')
          else (case check_restored now cs of
                  Inl e \<Rightarrow> Inl e
                | Inr rs \<Rightarrow> Inr (c\<lparr>sc_path := restore_path c\<rparr> # rs)))"

definition restore_url :: "session_cookie \<Rightarrow> url" where
  "restore_url c = empty_url\<lparr>u_scheme := ''https'', u_host := restore_domain c, u_path := restore_path c\<rparr>"

definition restore_inner :: "gtime \<Rightarrow> session_cookie \<Rightarrow> std_jar \<Rightarrow> std_jar" where
  "restore_inner wall c j = jar_set_cookies wall (restore_url c) [to_http_cookie c] j"

definition tracked_restore ::
  "gtime \<Rightarrow> gtime \<Rightarrow> session_cookie list \<Rightarrow> tracked_jar \<Rightarrow> go_error + tracked_jar" where
  "tracked_restore wall now cs j =
     (case tj_inner j of
        None \<Rightarrow> Inl (Plain ''cloudsigma: nil tracked cookie jar'')
      | Some inner \<Rightarrow>
          (case check_restored now cs of
             Inl e \<Rightarrow> Inl e
           | Inr rs \<Rightarrow>
               Inr (j\<lparr>tj_cookies := fold (\<lambda>c. AList.update (restore_key c) c) rs (tj_cookies j),
                      tj_inner := Some (fold (restore_inner wall) rs inner)\<rparr>)))"

text \<open>The first \<open>csrftoken\<close> cookie a request to \<open>u\<close> would carry (session.go).\<close>

definition csrf :: "gtime \<Rightarrow> tracked_jar \<Rightarrow> url \<Rightarrow> string" where
  "csrf wall j u =
     (case filter (\<lambda>(n, v). n = ''csrftoken'') (tracked_cookies wall j u) of
        [] \<Rightarrow> [] | (n, v) # _ \<Rightarrow> v)"

section \<open>The invariant of the tracked map\<close>

definition entry_ok :: "tracked_key \<times> session_cookie \<Rightarrow> bool" where
  "entry_ok kc = (case kc of (k, c) \<Rightarrow>
     k = restore_key c \<and> sc_path c \<noteq> [] \<and> restore_domain c \<noteq> [] \<and> cookie_well_formed c)"

definition tracked_ok :: "tracked_jar \<Rightarrow> bool" where
  "tracked_ok j = (distinct (map fst (tj_cookies j)) \<and> list_all entry_ok (tj_cookies j))"

text \<open>The URLs the client sends requests to: a host name and a printable path.\<close>

definition url_ok :: "url \<Rightarrow> bool" where
  "url_ok u = (hostname u \<noteq> [] \<and> \<not> has_prefix (hostname u) ''.'' \<and> list_all valid_path_byte (u_path u))"

lemma list_all_delete: "list_all P m \<Longrightarrow> list_all P (AList.delete k m)"
  by (induction m) (auto simp: AList.delete_eq)

lemma list_all_update: "list_all P m \<Longrightarrow> P (k, v) \<Longrightarrow> list_all P (AList.update k v m)"
  by (induction m) auto

lemma distinct_apply_removes:
  "distinct (map fst m) \<Longrightarrow> distinct (map fst (apply_removes as m))"
  by (induction as m rule: apply_removes.induct) (auto simp: distinct_delete)

lemma distinct_apply_puts:
  "distinct (map fst m) \<Longrightarrow> distinct (map fst (apply_puts as m))"
  by (induction as m rule: apply_puts.induct) (auto simp: distinct_update)

lemma list_all_apply_removes: "list_all P m \<Longrightarrow> list_all P (apply_removes as m)"
  by (induction as m rule: apply_removes.induct) (auto simp: list_all_delete)

lemma list_all_apply_puts:
  "list_all P m \<Longrightarrow> (\<And>k c. TrackPut k c \<in> set as \<Longrightarrow> P (k, c)) \<Longrightarrow> list_all P (apply_puts as m)"
  by (induction as m rule: apply_puts.induct) (auto simp: list_all_update)

subsection \<open>Lower-casing and trimming keep a domain valid\<close>

lemma domain_name_loop_lower:
  "domain_name_loop (lower_char l) ok n (to_lower s) = domain_name_loop l ok n s"
proof (induction s arbitrary: l ok n)
  case Nil
  then show ?case by (simp add: to_lower_def lower_char_eq_iff)
next
  case (Cons c s)
  then have IH: "\<And>ok n. domain_name_loop (lower_char c) ok n (map lower_char s) = domain_name_loop c ok n s"
    by (simp add: to_lower_def)
  consider "is_alpha c" | "\<not> is_alpha c" "is_digit c" | "c = CHR ''-''" | "c = CHR ''.''"
    | "\<not> is_alpha c" "\<not> is_digit c" "c \<noteq> CHR ''-''" "c \<noteq> CHR ''.''" by blast
  then show ?case
    by cases (simp_all add: to_lower_def str_simps lower_char_eq_iff IH, use IH in simp_all)
qed

lemma has_prefix_dot: "has_prefix s ''.'' \<longleftrightarrow> s \<noteq> [] \<and> hd s = CHR ''.''"
  by (cases s) (auto simp: has_prefix_def)

lemma trim_dot_lower: "trim_prefix (to_lower s) ''.'' = to_lower (trim_prefix s ''.'')"
  by (cases s) (auto simp: trim_prefix_def has_prefix_dot to_lower_def lower_char_eq_iff)

lemma domain_name_loop_no_dot:
  "domain_name_loop (CHR ''.'') ok n s \<Longrightarrow> \<not> has_prefix s ''.''"
  by (cases s) (auto simp: has_prefix_dot split: if_splits)

lemma trim_prefix_no: "\<not> has_prefix s p \<Longrightarrow> trim_prefix s p = s"
  by (simp add: trim_prefix_def)

lemma length_trim_prefix: "length (trim_prefix s p) \<le> length s"
  by (simp add: trim_prefix_def)

lemma domain_name_normal:
  assumes "is_cookie_domain_name s"
  defines "d \<equiv> trim_prefix (to_lower s) ''.''"
  shows "is_cookie_domain_name d \<and> \<not> has_prefix d ''.'' \<and> d \<noteq> []"
proof -
  have loop: "domain_name_loop (CHR ''.'') False 0 (trim_prefix s ''.'')" and len: "length s \<le> 255"
    using assms by (auto simp: is_cookie_domain_name_def split: if_splits)
  have d: "d = to_lower (trim_prefix s ''.'')" by (simp add: d_def trim_dot_lower)
  have loop_d: "domain_name_loop (CHR ''.'') False 0 d"
    using loop domain_name_loop_lower [of "CHR ''.''" False 0 "trim_prefix s ''.''"]
    by (simp add: d lower_char_fix)
  then have "d \<noteq> []" by auto
  moreover have nodot: "\<not> has_prefix d ''.''" using loop_d by (rule domain_name_loop_no_dot)
  moreover have "length d \<le> 255"
    using len length_trim_prefix [of s "''.''"] by (simp add: d to_lower_def)
  ultimately show ?thesis
    using loop_d by (simp add: is_cookie_domain_name_def trim_prefix_no)
qed

lemma split_on_hd: "split_on sep (sep # s) = [] # split_on sep s"
  by simp

lemma is_ipv4_digits: "is_ipv4 s \<Longrightarrow> c \<in> set s \<Longrightarrow> is_digit c \<or> c = CHR ''.''"
proof -
  assume ip: "is_ipv4 s" and c: "c \<in> set s"
  have "c = CHR ''.'' \<or> (\<exists>p \<in> set (split_on (CHR ''.'') s). c \<in> set p)"
    using c by (induction s) (auto split: list.splits if_splits)
  then show ?thesis using ip by (auto simp: is_ipv4_def is_octet_def list_all_iff)
qed

lemma is_ipv4_no_dot: "is_ipv4 s \<Longrightarrow> \<not> has_prefix s ''.'' \<and> s \<noteq> []"
  by (cases s) (auto simp: is_ipv4_def is_octet_def has_prefix_dot)

lemma digit_not_alpha: "is_digit c \<Longrightarrow> \<not> is_alpha c"
  by (auto simp: is_digit_def is_alpha_def)

lemma is_ipv4_lower: "is_ipv4 s \<Longrightarrow> to_lower s = s"
proof -
  assume ip: "is_ipv4 s"
  show ?thesis unfolding to_lower_def
  proof (rule map_idI)
    fix c assume "c \<in> set s"
    then have "is_digit c \<or> c = CHR ''.''" by (rule is_ipv4_digits [OF ip])
    then have "\<not> is_alpha c" by (auto dest: digit_not_alpha)
    then show "lower_char c = c" by (rule lower_char_fix)
  qed
qed

lemma is_ipv4_normal: "is_ipv4 s \<Longrightarrow> trim_prefix (to_lower s) ''.'' = s"
  by (simp add: is_ipv4_lower is_ipv4_no_dot trim_prefix_no)

lemma valid_domain_normal:
  assumes "valid_cookie_domain s"
  defines "d \<equiv> trim_prefix (to_lower s) ''.''"
  shows "valid_cookie_domain d \<and> \<not> has_prefix d ''.'' \<and> d \<noteq> [] \<and> to_lower d = d"
proof (cases "is_ipv4 s")
  case True
  then have "d = s" by (simp add: d_def is_ipv4_normal)
  then show ?thesis using True by (simp add: valid_cookie_domain_def is_ipv4_no_dot is_ipv4_lower)
next
  case False
  then have "is_cookie_domain_name s" using assms by (simp add: valid_cookie_domain_def)
  from domain_name_normal [OF this] show ?thesis
    by (simp add: d_def valid_cookie_domain_def trim_dot_lower to_lower_idem)
qed

subsection \<open>Every operation keeps the invariant\<close>

lemma last_split_SomeD: "last_split c s = Some (a, b) \<Longrightarrow> s = a @ b \<and> prefix [c] b"
proof -
  assume h: "last_split c s = Some (a, b)"
  let ?r = "takeWhile (\<lambda>x. x \<noteq> c) (rev s)"
  from h have c: "c \<in> set s" by (simp add: last_split_def split: if_splits)
  then have "dropWhile (\<lambda>x. x \<noteq> c) (rev s) \<noteq> []"
    by (auto simp: dropWhile_eq_Nil_conv)
  then obtain t where t: "dropWhile (\<lambda>x. x \<noteq> c) (rev s) = c # t"
    by (metis (mono_tags, lifting) hd_dropWhile list.collapse)
  have "rev s = ?r @ c # t" by (metis t takeWhile_dropWhile_id)
  then have s: "s = rev t @ c # rev ?r"
    by (metis append.assoc append_Cons append_Nil rev.simps(2) rev_append rev_rev_ident)
  have "length s - length ?r - 1 = length t" using arg_cong [OF s, of length] by simp
  then have "a = take (length t) s" "b = drop (length t) s"
    using h c by (simp_all add: last_split_def Let_def)
  then have "a = rev t" "b = c # rev ?r" using s by (metis append_eq_conv_conj length_rev)+
  then show ?thesis using s by simp
qed

lemma default_cookie_path_ok:
  "list_all valid_path_byte (u_path u) \<Longrightarrow>
     list_all valid_path_byte (default_cookie_path (Some u)) \<and> default_cookie_path (Some u) \<noteq> []"
proof -
  assume ok: "list_all valid_path_byte (u_path u)"
  have "list_all valid_path_byte ''/''" by (simp add: valid_path_byte_def byte_def)
  moreover have "list_all valid_path_byte d" if "last_split (CHR ''/'') (u_path u) = Some (d, b)" for d b
    using last_split_SomeD [OF that] ok by simp
  ultimately show ?thesis
    by (auto simp: default_cookie_path_def split: option.splits)
qed

lemma has_prefix_dot_lower: "has_prefix (to_lower s) ''.'' = has_prefix s ''.''"
  by (cases s) (auto simp: has_prefix_dot to_lower_def lower_char_eq_iff)

lemma cookie_domain_ok:
  assumes "url_ok u" and "hc_domain c = [] \<or> valid_cookie_domain (hc_domain c)"
  defines "d \<equiv> cookie_domain (Some u) (hc_domain c)"
  shows "d \<noteq> [] \<and> trim_prefix (to_lower d) ''.'' = d \<and> (hc_domain c \<noteq> [] \<longrightarrow> valid_cookie_domain d)"
proof (cases "hc_domain c = []")
  case True
  then have "d = to_lower (hostname u)" by (simp add: d_def cookie_domain_def)
  then show ?thesis using True assms(1)
    by (simp add: url_ok_def to_lower_idem to_lower_eq_Nil trim_prefix_no has_prefix_dot_lower)
next
  case False
  then have "valid_cookie_domain (hc_domain c)" using assms(2) by simp
  from valid_domain_normal [OF this] False show ?thesis
    by (simp add: d_def cookie_domain_def trim_prefix_no)
qed

lemma track_put_ok:
  assumes "url_ok u" and "track_action wall now ttl u c = TrackPut k s"
  shows "entry_ok (k, s)"
proof -
  let ?d = "cookie_domain (Some u) (hc_domain c)"
  let ?p = "if hc_path c = [] then default_cookie_path (Some u) else hc_path c"
  obtain st where st: "new_session_cookie wall c now ttl = Inr st"
    and k: "k = tk_of (hc_name c) ?d ?p"
    and s: "s = st\<lparr>sc_domain := ?d, sc_host_only := (hc_domain c = []), sc_path := ?p\<rparr>"
    using assms(2) by (auto simp: track_action_def Let_def split: if_splits sum.splits)
  have wf: "cookie_well_formed st"
    using new_session_cookie_valid [OF st] by (simp add: validate_None_iff)
  have f: "sc_name st = hc_name c" "sc_path st = hc_path c" "sc_domain st = hc_domain c" "\<not> sc_host_only st"
    using st by (auto simp: new_session_cookie_def Let_def split: if_splits option.splits)
  have cv: "cookie_valid (to_http_cookie st)" using wf by (simp add: cookie_well_formed_def)
  then have dv: "hc_domain c = [] \<or> valid_cookie_domain (hc_domain c)"
    and pv: "list_all valid_path_byte (hc_path c)"
    using f by (auto simp: cookie_valid_def to_http_cookie_def)
  note d = cookie_domain_ok [OF assms(1) dv]
  have p: "list_all valid_path_byte ?p \<and> ?p \<noteq> []"
    using pv default_cookie_path_ok [of u] assms(1) by (auto simp: url_ok_def)
  have "cookie_valid (to_http_cookie s)"
    using cv d p by (auto simp: s cookie_valid_def to_http_cookie_def)
  then have "cookie_well_formed s" using wf by (simp add: s cookie_well_formed_def)
  moreover have "restore_domain s = ?d" using d by (simp add: s restore_domain_def)
  moreover have "restore_path s = ?p" "sc_path s = ?p" using p by (simp_all add: s restore_path_def)
  ultimately show ?thesis
    using d p f by (simp add: entry_ok_def k restore_key_def s)
qed

lemma tracked_ok_set_cookies:
  assumes "tracked_ok j" and "url_ok u"
  shows "tracked_ok (tracked_set_cookies wall now u cs j)"
proof (cases "tj_inner j")
  case None
  then show ?thesis using assms by (simp add: tracked_set_cookies_def)
next
  case (Some inner)
  let ?as = "map (track_action wall now (tj_ttl j) u) cs"
  have put: "entry_ok (k, c)" if "TrackPut k c \<in> set ?as" for k c
    using that track_put_ok [OF assms(2)] by (metis (no_types, lifting) ex_map_conv)
  have "list_all entry_ok (apply_puts ?as (apply_removes ?as (tj_cookies j)))"
  proof (rule list_all_apply_puts)
    show "list_all entry_ok (apply_removes ?as (tj_cookies j))"
      using assms(1) by (simp add: tracked_ok_def list_all_apply_removes)
  qed (rule put)
  then show ?thesis
    using assms(1) Some
    by (simp add: tracked_set_cookies_def tracked_ok_def Let_def distinct_apply_puts
        distinct_apply_removes)
qed

lemma check_restored_ok:
  "check_restored now cs = Inr rs \<Longrightarrow>
     rs = map (\<lambda>c. c\<lparr>sc_path := restore_path c\<rparr>) cs
     \<and> list_all (\<lambda>c. validate_session_cookie c now = None \<and> restore_domain c \<noteq> []) cs"
  by (induction cs arbitrary: rs) (auto split: option.splits if_splits sum.splits)

lemma check_restored_Inr_iff:
  "check_restored now cs = Inr (map (\<lambda>c. c\<lparr>sc_path := restore_path c\<rparr>) cs) \<longleftrightarrow>
     list_all (\<lambda>c. validate_session_cookie c now = None \<and> restore_domain c \<noteq> []) cs"
  by (induction cs) (auto split: option.splits if_splits sum.splits)

lemma restored_entry_ok:
  assumes "cookie_well_formed c" and "restore_domain c \<noteq> []"
  defines "r \<equiv> c\<lparr>sc_path := restore_path c\<rparr>"
  shows "entry_ok (restore_key r, r)"
proof -
  have "list_all valid_path_byte ''/''" by (simp add: valid_path_byte_def byte_def)
  then have "cookie_valid (to_http_cookie r)"
    using assms(1) by (auto simp: r_def cookie_well_formed_def cookie_valid_def to_http_cookie_def restore_path_def)
  then have "cookie_well_formed r" using assms(1) by (simp add: r_def cookie_well_formed_def)
  then show ?thesis
    using assms(2) by (auto simp: entry_ok_def r_def restore_domain_def restore_path_def)
qed

lemma distinct_fold_update:
  "distinct (map fst m) \<Longrightarrow> distinct (map fst (fold (\<lambda>c. AList.update (f c) c) rs m))"
  by (induction rs arbitrary: m) (auto simp: distinct_update)

lemma list_all_fold_update:
  "list_all P m \<Longrightarrow> list_all (\<lambda>c. P (f c, c)) rs \<Longrightarrow>
     list_all P (fold (\<lambda>c. AList.update (f c) c) rs m)"
  by (induction rs arbitrary: m) (auto simp: list_all_update)

lemma tracked_ok_restore:
  assumes "tracked_ok j" and "tracked_restore wall now cs j = Inr j'"
  shows "tracked_ok j'"
proof -
  obtain inner rs where inner: "tj_inner j = Some inner" and rs: "check_restored now cs = Inr rs"
    and j': "j' = j\<lparr>tj_cookies := fold (\<lambda>c. AList.update (restore_key c) c) rs (tj_cookies j),
                    tj_inner := Some (fold (restore_inner wall) rs inner)\<rparr>"
    using assms(2) by (auto simp: tracked_restore_def split: option.splits sum.splits)
  have "list_all (\<lambda>c. entry_ok (restore_key c, c)) rs"
    using check_restored_ok [OF rs] restored_entry_ok by (auto simp: list_all_iff validate_None_iff)
  then show ?thesis
    using assms(1) by (simp add: j' tracked_ok_def distinct_fold_update list_all_fold_update)
qed

lemma new_jar_eq:
  "new_tracked_cookie_jar None =
     \<lparr>tj_inner = Some empty_jar, tj_ttl = default_session_cookie_ttl, tj_cookies = []\<rparr>"
  by (simp add: new_tracked_cookie_jar_def new_tracked_cookie_jar_with_ttl_def
      default_session_cookie_ttl_def max_session_cookie_ttl_def second_def)

lemma tracked_ok_new: "tracked_ok (new_tracked_cookie_jar jar)"
  by (simp add: new_tracked_cookie_jar_def new_tracked_cookie_jar_with_ttl_def tracked_ok_def
      split: option.splits)

subsection \<open>The snapshot\<close>

text \<open>On a well-formed map the loop is a filter and never fails.\<close>

lemma collect_live_ok:
  "list_all (\<lambda>(k, c). cookie_well_formed c) m \<Longrightarrow>
     collect_live now m = (let live = filter (\<lambda>(k, c). now < sc_expires c) m in (Inr (map snd live), live))"
  by (induction m) (auto simp: Let_def validate_None_iff split: option.splits)

lemma entry_ok_well_formed: "list_all entry_ok m \<Longrightarrow> list_all (\<lambda>(k, c). cookie_well_formed c) m"
  by (auto simp: list_all_iff entry_ok_def)

definition live_cookies :: "gtime \<Rightarrow> tracked_jar \<Rightarrow> session_cookie list" where
  "live_cookies now j = map snd (filter (\<lambda>(k, c). now < sc_expires c) (tj_cookies j))"

lemma persistent_cookies_ok:
  "tracked_ok j \<Longrightarrow> \<not> is_zero now \<Longrightarrow>
     persistent_cookies wall now j =
       (Inr (sort_key cookie_order (live_cookies now j)),
        j\<lparr>tj_cookies := filter (\<lambda>(k, c). now < sc_expires c) (tj_cookies j)\<rparr>)"
  by (simp add: persistent_cookies_def tracked_ok_def collect_live_ok entry_ok_well_formed
      live_cookies_def Let_def)

lemma distinct_fst_filter: "distinct (map fst m) \<Longrightarrow> distinct (map fst (filter P m))"
  by (induction m) auto

lemma tracked_ok_filter: "tracked_ok j \<Longrightarrow> tracked_ok (j\<lparr>tj_cookies := filter P (tj_cookies j)\<rparr>)"
  by (auto simp: tracked_ok_def list_all_iff distinct_fst_filter)

lemma tracked_ok_persistent: "tracked_ok j \<Longrightarrow> tracked_ok (snd (persistent_cookies wall now j))"
  using tracked_ok_filter
  by (auto simp: persistent_cookies_def collect_live_ok tracked_ok_def entry_ok_well_formed Let_def)

text \<open>The key of a tracked cookie is determined by what the snapshot is sorted by.\<close>

fun key_of_order :: "string \<times> string \<times> string \<Rightarrow> tracked_key" where
  "key_of_order (d, p, n) = tk_of n (trim_prefix (to_lower d) ''.'') (if p = [] then ''/'' else p)"

lemma key_of_cookie_order: "key_of_order (cookie_order c) = restore_key c"
  by (simp add: cookie_order_def restore_key_def restore_domain_def restore_path_def)

lemma entry_ok_key: "entry_ok kc \<Longrightarrow> fst kc = key_of_order (cookie_order (snd kc))"
  by (cases kc) (simp add: entry_ok_def key_of_cookie_order del: key_of_order.simps)

lemma live_cookies_distinct:
  assumes "tracked_ok j"
  shows "distinct (map cookie_order (live_cookies now j))"
proof -
  let ?m = "filter (\<lambda>(k, c). now < sc_expires c) (tj_cookies j)"
  have "map key_of_order (map cookie_order (live_cookies now j)) = map fst ?m"
    using assms by (auto simp: live_cookies_def tracked_ok_def list_all_iff
        simp del: key_of_order.simps dest!: bspec entry_ok_key)
  moreover have "distinct (map fst ?m)"
    using assms by (auto simp: tracked_ok_def distinct_map inj_on_def)
  ultimately have "distinct (map key_of_order (map cookie_order (live_cookies now j)))" by simp
  then show ?thesis by (simp only: distinct_map)
qed

text \<open>Sorting by a key that tells the elements apart forgets their order.\<close>

lemma sort_key_mset_unique:
  assumes "mset xs = mset ys" and "distinct (map f xs)"
  shows "sort_key f xs = sort_key f ys"
  using assms by (intro sort_key_inj_key_eq) (simp_all add: distinct_map)

lemma fold_update_fresh:
  "distinct (map f rs) \<Longrightarrow> (\<forall>c \<in> set rs. f c \<notin> fst ` set m) \<Longrightarrow>
     fold (\<lambda>c. AList.update (f c) c) rs m = m @ map (\<lambda>c. (f c, c)) rs"
proof (induction rs arbitrary: m)
  case Nil
  then show ?case by simp
next
  case (Cons c rs)
  have "f c \<notin> fst ` set m" using Cons.prems by simp
  then have upd: "AList.update (f c) c m = m @ [(f c, c)]" by (induction m) auto
  have "f c' \<noteq> f c" if "c' \<in> set rs" for c'
    using Cons.prems(1) that by (metis distinct.simps(2) image_eqI list.map(2) list.set_map)
  then have "\<forall>c' \<in> set rs. f c' \<notin> fst ` set (m @ [(f c, c)])"
    using Cons.prems(2) by auto
  then show ?case using Cons.IH Cons.prems(1) by (simp add: upd)
qed

lemma live_cookies_ok:
  "tracked_ok j \<Longrightarrow> c \<in> set (live_cookies now j) \<Longrightarrow>
     now < sc_expires c \<and> cookie_well_formed c \<and> sc_path c \<noteq> [] \<and> restore_domain c \<noteq> []"
  by (auto simp: live_cookies_def tracked_ok_def list_all_iff entry_ok_def dest!: bspec)

lemma live_cookies_distinct_keys:
  assumes "tracked_ok j"
  shows "distinct (map restore_key (live_cookies now j))"
proof -
  let ?m = "filter (\<lambda>(k, c). now < sc_expires c) (tj_cookies j)"
  have "map restore_key (live_cookies now j) = map fst ?m"
    using assms by (auto simp: live_cookies_def tracked_ok_def list_all_iff entry_ok_def dest!: bspec)
  moreover have "distinct (map fst ?m)"
    using assms by (auto simp: tracked_ok_def distinct_map inj_on_def)
  ultimately show ?thesis by simp
qed

lemma distinct_map_mset: "mset xs = mset ys \<Longrightarrow> distinct (map f xs) = distinct (map f ys)"
  by (metis mset_eq_imp_distinct_iff mset_map)

text \<open>The snapshot restores into a fresh jar, entry for entry.\<close>

lemma restore_snapshot:
  assumes "tracked_ok j" and cs: "cs = sort_key cookie_order (live_cookies now j)"
  shows "\<exists>j'. tracked_restore wall now cs (new_tracked_cookie_jar None) = Inr j'
     \<and> tj_cookies j' = map (\<lambda>c. (restore_key c, c)) cs"
proof -
  have ok: "\<And>c. c \<in> set cs \<Longrightarrow> now < sc_expires c \<and> cookie_well_formed c \<and> sc_path c \<noteq> [] \<and> restore_domain c \<noteq> []"
    using live_cookies_ok [OF assms(1)] by (simp add: cs)
  have valid: "list_all (\<lambda>c. validate_session_cookie c now = None \<and> restore_domain c \<noteq> []) cs"
    using ok by (simp add: list_all_iff validate_None_iff)
  have same: "map (\<lambda>c. c\<lparr>sc_path := restore_path c\<rparr>) cs = cs"
    using ok by (intro map_idI) (simp add: restore_path_def)
  have check: "check_restored now cs = Inr cs"
    using iffD2 [OF check_restored_Inr_iff valid] by (simp only: same)
  have "mset cs = mset (live_cookies now j)" by (simp add: cs)
  then have dist: "distinct (map restore_key cs)"
    using live_cookies_distinct_keys [OF assms(1), of now] distinct_map_mset [of cs _ restore_key]
    by blast
  then have "fold (\<lambda>c. AList.update (restore_key c) c) cs [] = map (\<lambda>c. (restore_key c, c)) cs"
    using fold_update_fresh [OF dist, of "[]"] by simp
  then show ?thesis
    by (simp add: tracked_restore_def check new_jar_eq)
qed

lemma sort_key_cookie_order_id:
  "sort_key cookie_order (sort_key cookie_order cs) = sort_key cookie_order cs"
  by (rule properties_for_sort_key) (simp_all add: filter_sort)

section \<open>Properties\<close>

text \<open>C32: Every operation of the tracked jar keeps its map well formed: one entry per name, domain and
  path, each under its own key and valid for a later restore.\<close>

theorem tracked_jar_invariant:
  assumes "tracked_ok j" and "url_ok u"
  shows "tracked_ok (new_tracked_cookie_jar jar)
     \<and> tracked_ok (tracked_set_cookies wall now u cs j)
     \<and> tracked_ok (snd (persistent_cookies wall now j))
     \<and> (case tracked_restore wall now ss j of Inl e \<Rightarrow> True | Inr j' \<Rightarrow> tracked_ok j')"
  using tracked_ok_new tracked_ok_set_cookies [OF assms] tracked_ok_restore [OF assms(1)]
    tracked_ok_persistent [OF assms(1)]
  by (simp split: sum.split)

text \<open>The API's endpoint as a URL.\<close>

definition sample_url :: url where
  "sample_url = empty_url\<lparr>u_scheme := ''https'', u_host := ''api.example'', u_path := ''/''\<rparr>"

lemma sample_url_ok: "url_ok sample_url"
  by code_simp

lemma sample_jar_ok: "tracked_ok (tracked_set_cookies 0 5 sample_url [sample_cookie] (new_tracked_cookie_jar None))"
  by (rule tracked_ok_set_cookies [OF tracked_ok_new sample_url_ok])

lemma tracked_jar_invariant_witness:
  "tracked_ok (tracked_set_cookies 0 5 sample_url [sample_cookie] (new_tracked_cookie_jar None))"
  using tracked_jar_invariant [OF tracked_ok_new [of None] sample_url_ok] by blast

text \<open>C31: A snapshot of the tracked cookies never fails on a well-formed jar, restores into a fresh jar,
  and the restored jar gives the same snapshot again.\<close>

theorem snapshot_roundtrip:
  assumes "tracked_ok j" and "\<not> is_zero now"
  shows "\<exists>cs j'. fst (persistent_cookies wall now j) = Inr cs
     \<and> tracked_restore wall' now cs (new_tracked_cookie_jar None) = Inr j'
     \<and> fst (persistent_cookies wall'' now j') = Inr cs"
proof -
  define cs where "cs = sort_key cookie_order (live_cookies now j)"
  obtain j' where j': "tracked_restore wall' now cs (new_tracked_cookie_jar None) = Inr j'"
      "tj_cookies j' = map (\<lambda>c. (restore_key c, c)) cs"
    using restore_snapshot [OF assms(1) cs_def] by blast
  have "live_cookies now j' = cs"
  proof -
    have "\<forall>c \<in> set cs. now < sc_expires c"
      using live_cookies_ok [OF assms(1)] by (simp add: cs_def)
    then have "filter (\<lambda>(k, c). now < sc_expires c) (tj_cookies j') = tj_cookies j'"
      unfolding j'(2) by (simp add: filter_id_conv)
    then show ?thesis by (simp add: live_cookies_def j'(2) o_def)
  qed
  moreover have "tracked_ok j'" using tracked_ok_restore [OF tracked_ok_new j'(1)] .
  ultimately have "fst (persistent_cookies wall'' now j') = Inr cs"
    using assms(2) by (simp add: persistent_cookies_ok cs_def sort_key_cookie_order_id)
  then show ?thesis using j'(1) assms by (simp add: persistent_cookies_ok cs_def)
qed

lemma snapshot_roundtrip_witness:
  "\<exists>cs j'. fst (persistent_cookies 0 5 (tracked_set_cookies 0 5 sample_url [sample_cookie]
       (new_tracked_cookie_jar None))) = Inr cs
     \<and> tracked_restore 6 5 cs (new_tracked_cookie_jar None) = Inr j'
     \<and> fst (persistent_cookies 7 5 j') = Inr cs"
proof -
  have "\<not> is_zero 5" by (simp add: is_zero_def zero_time_def second_def)
  with sample_jar_ok show ?thesis by (rule snapshot_roundtrip)
qed

text \<open>C33: The snapshot does not depend on the order in which the map is iterated, which Go leaves open.\<close>

theorem snapshot_order_independent:
  assumes "mset (tj_cookies j) = mset (tj_cookies j')" and "tracked_ok j" "tracked_ok j'" and "\<not> is_zero now"
  shows "fst (persistent_cookies wall now j) = fst (persistent_cookies wall' now j')"
proof -
  have "mset (live_cookies now j) = mset (live_cookies now j')"
    unfolding live_cookies_def mset_map mset_filter assms(1) by (rule refl)
  then have "sort_key cookie_order (live_cookies now j) = sort_key cookie_order (live_cookies now j')"
    using live_cookies_distinct [OF assms(2)] by (rule sort_key_mset_unique)
  then show ?thesis using assms by (simp add: persistent_cookies_ok)
qed

lemma snapshot_order_independent_witness:
  "(let j = tracked_set_cookies 0 5 sample_url [sample_cookie, sample_cookie\<lparr>hc_name := ''csrftoken''\<rparr>]
              (new_tracked_cookie_jar None)
    in fst (persistent_cookies 0 5 j) = fst (persistent_cookies 0 5 (j\<lparr>tj_cookies := rev (tj_cookies j)\<rparr>)))"
proof -
  let ?j = "tracked_set_cookies 0 5 sample_url [sample_cookie, sample_cookie\<lparr>hc_name := ''csrftoken''\<rparr>]
              (new_tracked_cookie_jar None)"
  have ok: "tracked_ok ?j" by (rule tracked_ok_set_cookies [OF tracked_ok_new sample_url_ok])
  then have "tracked_ok (?j\<lparr>tj_cookies := rev (tj_cookies ?j)\<rparr>)"
    by (simp add: tracked_ok_def rev_map [symmetric])
  moreover have "\<not> is_zero 5" by (simp add: is_zero_def zero_time_def second_def)
  ultimately have "fst (persistent_cookies 0 5 ?j) = fst (persistent_cookies 0 5 (?j\<lparr>tj_cookies := rev (tj_cookies ?j)\<rparr>))"
    using ok by (intro snapshot_order_independent) simp_all
  then show ?thesis by (simp only: Let_def)
qed

end
