(* ===== verification/Go_Hash.thy ===== *)
theory Go_Hash
  imports Prelude "HOL-Library.Word"
begin

unbundle bit_operations_syntax

text \<open>
  The hash functions of Go's \<^verbatim>\<open>crypto\<close> packages that the sources call: SHA-1 with HMAC
  for the one-time codes, SHA-256 for fingerprints, identities and file names. Bytes and
  32-bit words are \<^typ>\<open>int\<close> values with the wrap-around written as \<open>mod 2 ^ 32\<close>, so that
  test vectors evaluate in the kernel. Lengths are proved for every input; the schedule
  of a block is a sliding window of sixteen words.
\<close>

type_synonym bytes = "int list"

definition bytes_of :: "string \<Rightarrow> bytes" where
  "bytes_of s = map (\<lambda>c. int (byte c)) s"

definition wf_bytes :: "bytes \<Rightarrow> bool" where
  "wf_bytes bs = list_all (\<lambda>b. 0 \<le> b \<and> b < 256) bs"

lemma wf_bytes_of [simp]: "wf_bytes (bytes_of s)"
  by (simp add: wf_bytes_def bytes_of_def list_all_iff)

lemma length_bytes_of [simp]: "length (bytes_of s) = length s"
  by (simp add: bytes_of_def)

lemma bytes_of_inj [simp]: "bytes_of s = bytes_of t \<longleftrightarrow> s = t"
proof -
  have "inj (\<lambda>c. int (byte c))" by (rule injI) (simp add: byte_inj)
  then show ?thesis by (simp add: bytes_of_def inj_map_eq_map)
qed

section \<open>32-bit words\<close>

definition m32 :: "int \<Rightarrow> int" where
  "m32 x = x mod 4294967296"

definition rotl32 :: "nat \<Rightarrow> int \<Rightarrow> int" where
  "rotl32 n x = x * 2 ^ n mod 4294967296 + x div 2 ^ (32 - n)"

definition rotr32 :: "nat \<Rightarrow> int \<Rightarrow> int" where
  "rotr32 n x = x div 2 ^ n + x * 2 ^ (32 - n) mod 4294967296"

definition be_bytes :: "nat \<Rightarrow> int \<Rightarrow> bytes" where
  "be_bytes n x = map (\<lambda>i. x div 256 ^ i mod 256) (rev [0..<n])"

definition be_int :: "bytes \<Rightarrow> int" where
  "be_int bs = foldl (\<lambda>acc b. acc * 256 + b) 0 bs"

lemma length_be_bytes [simp]: "length (be_bytes n x) = n"
  by (simp add: be_bytes_def)

lemma wf_be_bytes [simp]: "wf_bytes (be_bytes n x)"
  by (simp add: wf_bytes_def be_bytes_def list_all_iff)

lemma wf_bytes_append [simp]: "wf_bytes (a @ b) \<longleftrightarrow> wf_bytes a \<and> wf_bytes b"
  by (simp add: wf_bytes_def)

lemma wf_bytes_concat: "list_all wf_bytes xs \<Longrightarrow> wf_bytes (concat xs)"
  by (induction xs) (auto simp: wf_bytes_def)

lemma be_int_bound:
  "wf_bytes bs \<Longrightarrow> 0 \<le> be_int bs \<and> be_int bs < 256 ^ length bs"
proof (induction bs rule: rev_induct)
  case Nil
  then show ?case by (simp add: be_int_def)
next
  case (snoc b bs)
  then have "0 \<le> be_int bs" "be_int bs < 256 ^ length bs" "0 \<le> b" "b < 256"
    by (simp_all add: wf_bytes_def)
  moreover from this have "be_int bs + 1 \<le> 256 ^ length bs" by linarith
  ultimately show ?case by (simp add: be_int_def)
qed

section \<open>Padding and blocks\<close>

definition md_pad :: "bytes \<Rightarrow> bytes" where
  "md_pad msg = msg @ [128] @ replicate ((119 - length msg mod 64) mod 64) 0
     @ be_bytes 8 (int (8 * length msg))"

function chunks :: "nat \<Rightarrow> 'a list \<Rightarrow> 'a list list" where
  "chunks n xs = (if xs = [] \<or> n = 0 then [] else take n xs # chunks n (drop n xs))"
  by pat_completeness auto
termination by (relation "measure (\<lambda>(n, xs). length xs)") auto

declare chunks.simps [simp del]

definition block_words :: "bytes \<Rightarrow> int list" where
  "block_words b = map be_int (chunks 4 b)"

lemma length_md_pad: "length (md_pad msg) mod 64 = 0"
proof -
  have "(l + 1 + (119 - l mod 64) mod 64 + 8) mod 64 = 0" for l :: nat
  proof -
    define q r where "q = l div 64" and "r = l mod 64"
    then have l: "l = 64 * q + r" and r: "r < 64" by simp_all
    have "\<exists>k. l + 1 + (119 - r) mod 64 + 8 = 64 * k"
    proof (cases "r \<le> 55")
      case True
      then have "(119 - r) mod 64 = 55 - r" by (simp add: mod_if)
      then show ?thesis using True l by (intro exI [of _ "q + 1"]) simp
    next
      case False
      then have "(119 - r) mod 64 = 119 - r" using r by simp
      then show ?thesis using False r l by (intro exI [of _ "q + 2"]) simp
    qed
    then show ?thesis unfolding r_def by (metis mod_mult_self1_is_0)
  qed
  from this [of "length msg"] show ?thesis by (simp add: md_pad_def ac_simps)
qed

section \<open>SHA-1\<close>

definition sha1_f :: "nat \<Rightarrow> int \<Rightarrow> int \<Rightarrow> int \<Rightarrow> int" where
  "sha1_f t b c d =
     (if t < 20 then d XOR (b AND (c XOR d))
      else if t < 40 then b XOR c XOR d
      else if t < 60 then ((b OR c) AND d) OR (b AND c)
      else b XOR c XOR d)"

definition sha1_k :: "nat \<Rightarrow> int" where
  "sha1_k t = (if t < 20 then 0x5A827999 else if t < 40 then 0x6ED9EBA1
     else if t < 60 then 0x8F1BBCDC else 0xCA62C1D6)"

type_synonym sha1_state = "int \<times> int \<times> int \<times> int \<times> int"

fun sha1_rounds :: "nat list \<Rightarrow> int list \<Rightarrow> sha1_state \<Rightarrow> sha1_state" where
  "sha1_rounds [] ws st = st"
| "sha1_rounds (t # ts) ws (a, b, c, d, e) =
     sha1_rounds ts
       (tl ws @ [rotl32 1 (ws ! 13 XOR ws ! 8 XOR ws ! 2 XOR ws ! 0)])
       (m32 (rotl32 5 a + sha1_f t b c d + e + sha1_k t + hd ws), a, rotl32 30 b, c, d)"

fun sha1_block :: "bytes \<Rightarrow> sha1_state \<Rightarrow> sha1_state" where
  "sha1_block blk (a, b, c, d, e) =
     (case sha1_rounds [0..<80] (block_words blk) (a, b, c, d, e) of
        (a', b', c', d', e') \<Rightarrow> (m32 (a + a'), m32 (b + b'), m32 (c + c'), m32 (d + d'), m32 (e + e')))"

definition sha1_init :: sha1_state where
  "sha1_init = (0x67452301, 0xEFCDAB89, 0x98BADCFE, 0x10325476, 0xC3D2E1F0)"

fun sha1_out :: "sha1_state \<Rightarrow> bytes" where
  "sha1_out (a, b, c, d, e) = be_bytes 4 a @ be_bytes 4 b @ be_bytes 4 c @ be_bytes 4 d @ be_bytes 4 e"

definition sha1 :: "bytes \<Rightarrow> bytes" where
  "sha1 msg = sha1_out (fold sha1_block (chunks 64 (md_pad msg)) sha1_init)"

lemma length_sha1 [simp]: "length (sha1 msg) = 20"
  by (cases "fold sha1_block (chunks 64 (md_pad msg)) sha1_init") (simp add: sha1_def)

lemma wf_sha1 [simp]: "wf_bytes (sha1 msg)"
  by (cases "fold sha1_block (chunks 64 (md_pad msg)) sha1_init") (simp add: sha1_def)

section \<open>HMAC-SHA1\<close>

definition hmac_key :: "bytes \<Rightarrow> bytes" where
  "hmac_key key = (let k = (if 64 < length key then sha1 key else key)
     in k @ replicate (64 - length k) 0)"

definition hmac_sha1 :: "bytes \<Rightarrow> bytes \<Rightarrow> bytes" where
  "hmac_sha1 key msg = (let k = hmac_key key
     in sha1 (map (\<lambda>b. b XOR 0x5c) k @ sha1 (map (\<lambda>b. b XOR 0x36) k @ msg)))"

lemma length_hmac_key [simp]: "length (hmac_key key) = 64"
  by (simp add: hmac_key_def Let_def)

lemma length_hmac_sha1 [simp]: "length (hmac_sha1 key msg) = 20"
  by (simp add: hmac_sha1_def Let_def)

lemma wf_hmac_sha1 [simp]: "wf_bytes (hmac_sha1 key msg)"
  by (simp add: hmac_sha1_def Let_def)

section \<open>SHA-256\<close>

definition sha256_k :: "int list" where
  "sha256_k = [
     1116352408, 1899447441, 3049323471, 3921009573, 961987163, 1508970993,
     2453635748, 2870763221, 3624381080, 310598401, 607225278, 1426881987,
     1925078388, 2162078206, 2614888103, 3248222580, 3835390401, 4022224774,
     264347078, 604807628, 770255983, 1249150122, 1555081692, 1996064986,
     2554220882, 2821834349, 2952996808, 3210313671, 3336571891, 3584528711,
     113926993, 338241895, 666307205, 773529912, 1294757372, 1396182291,
     1695183700, 1986661051, 2177026350, 2456956037, 2730485921, 2820302411,
     3259730800, 3345764771, 3516065817, 3600352804, 4094571909, 275423344,
     430227734, 506948616, 659060556, 883997877, 958139571, 1322822218,
     1537002063, 1747873779, 1955562222, 2024104815, 2227730452, 2361852424,
     2428436474, 2756734187, 3204031479, 3329325298]"

type_synonym sha256_state = "(int \<times> int \<times> int \<times> int) \<times> int \<times> int \<times> int \<times> int"

definition sha256_next :: "int list \<Rightarrow> int" where
  "sha256_next ws = (let v1 = ws ! 14; v2 = ws ! 1
     in m32 ((rotr32 17 v1 XOR rotr32 19 v1 XOR v1 div 2 ^ 10) + ws ! 9
          + (rotr32 7 v2 XOR rotr32 18 v2 XOR v2 div 2 ^ 3) + ws ! 0))"

fun sha256_rounds :: "int list \<Rightarrow> int list \<Rightarrow> sha256_state \<Rightarrow> sha256_state" where
  "sha256_rounds [] ws st = st"
| "sha256_rounds (k # ks) ws ((a, b, c, d), e, f, g, h) =
     (let t1 = h + (rotr32 6 e XOR rotr32 11 e XOR rotr32 25 e)
                 + (g XOR (e AND (f XOR g))) + k + hd ws;
          t2 = (rotr32 2 a XOR rotr32 13 a XOR rotr32 22 a)
                 + ((a AND b) XOR (a AND c) XOR (b AND c))
      in sha256_rounds ks (tl ws @ [sha256_next ws])
           ((m32 (t1 + t2), a, b, c), m32 (d + t1), e, f, g))"

fun sha256_block :: "bytes \<Rightarrow> sha256_state \<Rightarrow> sha256_state" where
  "sha256_block blk ((a, b, c, d), e, f, g, h) =
     (case sha256_rounds sha256_k (block_words blk) ((a, b, c, d), e, f, g, h) of
        ((a', b', c', d'), e', f', g', h') \<Rightarrow>
          ((m32 (a + a'), m32 (b + b'), m32 (c + c'), m32 (d + d')),
           m32 (e + e'), m32 (f + f'), m32 (g + g'), m32 (h + h')))"

definition sha256_init :: sha256_state where
  "sha256_init = ((0x6a09e667, 0xbb67ae85, 0x3c6ef372, 0xa54ff53a),
                  0x510e527f, 0x9b05688c, 0x1f83d9ab, 0x5be0cd19)"

fun sha256_out :: "sha256_state \<Rightarrow> bytes" where
  "sha256_out ((a, b, c, d), e, f, g, h) = concat (map (be_bytes 4) [a, b, c, d, e, f, g, h])"

definition sha256 :: "bytes \<Rightarrow> bytes" where
  "sha256 msg = sha256_out (fold sha256_block (chunks 64 (md_pad msg)) sha256_init)"

lemma length_sha256 [simp]: "length (sha256 msg) = 32"
proof -
  obtain a b c d e f g h
    where "fold sha256_block (chunks 64 (md_pad msg)) sha256_init = ((a, b, c, d), e, f, g, h)"
    by (metis surj_pair)
  then show ?thesis by (simp add: sha256_def)
qed

lemma wf_sha256 [simp]: "wf_bytes (sha256 msg)"
proof -
  obtain a b c d e f g h
    where "fold sha256_block (chunks 64 (md_pad msg)) sha256_init = ((a, b, c, d), e, f, g, h)"
    by (metis surj_pair)
  then show ?thesis by (simp add: sha256_def)
qed

section \<open>Hexadecimal\<close>

definition hex_digit :: "int \<Rightarrow> char" where
  "hex_digit d = ''0123456789abcdef'' ! nat (d mod 16)"

definition hex_encode :: "bytes \<Rightarrow> string" where
  "hex_encode bs = concat (map (\<lambda>b. [hex_digit (b div 16), hex_digit b]) bs)"

definition is_hex_char :: "char \<Rightarrow> bool" where
  "is_hex_char c = ((48 \<le> byte c \<and> byte c \<le> 57) \<or> (97 \<le> byte c \<and> byte c \<le> 102)
     \<or> (65 \<le> byte c \<and> byte c \<le> 70))"

text \<open>\<open>hex.DecodeString\<close> succeeds on an even number of hexadecimal digits.\<close>

definition hex_valid :: "string \<Rightarrow> bool" where
  "hex_valid s = (even (length s) \<and> list_all is_hex_char s)"

lemma length_hex_encode [simp]: "length (hex_encode bs) = 2 * length bs"
  by (induction bs) (simp_all add: hex_encode_def)

lemma is_hex_digit: "is_hex_char (hex_digit d)"
proof -
  have "nat (d mod 16) < length ''0123456789abcdef''" by (simp add: nat_less_iff)
  then have "hex_digit d \<in> set ''0123456789abcdef''" unfolding hex_digit_def by (rule nth_mem)
  then show ?thesis by (auto simp: is_hex_char_def byte_def)
qed

lemma hex_valid_encode [simp]: "hex_valid (hex_encode bs)"
  by (simp add: hex_valid_def) (simp add: hex_encode_def list_all_iff is_hex_digit)

lemma hex_digit_eq: "hex_digit d = hex_digit e \<longleftrightarrow> d mod 16 = e mod 16"
proof
  assume eq: "hex_digit d = hex_digit e"
  have "distinct ''0123456789abcdef''" by simp
  moreover have "nat (d mod 16) < length ''0123456789abcdef''"
    "nat (e mod 16) < length ''0123456789abcdef''" by (simp_all add: nat_less_iff)
  ultimately have "nat (d mod 16) = nat (e mod 16)"
    using eq unfolding hex_digit_def by (metis nth_eq_iff_index_eq)
  then show "d mod 16 = e mod 16" by (simp add: eq_nat_nat_iff)
qed (simp add: hex_digit_def)

lemma hex_byte_inj:
  assumes "0 \<le> a" "a < 256" "0 \<le> b" "b < (256::int)"
    and "hex_digit (a div 16) = hex_digit (b div 16)" "hex_digit a = hex_digit b"
  shows "a = b"
proof -
  have "a div 16 mod 16 = b div 16 mod 16" "a mod 16 = b mod 16"
    using assms(5,6) by (simp_all add: hex_digit_eq)
  moreover have "a div 16 mod 16 = a div 16" "b div 16 mod 16 = b div 16"
    using assms(1-4) by (auto intro!: mod_pos_pos_trivial simp: pos_imp_zdiv_nonneg_iff)
  ultimately show ?thesis by (metis div_mult_mod_eq)
qed

lemma hex_encode_inj: "wf_bytes a \<Longrightarrow> wf_bytes b \<Longrightarrow> hex_encode a = hex_encode b \<longleftrightarrow> a = b"
proof (induction a arbitrary: b)
  case Nil
  then show ?case by (cases b) (auto simp: hex_encode_def)
next
  case (Cons x a)
  show ?case
  proof (cases b)
    case Nil
    then show ?thesis by (simp add: hex_encode_def)
  next
    case (Cons y b')
    then show ?thesis using Cons.IH [of b'] Cons.prems
      by (auto simp: hex_encode_def wf_bytes_def dest: hex_byte_inj)
  qed
qed

definition sha256_hex :: "string \<Rightarrow> string" where
  "sha256_hex s = hex_encode (sha256 (bytes_of s))"

lemma length_sha256_hex [simp]: "length (sha256_hex s) = 64"
  by (simp add: sha256_hex_def)

lemma hex_valid_sha256_hex [simp]: "hex_valid (sha256_hex s)"
  by (simp add: sha256_hex_def)

lemma sha256_hex_eq_iff:
  "sha256_hex s = sha256_hex t \<longleftrightarrow> sha256 (bytes_of s) = sha256 (bytes_of t)"
  by (simp add: sha256_hex_def hex_encode_inj)

end
