(* ===== verification/Totp.thy ===== *)
theory Totp
  imports Go_Hash Go_Error
begin

text \<open>
  The one-time codes of session.go and the OTP-secret functions of otp_coordination.go:
  \<^verbatim>\<open>TOTP\<close> with the base32 decoder, HMAC-SHA1 and dynamic truncation it calls, and the
  one-way binding of a secret.
\<close>

section \<open>Secrets\<close>

definition normalize_otp_secret :: "string \<Rightarrow> string" where
  "normalize_otp_secret secret =
     trim_right (CHR ''='') (map upper_char (filter (\<lambda>c. \<not> is_space c) secret))"

definition otp_binding_domain :: string where
  "otp_binding_domain = ''cloudsigma-go/accepted-otp/v1'' @ [CHR 0x00]"

definition otp_secret_binding :: "string \<Rightarrow> string" where
  "otp_secret_binding secret = sha256_hex (otp_binding_domain @ normalize_otp_secret secret)"

lemma filter_space_trim_right:
  "filter (\<lambda>c. \<not> is_space c) (trim_right (CHR ''='') s)
     = trim_right (CHR ''='') (filter (\<lambda>c. \<not> is_space c) s)"
  if "filter (\<lambda>c. \<not> is_space c) s = s"
  using that trim_right_by_prefix [where p = "\<lambda>x. x = CHR ''=''" and s = s]
  by (auto simp: trim_right_def filter_id_conv) (metis Un_iff set_append)

lemma normalize_no_space: "c \<in> set (normalize_otp_secret s) \<Longrightarrow> \<not> is_space c"
proof -
  assume "c \<in> set (normalize_otp_secret s)"
  moreover obtain t where
    "map upper_char (filter (\<lambda>c. \<not> is_space c) s) = normalize_otp_secret s @ t"
    unfolding normalize_otp_secret_def trim_right_def using trim_right_by_prefix by blast
  ultimately have "c \<in> set (map upper_char (filter (\<lambda>c. \<not> is_space c) s))"
    by (metis Un_iff set_append)
  then show ?thesis by (auto simp: str_simps)
qed

lemma normalize_upper: "c \<in> set (normalize_otp_secret s) \<Longrightarrow> upper_char c = c"
proof -
  assume "c \<in> set (normalize_otp_secret s)"
  moreover obtain t where
    "map upper_char (filter (\<lambda>c. \<not> is_space c) s) = normalize_otp_secret s @ t"
    unfolding normalize_otp_secret_def trim_right_def using trim_right_by_prefix by blast
  ultimately have "c \<in> set (map upper_char (filter (\<lambda>c. \<not> is_space c) s))"
    by (metis Un_iff set_append)
  then show ?thesis by (auto simp: str_simps)
qed

lemma normalize_idem: "normalize_otp_secret (normalize_otp_secret s) = normalize_otp_secret s"
proof -
  let ?n = "normalize_otp_secret s"
  have "filter (\<lambda>c. \<not> is_space c) ?n = ?n"
    by (simp add: filter_id_conv normalize_no_space)
  moreover have "map upper_char ?n = ?n"
    by (simp add: map_idI normalize_upper)
  moreover have "trim_right (CHR ''='') ?n = ?n"
    by (simp add: normalize_otp_secret_def str_simps)
  ultimately show ?thesis
    by (simp add: normalize_otp_secret_def [of ?n])
qed

section \<open>Base32 without padding\<close>

definition b32_val :: "char \<Rightarrow> int option" where
  "b32_val c =
     (if 65 \<le> byte c \<and> byte c \<le> 90 then Some (int (byte c) - 65)
      else if 50 \<le> byte c \<and> byte c \<le> 55 then Some (int (byte c) - 24)
      else None)"

text \<open>
  One quantum of at most eight symbols. The decoder's switch has no case for one, three
  and six symbols, and drops such a quantum.
\<close>

fun b32_quantum :: "int list \<Rightarrow> bytes" where
  "b32_quantum [a, b] = [(a * 8 + b div 4) mod 256]"
| "b32_quantum [a, b, c, d] = [(a * 8 + b div 4) mod 256, (b * 64 + c * 2 + d div 16) mod 256]"
| "b32_quantum [a, b, c, d, e] =
     [(a * 8 + b div 4) mod 256, (b * 64 + c * 2 + d div 16) mod 256, (d * 16 + e div 2) mod 256]"
| "b32_quantum [a, b, c, d, e, f, g] =
     [(a * 8 + b div 4) mod 256, (b * 64 + c * 2 + d div 16) mod 256, (d * 16 + e div 2) mod 256,
      (e * 128 + f * 4 + g div 8) mod 256]"
| "b32_quantum [a, b, c, d, e, f, g, h] =
     [(a * 8 + b div 4) mod 256, (b * 64 + c * 2 + d div 16) mod 256, (d * 16 + e div 2) mod 256,
      (e * 128 + f * 4 + g div 8) mod 256, (g * 32 + h) mod 256]"
| "b32_quantum _ = []"

text \<open>The index of the first symbol outside the alphabet, or the bytes.\<close>

fun b32_vals :: "nat \<Rightarrow> string \<Rightarrow> nat + int list" where
  "b32_vals i [] = Inr []"
| "b32_vals i (c # s) =
     (case b32_val c of
        None \<Rightarrow> Inl i
      | Some v \<Rightarrow> (case b32_vals (Suc i) s of Inl j \<Rightarrow> Inl j | Inr vs \<Rightarrow> Inr (v # vs)))"

definition base32_decode :: "string \<Rightarrow> nat + bytes" where
  "base32_decode s =
     (case b32_vals 0 s of
        Inl i \<Rightarrow> Inl i
      | Inr vs \<Rightarrow> Inr (concat (map b32_quantum (chunks 8 vs))))"

lemma b32_vals_Inr_iff:
  "(\<exists>vs. b32_vals i s = Inr vs) \<longleftrightarrow> list_all (\<lambda>c. b32_val c \<noteq> None) s"
  by (induction s arbitrary: i) (auto split: option.splits sum.splits, (metis sum.distinct(1))+)

lemma base32_decode_ok_iff:
  "is_ok (base32_decode s) \<longleftrightarrow> list_all (\<lambda>c. b32_val c \<noteq> None) s"
  using b32_vals_Inr_iff [of 0 s]
  by (auto simp: base32_decode_def is_ok_def split: sum.splits)

section \<open>TOTP\<close>

text \<open>\<^verbatim>\<open>uint64(t.Unix())/30\<close>.\<close>

definition totp_counter :: "gtime \<Rightarrow> int" where
  "totp_counter t = unix t mod 2 ^ 64 div 30"

text \<open>A slice expression \<^verbatim>\<open>s[i:j]\<close> panics when it leaves the slice (\<open>None\<close>).\<close>

definition slice :: "'a list \<Rightarrow> nat \<Rightarrow> nat \<Rightarrow> 'a list option" where
  "slice xs i j = (if i \<le> j \<and> j \<le> length xs then Some (take (j - i) (drop i xs)) else None)"

definition dynamic_truncate :: "bytes \<Rightarrow> int option" where
  "dynamic_truncate mac =
     (let off = nat (last mac mod 16)
      in case slice mac off (off + 4) of
           None \<Rightarrow> None
         | Some bs \<Rightarrow> Some (be_int bs mod 2 ^ 31))"

definition totp :: "string \<Rightarrow> gtime \<Rightarrow> go_error + string option" where
  "totp secret t =
     (let secret = normalize_otp_secret secret
      in case base32_decode (trim_right (CHR ''='') secret) of
           Inl i \<Rightarrow> Inl (Wrapped ''otp_secret is not valid base32''
                         [Plain (''illegal base32 data at input byte '' @ show_nat i)])
         | Inr key \<Rightarrow>
             (let msg = be_bytes 8 (totp_counter t);
                  mac = hmac_sha1 key msg
              in case dynamic_truncate mac of
                   None \<Rightarrow> Inr None
                 | Some code \<Rightarrow>
                     Inr (Some (pad_left 6 (CHR ''0'') (show_nat (nat (code mod 1000000)))))))"

lemma dynamic_truncate_ok:
  assumes "wf_bytes mac" "length mac = 20"
  shows "\<exists>v. dynamic_truncate mac = Some v \<and> 0 \<le> v \<and> v < 2 ^ 31"
proof -
  let ?off = "nat (last mac mod 16)"
  have "?off < 16" by (simp add: nat_less_iff)
  then have "?off + 4 \<le> length mac" using assms(2) by simp
  then show ?thesis by (simp add: dynamic_truncate_def slice_def Let_def)
qed

lemma six_digits_length: "length (pad_left 6 c (show_nat (nat (v mod 1000000)))) = 6"
proof -
  have "v mod 1000000 < 1000000" by simp
  then have "nat (v mod 1000000) < 10 ^ Suc 5" by (simp add: nat_less_iff)
  then have "length (show_nat (nat (v mod 1000000))) \<le> Suc 5" by (rule show_nat_length)
  then show ?thesis by (simp add: pad_left_def)
qed

lemma six_digits_digits: "list_all is_digit (pad_left 6 (CHR ''0'') (show_nat n))"
  using show_nat_digits [of n] by (auto simp: pad_left_def list_all_iff is_digit_def byte_def)

lemma totp_shape:
  "totp secret t = Inr r \<Longrightarrow>
     \<exists>code. r = Some code \<and> length code = 6 \<and> list_all is_digit code"
proof -
  assume r: "totp secret t = Inr r"
  then obtain key where "base32_decode (trim_right (CHR ''='') (normalize_otp_secret secret)) = Inr key"
    by (auto simp: totp_def Let_def split: sum.splits)
  moreover obtain v where "dynamic_truncate (hmac_sha1 key (be_bytes 8 (totp_counter t))) = Some v"
    using dynamic_truncate_ok [OF wf_hmac_sha1 length_hmac_sha1] by blast
  ultimately have "r = Some (pad_left 6 (CHR ''0'') (show_nat (nat (v mod 1000000))))"
    using r by (simp add: totp_def Let_def)
  then show ?thesis by (simp add: six_digits_length six_digits_digits)
qed

lemma totp_normalize: "totp (normalize_otp_secret s) t = totp s t"
  by (simp add: totp_def normalize_idem)

lemma totp_cong: "totp_counter t = totp_counter u \<Longrightarrow> totp s t = totp s u"
  by (simp add: totp_def cong: sum.case_cong)

lemma totp_counter_step: "0 \<le> t \<Longrightarrow> unix t < 2 ^ 63 \<Longrightarrow> totp_counter t = otp_step t"
  using unix_nonneg [of t] by (simp add: totp_counter_def otp_step_nonneg)

lemma otp_secret_binding_normalize:
  "otp_secret_binding (normalize_otp_secret s) = otp_secret_binding s"
  by (simp add: otp_secret_binding_def normalize_idem)

lemma length_otp_secret_binding [simp]: "length (otp_secret_binding s) = 64"
  by (simp add: otp_secret_binding_def)

lemma hex_valid_otp_secret_binding [simp]: "hex_valid (otp_secret_binding s)"
  by (simp add: otp_secret_binding_def)

section \<open>Properties\<close>

text \<open>C40: A code is produced exactly for a secret whose normal form is base32, and then it is six
  decimal digits: the slice of the truncation never panics, whatever the digest.\<close>

theorem totp_six_digits:
  "case totp secret t of
     Inl e \<Rightarrow> \<not> list_all (\<lambda>c. b32_val c \<noteq> None) (normalize_otp_secret secret)
   | Inr r \<Rightarrow> list_all (\<lambda>c. b32_val c \<noteq> None) (normalize_otp_secret secret)
       \<and> (\<exists>code. r = Some code \<and> length code = 6 \<and> list_all is_digit code)"
proof -
  have norm: "trim_right (CHR ''='') (normalize_otp_secret secret) = normalize_otp_secret secret"
    by (simp add: normalize_otp_secret_def str_simps)
  have "(\<exists>e. totp secret t = Inl e) \<longleftrightarrow> \<not> is_ok (base32_decode (normalize_otp_secret secret))"
    by (auto simp: totp_def Let_def norm is_ok_def split: sum.splits option.splits)
  then show ?thesis
    using totp_shape [of secret t] base32_decode_ok_iff [of "normalize_otp_secret secret"]
    by (auto split: sum.split)
qed

text \<open>The code and the binding of a secret do not depend on how an authenticator app displays it
  (spaces, lower case, padding), and the code only on the 30-second window.\<close>

theorem totp_display_independent:
  assumes "normalize_otp_secret s = normalize_otp_secret s'"
    and "0 \<le> t" "0 \<le> u" "unix t < 2 ^ 63" "unix u < 2 ^ 63" "otp_step t = otp_step u"
  shows "totp s t = totp s' u \<and> otp_secret_binding s = otp_secret_binding s'"
  using assms totp_normalize [of s] totp_normalize [of s'] totp_cong [of t u s'] totp_counter_step
  by (metis otp_secret_binding_normalize)

lemma totp_display_independent_witness:
  "totp ''jbsw y3dp'' (time_unix 61) = totp ''JBSWY3DP=='' (time_unix 89)
   \<and> otp_secret_binding ''jbsw y3dp'' = otp_secret_binding ''JBSWY3DP==''"
proof (rule totp_display_independent)
  show "normalize_otp_secret ''jbsw y3dp'' = normalize_otp_secret ''JBSWY3DP==''" by code_simp
qed (simp_all add: time_unix_def second_def unix_def otp_step_def go_div_def)

end
