(* ===== verification/Identity.thy ===== *)
theory Identity
  imports Totp Go_URL
begin

text \<open>
  Names of things: the endpoint strings of endpoint.go, the root URL an authenticator
  keeps (session.go), and the one-way identities by which accounts, accepted codes and
  credentials are told apart (otp_coordination.go, session_store.go).
\<close>

definition nul :: char where "nul = CHR 0x00"

section \<open>endpoint.go\<close>

definition endpoint :: "string \<Rightarrow> string \<Rightarrow> string" where
  "endpoint base_url location =
     (if base_url = [] then location @ ''.cloudsigma.com/api/2.0/''
      else let base_url = trim_prefix (trim_prefix base_url ''https://'') ''http://''
           in trim_suffix base_url ''/'' @ ''/'')"

section \<open>The root of an authenticator\<close>

definition auth_root :: "string \<Rightarrow> string" where
  "auth_root base_url =
     (let root = (if contains base_url ''://'' then base_url
                  else ''https://'' @ trim_suffix base_url ''/'' @ ''/'')
      in trim_suffix root ''/'' @ ''/'')"

text \<open>The root, the parsed root and the origin; \<open>Inl\<close> when the root does not parse.\<close>

definition auth_urls :: "string \<Rightarrow> go_error + (string \<times> url \<times> string)" where
  "auth_urls base_url =
     (let root = auth_root base_url
      in case url_parse root of
           None \<Rightarrow> Inl (Wrapped ''invalid base URL'' [Plain root])
         | Some u \<Rightarrow> Inr (root, u, u_scheme u @ ''://'' @ u_host u))"

section \<open>Coordination identities\<close>

definition normalized_auth_endpoint :: "string \<Rightarrow> string" where
  "normalized_auth_endpoint ep =
     (let fallback = trim_right (CHR ''/'') (to_lower ep)
      in case url_parse ep of
           None \<Rightarrow> fallback
         | Some u \<Rightarrow>
             if u_scheme u = [] \<or> u_host u = [] then fallback
             else
               let scheme = to_lower (u_scheme u);
                   host = to_lower (hostname u);
                   prt = port u;
                   prt = (if (scheme = ''https'' \<and> prt = ''443'') \<or> (scheme = ''http'' \<and> prt = ''80'')
                          then [] else prt);
                   host' = (if prt \<noteq> [] then join_host_port host prt
                            else if contains host '':'' then ''['' @ host @ '']'' else host)
               in url_string (u\<lparr>u_scheme := scheme, u_host := host', u_user := None,
                                u_fragment := [],
                                u_path := trim_right (CHR ''/'') (u_path u) @ ''/'',
                                u_raw_path := []\<rparr>))"

definition normalized_username :: "string \<Rightarrow> string" where
  "normalized_username username = to_lower (trim_space username)"

definition otp_account_identity :: "string \<Rightarrow> string \<Rightarrow> string" where
  "otp_account_identity ep username =
     sha256_hex (normalized_auth_endpoint ep @ [nul] @ normalized_username username)"

definition otp_state_identity :: "string \<Rightarrow> string \<Rightarrow> string \<Rightarrow> string" where
  "otp_state_identity ep username binding = otp_account_identity ep username @ '':'' @ binding"

definition credential_fingerprint :: "string \<Rightarrow> string \<Rightarrow> string \<Rightarrow> string \<Rightarrow> string" where
  "credential_fingerprint ep username password otp_secret =
     sha256_hex (''cloudsigma-go/session-credential/v1'' @ [nul]
       @ concat (map (\<lambda>v. v @ [nul]) [ep, username, password, otp_secret]))"

section \<open>Lemmas\<close>

lemma ends_slash: "suffix ''/'' (trim_suffix s ''/'' @ ''/'')"
  by (simp add: suffix_def)

lemma auth_root_ends: "suffix ''/'' (auth_root b)"
  by (simp add: auth_root_def Let_def suffix_def)

lemma trim_suffix_snoc_id: "suffix p s \<Longrightarrow> trim_suffix s p @ p = s"
  by (auto simp: suffix_def)

lemma trim_suffix_shape: "trim_suffix s p = s \<or> s = trim_suffix s p @ p"
  by (auto simp: trim_suffix_def has_suffix_def) (metis append_take_drop_id)

lemma contains_append_left: "contains s t \<Longrightarrow> contains (s @ r) t"
  unfolding contains_iff by (meson sublist_appendI sublist_append_rightI sublist_order.order_trans)

lemma contains_prefixed: "contains (a @ t @ b) t"
  by (simp add: contains_iff sublist_appendI)

lemma auth_root_has_scheme: "contains (auth_root b) ''://''"
proof (cases "contains b ''://''")
  case True
  obtain s where s: "b = s \<or> b = s @ ''/''" "auth_root b = s @ ''/''"
    using trim_suffix_shape [of b "''/''"] True by (auto simp: auth_root_def Let_def)
  then show ?thesis
  proof (cases "b = s")
    case True
    then show ?thesis using s contains_append_left [OF \<open>contains b _\<close>] by simp
  next
    case False
    then show ?thesis using s \<open>contains b _\<close> by simp
  qed
next
  case False
  then show ?thesis
    using trim_suffix_append [of "''https://'' @ trim_suffix b ''/''" "''/''"]
    by (simp add: auth_root_def Let_def has_prefix_def)
qed

lemma auth_root_idem: "auth_root (auth_root b) = auth_root b"
  using auth_root_has_scheme [of b] auth_root_ends [of b]
  by (simp add: auth_root_def [of "auth_root b"] trim_suffix_snoc_id)

lemma normalized_username_idem:
  "normalized_username (normalized_username u) = normalized_username u"
  by (simp add: normalized_username_def trim_space_to_lower trim_space_idem to_lower_idem)

lemma length_otp_account_identity [simp]: "length (otp_account_identity ep u) = 64"
  by (simp add: otp_account_identity_def)

lemma otp_state_identity_eq_iff:
  "otp_state_identity ep u b = otp_state_identity ep' u' b' \<longleftrightarrow>
     otp_account_identity ep u = otp_account_identity ep' u' \<and> b = b'"
proof -
  have "length (otp_account_identity ep u) = length (otp_account_identity ep' u')" by simp
  then show ?thesis by (auto simp: otp_state_identity_def)
qed

text \<open>The pieces of NUL-terminated material without NUL bytes can be read back.\<close>

lemma nul_terminated_inj:
  "a @ nul # s = b @ nul # t \<Longrightarrow> nul \<notin> set a \<Longrightarrow> nul \<notin> set b \<Longrightarrow> a = b \<and> s = t"
proof (induction a arbitrary: b)
  case Nil
  then show ?case by (cases b) auto
next
  case (Cons c a)
  then show ?case by (cases b) auto
qed

section \<open>The normal form of a plain URL\<close>

text \<open>
  A plain URL has a host of letters, digits, dots and dashes, an optional decimal port and
  an absolute path of unreserved characters: what an endpoint looks like in a configuration.
\<close>

definition plain_host_char :: "char \<Rightarrow> bool" where
  "plain_host_char c = (is_alpha c \<or> is_digit c \<or> c \<in> set ''-.'')"

definition plain_path_char :: "char \<Rightarrow> bool" where
  "plain_path_char c = (is_alpha c \<or> is_digit c \<or> c \<in> set ''-._~/'')"

definition host_port :: "string \<Rightarrow> string \<Rightarrow> string" where
  "host_port h p = (if p = [] then h else h @ '':'' @ p)"

text \<open>A character outside a set of punctuation: compare the bytes.\<close>

lemma alnum_not_mem:
  "is_alpha c \<or> is_digit c \<Longrightarrow> c \<notin> set ''%:[]/?#@*''"
  by (elim disjE; simp add: is_alpha_def is_digit_def; intro conjI notI;
      clarsimp simp: byte_def)

lemma alnum_not_ctl: "is_alpha c \<or> is_digit c \<Longrightarrow> \<not> is_ctl c"
  by (auto simp: is_alpha_def is_digit_def is_ctl_def)

lemma alnum_not_escaped: "is_alpha c \<or> is_digit c \<Longrightarrow> \<not> should_escape mode c"
  by (simp add: should_escape_def)

lemma punct_classes:
  "list_all (\<lambda>c. c \<notin> set ''%:[]?#@*'' \<and> \<not> is_ctl c \<and> \<not> should_escape EncodePath c) ''-._~/''"
  "list_all (\<lambda>c. c \<noteq> CHR ''/'' \<and> \<not> should_escape EncodeHost c) ''-.''"
  "\<not> should_escape EncodeHost (CHR '':'')"
  by code_simp+

lemma plain_host_not:
  assumes "plain_host_char c"
  shows "\<not> is_ctl c" and "\<not> should_escape EncodeHost c" and "c \<notin> set ''%:[]/?#@*''"
proof -
  consider "is_alpha c \<or> is_digit c" | "c = CHR ''-''" | "c = CHR ''.''"
    using assms by (auto simp: plain_host_char_def)
  then have "\<not> is_ctl c \<and> \<not> should_escape EncodeHost c \<and> c \<notin> set ''%:[]/?#@*''"
  proof cases
    case 1
    then show ?thesis using alnum_not_mem alnum_not_ctl alnum_not_escaped by blast
  qed (use punct_classes in simp_all)
  then show "\<not> is_ctl c" and "\<not> should_escape EncodeHost c" and "c \<notin> set ''%:[]/?#@*''" by blast+
qed

lemma plain_path_not:
  assumes "plain_path_char c"
  shows "\<not> is_ctl c" and "\<not> should_escape EncodePath c" and "c \<notin> set ''%?#*''"
proof -
  consider "is_alpha c \<or> is_digit c" | "c \<in> set ''-._~/''"
    using assms unfolding plain_path_char_def by blast
  then have "\<not> is_ctl c \<and> \<not> should_escape EncodePath c \<and> c \<notin> set ''%?#*''"
  proof cases
    case 1
    moreover have "c \<notin> set ''%?#*''" using alnum_not_mem [OF 1] by simp
    ultimately show ?thesis using alnum_not_ctl alnum_not_escaped by blast
  next
    case 2
    then show ?thesis using punct_classes(1) by (auto simp: list_all_iff)
  qed
  then show "\<not> is_ctl c" and "\<not> should_escape EncodePath c" and "c \<notin> set ''%?#*''" by blast+
qed

lemma cut_on_none: "c \<notin> set s \<Longrightarrow> cut_on c s = (s, [], False)"
  by (induction s) auto

lemma unescape_path_plain: "list_all plain_path_char s \<Longrightarrow> unescape EncodePath s = Some s"
  by (induction s) (auto dest: plain_path_not(3))

lemma escape_path_plain: "list_all plain_path_char s \<Longrightarrow> escape EncodePath s = s"
  by (induction s) (auto simp: plain_path_not(2))

lemma host_escapes:
  "list_all (\<lambda>c. plain_host_char c \<or> c = CHR '':'') s \<Longrightarrow>
     unescape EncodeHost s = Some s \<and> escape EncodeHost s = s"
proof (induction s)
  case (Cons c s)
  consider "plain_host_char c" | "c = CHR '':''" using Cons.prems by auto
  then have "\<not> should_escape EncodeHost c \<and> c \<noteq> CHR ''%''"
  proof cases
    case 1
    then show ?thesis using plain_host_not [OF 1] by simp
  qed (simp add: punct_classes(3))
  then show ?case using Cons by simp
qed simp

lemma get_scheme_alpha:
  "list_all is_alpha s \<Longrightarrow> 0 < i + length s \<Longrightarrow>
     get_scheme i acc whole (s @ CHR '':'' # rest) = Some (acc @ s, rest)"
proof (induction s arbitrary: i acc)
  case Nil
  have "\<not> is_alpha (CHR '':'')" "\<not> is_digit (CHR '':'')"
    by (simp_all add: is_alpha_def is_digit_def byte_def)
  then show ?case using Nil by simp
qed simp

lemma last_split_none: "c \<notin> set s \<Longrightarrow> last_split c s = None"
  by (simp add: last_split_def)

lemma not_in_all: "c \<notin> set p \<Longrightarrow> \<forall>x \<in> set p. x \<noteq> c"
  by blast

lemma last_split_snoc: "c \<notin> set p \<Longrightarrow> last_split c (h @ c # p) = Some (h, c # p)"
proof -
  assume c: "c \<notin> set p"
  then have "takeWhile (\<lambda>x. x \<noteq> c) (rev (h @ c # p)) = rev p"
    by (simp add: takeWhile_tail takeWhile_append2 [of "rev p"] not_in_all)
  then show ?thesis by (simp add: last_split_def Let_def)
qed

lemma has_prefix_char: "has_prefix s [c] \<longleftrightarrow> s \<noteq> [] \<and> hd s = c"
  by (cases s) (auto simp: has_prefix_def)

lemma parse_host_plain:
  assumes "h \<noteq> []" "list_all plain_host_char h" "list_all is_digit p"
  shows "parse_host (host_port h p) = Some (host_port h p)"
    and "split_host_port (host_port h p) = (h, p)"
    and "CHR ''@'' \<notin> set (host_port h p)" and "CHR ''/'' \<notin> set (host_port h p)"
    and "escape EncodeHost (host_port h p) = host_port h p"
proof -
  have all: "list_all (\<lambda>c. plain_host_char c \<or> c = CHR '':'') (host_port h p)"
    using assms by (auto simp: host_port_def list_all_iff plain_host_char_def)
  then have un: "unescape EncodeHost (host_port h p) = Some (host_port h p)"
    and "escape EncodeHost (host_port h p) = host_port h p"
    by (simp_all add: host_escapes)
  then show "escape EncodeHost (host_port h p) = host_port h p" by simp
  have hs: "\<And>c. c \<in> set ''%:[]/?#@*'' \<Longrightarrow> c \<notin> set h"
    using assms(2) plain_host_not(3) by (meson list_all_iff)
  have ps: "\<And>c. c \<in> set ''%:[]/?#@*'' \<Longrightarrow> c \<notin> set p"
    using assms(3) alnum_not_mem by (meson list_all_iff)
  show "CHR ''@'' \<notin> set (host_port h p)" "CHR ''/'' \<notin> set (host_port h p)"
    using hs ps by (simp_all add: host_port_def)
  have "CHR ''['' \<notin> set h" by (rule hs) simp
  then have "hd h \<noteq> CHR ''[''" using hd_in_set [OF assms(1)] by metis
  then have nb: "\<not> has_prefix (host_port h p) ''[''" "\<not> has_prefix h ''[''"
    using assms(1) by (simp_all add: host_port_def has_prefix_char)
  have colon: "CHR '':'' \<notin> set h" "CHR '':'' \<notin> set p" using hs ps by simp_all
  have split: "last_split (CHR '':'') (host_port h p) = (if p = [] then None else Some (h, CHR '':'' # p))"
    using colon by (simp add: host_port_def last_split_none last_split_snoc)
  have port_ok: "valid_optional_port (CHR '':'' # p)"
    using assms(3) by (simp add: valid_optional_port_def)
  show "parse_host (host_port h p) = Some (host_port h p)"
    using nb un port_ok split by (cases "p = []") (simp_all add: parse_host_def)
  show "split_host_port (host_port h p) = (h, p)"
    using nb port_ok last_split_none [OF colon(1)] last_split_snoc [OF colon(2), of h]
    by (simp add: split_host_port_def host_port_def)
qed

lemma has_prefix_Cons: "has_prefix (c # s) (d # p) \<longleftrightarrow> c = d \<and> has_prefix s p"
  by (auto simp: has_prefix_def)

lemma has_prefix_Nil [simp]: "has_prefix s []"
  by (simp add: has_prefix_def)

lemma parse_plain:
  assumes sch: "sch \<noteq> []" "list_all is_alpha sch"
    and h: "h \<noteq> []" "list_all plain_host_char h" and p: "list_all is_digit p"
    and path: "list_all plain_path_char (CHR ''/'' # q)"
  shows "url_parse (sch @ ''://'' @ host_port h p @ CHR ''/'' # q) =
     Some (empty_url\<lparr>u_scheme := to_lower sch, u_host := host_port h p, u_path := CHR ''/'' # q\<rparr>)"
proof -
  let ?hp = "host_port h p" and ?path = "CHR ''/'' # q"
  let ?raw = "sch @ ''://'' @ ?hp @ ?path"
  note hp = parse_host_plain [OF h p]
  have hpc: "\<And>c. c \<in> set ?hp \<Longrightarrow> \<not> is_ctl c \<and> c \<noteq> CHR ''#'' \<and> c \<noteq> CHR ''?''"
  proof -
    fix c assume "c \<in> set ?hp"
    then consider "plain_host_char c" | "is_digit c" | "c = CHR '':''"
      using h p by (auto simp: host_port_def list_all_iff split: if_splits)
    then show "\<not> is_ctl c \<and> c \<noteq> CHR ''#'' \<and> c \<noteq> CHR ''?''"
    proof cases
      case 1
      then show ?thesis using plain_host_not by simp
    next
      case 2
      then show ?thesis using alnum_not_mem [of c] alnum_not_ctl [of c] by simp
    qed (simp add: is_ctl_def byte_def)
  qed
  have sc: "\<And>c. c \<in> set sch \<Longrightarrow> \<not> is_ctl c \<and> c \<noteq> CHR ''#'' \<and> c \<noteq> CHR ''?'' \<and> c \<noteq> CHR ''*''"
  proof -
    fix c assume "c \<in> set sch"
    then have "is_alpha c" using sch(2) by (simp add: list_all_iff)
    then show "\<not> is_ctl c \<and> c \<noteq> CHR ''#'' \<and> c \<noteq> CHR ''?'' \<and> c \<noteq> CHR ''*''"
      using alnum_not_mem [of c] alnum_not_ctl [of c] by simp
  qed
  have pc: "\<And>c. c \<in> set ?path \<Longrightarrow> \<not> is_ctl c \<and> c \<noteq> CHR ''#'' \<and> c \<noteq> CHR ''?''"
  proof -
    fix c assume "c \<in> set ?path"
    then have "plain_path_char c" using path by (simp add: list_all_iff del: set_simps)
    then show "\<not> is_ctl c \<and> c \<noteq> CHR ''#'' \<and> c \<noteq> CHR ''?''" using plain_path_not by simp
  qed
  have seps: "\<not> is_ctl (CHR '':'')" "\<not> is_ctl (CHR ''/'')" by (simp_all add: is_ctl_def byte_def)
  have hash: "CHR ''#'' \<notin> set ?raw" using hpc sc pc by auto
  have ctl: "\<not> list_ex is_ctl ?raw" using hpc sc pc seps by (auto simp: list_ex_iff)
  have star: "?raw \<noteq> ''*''" using sch(1) by (cases sch) auto
  let ?rest = "''//'' @ ?hp @ ?path"
  have quest: "CHR ''?'' \<notin> set ?rest" using hpc pc by auto
  have gs: "get_scheme 0 [] ?raw ?raw = Some (sch, ?rest)"
    using get_scheme_alpha [OF sch(2), of 0 "[]" ?raw ?rest] sch(1) by simp
  have sq: "split_query ?rest = (?rest, False, [])"
    using quest by (auto simp: split_query_def has_suffix_iff suffix_def cut_on_none)
  let ?u = "empty_url\<lparr>u_scheme := to_lower sch, u_force_query := False, u_raw_query := []\<rparr>"
  have tw: "takeWhile (\<lambda>c. c \<noteq> CHR ''/'') (?hp @ ?path) = ?hp"
    and dw: "dropWhile (\<lambda>c. c \<noteq> CHR ''/'') (?hp @ ?path) = ?path"
    using hp(4) by (simp_all add: takeWhile_append2 dropWhile_append2 not_in_all)
  have auth: "parse_authority ?hp = Some (None, ?hp)"
    using hp(1,3) by (simp add: parse_authority_def last_split_none)
  have sp: "set_path ?path v = Some (v\<lparr>u_path := ?path, u_raw_path := []\<rparr>)" for v
    using unescape_path_plain [OF path] escape_path_plain [OF path] by (simp add: set_path_def)
  have ph: "parse_hierarchy ?rest ?u =
      Some (?u\<lparr>u_user := None, u_host := ?hp, u_path := ?path, u_raw_path := []\<rparr>)"
    using sch(1) auth sp
    by (simp add: parse_hierarchy_def has_prefix_Cons to_lower_eq_Nil tw dw)
  show ?thesis
    using hash ctl star gs sq ph
    by (simp add: url_parse_def cut_on_none empty_url_def)
qed

lemma trim_slash_plain:
  "list_all plain_path_char (CHR ''/'' # q) \<Longrightarrow>
     list_all plain_path_char (trim_right (CHR ''/'') (CHR ''/'' # q) @ ''/'')"
proof -
  assume path: "list_all plain_path_char (CHR ''/'' # q)"
  obtain t where t: "CHR ''/'' # q = trim_right (CHR ''/'') (CHR ''/'' # q) @ t"
    unfolding trim_right_def using trim_right_by_prefix by blast
  have "list_all plain_path_char (trim_right (CHR ''/'') (CHR ''/'' # q))"
    using path by (subst (asm) t) simp
  then show ?thesis by (simp add: plain_path_char_def)
qed

lemma trim_slash_head: "has_prefix (trim_right (CHR ''/'') (CHR ''/'' # q) @ ''/'') ''/''"
proof -
  obtain t where t: "CHR ''/'' # q = trim_right (CHR ''/'') (CHR ''/'' # q) @ t"
    unfolding trim_right_def using trim_right_by_prefix by blast
  then show ?thesis
    by (cases "trim_right (CHR ''/'') (CHR ''/'' # q)") (auto simp: has_prefix_Cons)
qed

definition default_port :: "string \<Rightarrow> string" where
  "default_port scheme = (if scheme = ''https'' then ''443'' else ''80'')"

lemma normalized_plain:
  assumes sch: "list_all is_alpha sch" "to_lower sch = ''https'' \<or> to_lower sch = ''http''"
    and h: "h \<noteq> []" "list_all plain_host_char h" and p: "list_all is_digit p"
    and path: "list_all plain_path_char (CHR ''/'' # q)"
  shows "normalized_auth_endpoint (sch @ ''://'' @ host_port h p @ CHR ''/'' # q) =
     to_lower sch @ ''://''
       @ host_port (to_lower h) (if p = default_port (to_lower sch) then [] else p)
       @ trim_right (CHR ''/'') (CHR ''/'' # q) @ ''/''"
proof -
  let ?lh = "to_lower h" and ?p = "if p = default_port (to_lower sch) then [] else p"
  let ?t = "trim_right (CHR ''/'') (CHR ''/'' # q) @ ''/''"
  have "sch \<noteq> []" using sch(2) by (auto simp: to_lower_def)
  note parse = parse_plain [OF this sch(1) h p path]
  note hp = parse_host_plain [OF h p]
  have lh: "?lh \<noteq> []" "list_all plain_host_char ?lh"
    using h by (auto simp: to_lower_def list_all_iff plain_host_char_def str_simps)
  have p': "list_all is_digit ?p" using p by simp
  note out = parse_host_plain [OF lh p']
  have colon: "CHR '':'' \<notin> set ?lh"
    using lh(2) plain_host_not(3) by (fastforce simp: list_all_iff)
  have no_colon: "\<not> contains ?lh '':''"
  proof
    assume "contains ?lh '':''"
    then have "CHR '':'' \<in> set ?lh"
      by (auto simp: contains_iff sublist_def)
    then show False using colon by simp
  qed
  have low: "to_lower (to_lower sch) = to_lower sch" by (rule to_lower_idem)
  have port: "?p = [] \<or> join_host_port ?lh ?p = host_port ?lh ?p"
    using colon by (simp add: join_host_port_def host_port_def)
  have esc: "escape EncodePath ?t = ?t"
    using trim_slash_plain [OF path] by (rule escape_path_plain)
  have pre: "has_prefix ?t ''/''" by (rule trim_slash_head)
  have str: "url_string (empty_url\<lparr>u_scheme := to_lower sch, u_host := host_port ?lh ?p, u_path := ?t\<rparr>) =
      to_lower sch @ ''://'' @ host_port ?lh ?p @ ?t"
    using sch lh(1) esc pre out(5)
    by (auto simp: url_string_def escaped_path_def empty_url_def host_port_def)
  define u where "u = empty_url\<lparr>u_scheme := to_lower sch, u_host := host_port h p, u_path := CHR ''/'' # q\<rparr>"
  have upd: "\<And>H T. u\<lparr>u_scheme := to_lower sch, u_host := H, u_user := None, u_fragment := [],
      u_path := T, u_raw_path := []\<rparr> = empty_url\<lparr>u_scheme := to_lower sch, u_host := H, u_path := T\<rparr>"
    by (simp add: u_def empty_url_def)
  have parts: "u_scheme u = to_lower sch" "u_host u = host_port h p" "u_path u = CHR ''/'' # q"
    by (simp_all add: u_def)
  have hn: "hostname u = h" and pn: "port u = p"
    using hp(2) by (simp_all add: hostname_def port_def parts)
  have drop: "(if (to_lower sch = ''https'' \<and> p = ''443'') \<or> (to_lower sch = ''http'' \<and> p = ''80'') then [] else p) = ?p"
    using sch(2) by (auto simp: default_port_def)
  have ne: "to_lower sch \<noteq> []" "host_port h p \<noteq> []" using sch(2) h(1) by (auto simp: host_port_def)
  have host: "(if ?p \<noteq> [] then join_host_port ?lh ?p
       else if contains ?lh '':'' then ''['' @ ?lh @ '']'' else ?lh) = host_port ?lh ?p"
    using port no_colon by (auto simp: host_port_def)
  show ?thesis
    unfolding normalized_auth_endpoint_def Let_def parse option.case u_def [symmetric]
    by (simp only: parts ne low hn pn drop host upd str simp_thms if_False)
qed

section \<open>Properties\<close>

lemma normal_tail:
  obtains q' where "trim_right (CHR ''/'') (CHR ''/'' # q) @ ''/'' = CHR ''/'' # q'"
  using trim_slash_head [of q] by (cases "trim_right (CHR ''/'') (CHR ''/'' # q) @ ''/''") (auto simp: has_prefix_def)

lemma trim_slash_twice:
  "trim_right (CHR ''/'') (trim_right (CHR ''/'') s @ ''/'') = trim_right (CHR ''/'') s"
  using trim_right_trailing [of "CHR ''/''" "trim_right (CHR ''/'') s" 1] by (simp add: str_simps)

text \<open>C34: The spellings of an endpoint that differ in the case of scheme and host, the default port and
  trailing slashes have one normal form, which is its own normal form.\<close>

theorem endpoint_normal_form:
  assumes "list_all is_alpha sch" "to_lower sch = ''https'' \<or> to_lower sch = ''http''"
    and "h \<noteq> []" "list_all plain_host_char h" "list_all is_digit p"
    and "list_all plain_path_char (CHR ''/'' # q)"
  defines "n \<equiv> normalized_auth_endpoint (sch @ ''://'' @ host_port h p @ CHR ''/'' # q)"
  shows "n = to_lower sch @ ''://''
       @ host_port (to_lower h) (if p = default_port (to_lower sch) then [] else p)
       @ trim_right (CHR ''/'') (CHR ''/'' # q) @ ''/''
    \<and> normalized_auth_endpoint n = n"
proof -
  let ?p = "if p = default_port (to_lower sch) then [] else p"
  obtain q' where q': "trim_right (CHR ''/'') (CHR ''/'' # q) @ ''/'' = CHR ''/'' # q'"
    by (rule normal_tail)
  have n: "n = to_lower sch @ ''://'' @ host_port (to_lower h) ?p @ CHR ''/'' # q'"
    unfolding n_def q' [symmetric] by (rule normalized_plain [OF assms(1-6)])
  have "list_all is_alpha (to_lower sch)"
    using assms(1) by (auto simp: to_lower_def list_all_iff str_simps)
  moreover have "list_all plain_host_char (to_lower h)" "to_lower h \<noteq> []"
    using assms(3,4) by (auto simp: to_lower_def list_all_iff plain_host_char_def str_simps)
  moreover have "list_all plain_path_char (CHR ''/'' # q')"
    using trim_slash_plain [OF assms(6)] by (simp add: q')
  moreover have "list_all is_digit ?p" using assms(5) by simp
  moreover have "trim_right (CHR ''/'') (CHR ''/'' # q') @ ''/'' = CHR ''/'' # q'"
    using trim_slash_twice [of "CHR ''/'' # q"] q' by simp
  ultimately have "normalized_auth_endpoint n = n"
    unfolding n using assms(2) normalized_plain [of "to_lower sch" "to_lower h" ?p q']
    by (simp add: to_lower_idem)
  then show ?thesis using n q' by simp
qed

lemma endpoint_normal_form_witness:
  "normalized_auth_endpoint ''HTTPS://Api.Example:443/api/2.0//'' = ''https://api.example/api/2.0/''"
proof -
  have "list_all plain_host_char ''Api.Example''" "list_all is_alpha ''HTTPS''"
    "list_all plain_path_char (CHR ''/'' # ''api/2.0//'')" "to_lower ''HTTPS'' = ''https''" by code_simp+
  moreover have "list_all is_digit ''443''" by code_simp
  ultimately have "normalized_auth_endpoint (''HTTPS'' @ ''://'' @ host_port ''Api.Example'' ''443'' @ CHR ''/'' # ''api/2.0//'')
      = to_lower ''HTTPS'' @ ''://'' @ host_port (to_lower ''Api.Example'') [] @ trim_right (CHR ''/'') (CHR ''/'' # ''api/2.0//'') @ ''/''"
    using endpoint_normal_form [of "''HTTPS''" "''Api.Example''" "''443''" "''api/2.0//''"]
    by (simp add: default_port_def)
  moreover have "to_lower ''HTTPS'' @ ''://'' @ host_port (to_lower ''Api.Example'') []
      @ trim_right (CHR ''/'') (CHR ''/'' # ''api/2.0//'') @ ''/'' = ''https://api.example/api/2.0/''" by code_simp
  ultimately show ?thesis by (simp add: host_port_def)
qed

text \<open>The root an authenticator works with has a scheme and ends in a slash whatever base URL it was
  given, and a root given again is kept.\<close>

theorem auth_root_stable:
  "suffix ''/'' (auth_root b) \<and> contains (auth_root b) ''://'' \<and> auth_root (auth_root b) = auth_root b"
  using auth_root_ends auth_root_has_scheme auth_root_idem by blast

end
