(* ===== verification/Go_Json.thy ===== *)
theory Go_Json
  imports Go_Hash
begin

text \<open>
  \<^verbatim>\<open>encoding/json\<close>, as far as the sources use it: the rendering of strings with their HTML
  escapes, the indented printer of \<^verbatim>\<open>MarshalIndent\<close>, and the scanner that reads one value from
  the front of an input. A \<open>json\<close> value keeps its numbers and the inside of its strings as they
  stand in the text, as the decoder does, because a number is read by the type it goes to and a
  \<^verbatim>\<open>time.Time\<close> reads its string without undoing escapes.
\<close>

section \<open>UTF-8\<close>

definition between :: "nat \<Rightarrow> nat \<Rightarrow> char \<Rightarrow> bool" where
  "between lo hi c = (lo \<le> byte c \<and> byte c \<le> hi)"

text \<open>The bytes after the first of a sequence: the second in a range of its own, \<open>n\<close> more.\<close>

fun follow :: "nat \<Rightarrow> nat \<Rightarrow> nat \<Rightarrow> string \<Rightarrow> bool" where
  "follow lo hi n [] = False"
| "follow lo hi 0 (c # s) = between lo hi c"
| "follow lo hi (Suc n) (c # s) = (between lo hi c \<and> follow 128 191 n s)"

text \<open>The size of the rune at the front (\<^verbatim>\<open>utf8.DecodeRune\<close>), 0 where the bytes are none.\<close>

fun rune_len :: "string \<Rightarrow> nat" where
  "rune_len [] = 0"
| "rune_len (c # s) =
     (let b = byte c
      in if b < 128 then 1
         else if 194 \<le> b \<and> b \<le> 223 then (if follow 128 191 0 s then 2 else 0)
         else if b = 224 then (if follow 160 191 1 s then 3 else 0)
         else if b = 237 then (if follow 128 159 1 s then 3 else 0)
         else if 225 \<le> b \<and> b \<le> 239 then (if follow 128 191 1 s then 3 else 0)
         else if b = 240 then (if follow 144 191 2 s then 4 else 0)
         else if 241 \<le> b \<and> b \<le> 243 then (if follow 128 191 2 s then 4 else 0)
         else if b = 244 then (if follow 128 143 2 s then 4 else 0)
         else 0)"

declare rune_len.simps(2) [simp del]

definition replacement :: string where
  "replacement = map char_of [0xEF :: nat, 0xBF, 0xBD]"

fun valid_utf8 :: "string \<Rightarrow> bool" where
  "valid_utf8 [] = True"
| "valid_utf8 (c # s) = (let n = rune_len (c # s) in n \<noteq> 0 \<and> valid_utf8 (drop (n - 1) s))"

text \<open>Every byte that is part of no rune becomes the replacement character.\<close>

fun to_valid :: "string \<Rightarrow> string" where
  "to_valid [] = []"
| "to_valid (c # s) =
     (let n = rune_len (c # s)
      in if n = 0 then replacement @ to_valid s
         else take n (c # s) @ to_valid (drop (n - 1) s))"

lemma follow_length: "follow lo hi n s \<Longrightarrow> Suc n \<le> length s"
  by (induction lo hi n s rule: follow.induct) auto

lemma follow_take: "follow lo hi n s \<Longrightarrow> Suc n \<le> m \<Longrightarrow> follow lo hi n (take m s @ t)"
proof (induction lo hi n s arbitrary: m rule: follow.induct)
  case (2 lo hi c s)
  then show ?case by (cases m) auto
next
  case (3 lo hi n c s)
  then show ?case by (cases m) auto
qed simp

lemma follow_high: "follow lo hi n s \<Longrightarrow> 128 \<le> lo \<Longrightarrow> x \<in> set (take (Suc n) s) \<Longrightarrow> 128 \<le> byte x"
proof (induction lo hi n s rule: follow.induct)
  case (3 lo hi n c s)
  then show ?case by (auto simp: between_def)
qed (auto simp: between_def)

lemma rune_len_ascii [simp]: "byte c < 128 \<Longrightarrow> rune_len (c # s) = 1"
  by (simp add: rune_len.simps(2))

lemma rune_len_cases:
  assumes "rune_len (c # s) = n" "n \<noteq> 0" "\<not> byte c < 128"
  obtains lo hi k where "n = Suc (Suc k)" "128 \<le> lo" "follow lo hi k s"
    and "\<And>t. follow lo hi k t \<Longrightarrow> rune_len (c # t) = n"
proof -
  let ?b = "byte c"
  consider "194 \<le> ?b \<and> ?b \<le> 223" | "?b = 224" | "?b = 237" | "225 \<le> ?b \<and> ?b \<le> 239 \<and> ?b \<noteq> 237" | "?b = 240"
    | "241 \<le> ?b \<and> ?b \<le> 243" | "?b = 244"
    using assms by (fastforce simp: rune_len.simps(2) Let_def split: if_splits)
  then show ?thesis
  proof cases
    case 1
    then show ?thesis using assms by (intro that [of 0 128 191]) (auto simp: rune_len.simps(2) Let_def split: if_splits)
  next
    case 2
    then show ?thesis using assms by (intro that [of 1 160 191]) (auto simp: rune_len.simps(2) Let_def split: if_splits)
  next
    case 3
    then show ?thesis using assms by (intro that [of 1 128 159]) (auto simp: rune_len.simps(2) Let_def split: if_splits)
  next
    case 4
    then show ?thesis using assms by (intro that [of 1 128 191]) (auto simp: rune_len.simps(2) Let_def split: if_splits)
  next
    case 5
    then show ?thesis using assms by (intro that [of 2 144 191]) (auto simp: rune_len.simps(2) Let_def split: if_splits)
  next
    case 6
    then show ?thesis using assms by (intro that [of 2 128 191]) (auto simp: rune_len.simps(2) Let_def split: if_splits)
  next
    case 7
    then show ?thesis using assms by (intro that [of 2 128 143]) (auto simp: rune_len.simps(2) Let_def split: if_splits)
  qed
qed

lemma rune_len_le: "rune_len s \<le> length s"
proof (cases s)
  case (Cons c t)
  show ?thesis
  proof (cases "rune_len s = 0 \<or> byte c < 128")
    case False
    then obtain k lo hi where "rune_len s = Suc (Suc k)" "follow lo hi k t"
      using rune_len_cases [of c t "rune_len s"] Cons by metis
    then show ?thesis using follow_length Cons by fastforce
  qed (auto simp: Cons)
qed simp

lemma rune_len_stable:
  assumes "rune_len s = n" "n \<noteq> 0" "n \<le> m"
  shows "rune_len (take m s @ t) = n"
proof (cases s)
  case (Cons c u)
  obtain m' where m: "m = Suc m'" using assms(2,3) by (cases m) auto
  show ?thesis
  proof (cases "byte c < 128")
    case True
    then show ?thesis using assms Cons m by simp
  next
    case False
    then obtain k lo hi where "n = Suc (Suc k)" "follow lo hi k u"
      and "\<And>t. follow lo hi k t \<Longrightarrow> rune_len (c # t) = n"
      using rune_len_cases [of c u n] assms Cons by metis
    then show ?thesis using follow_take [of lo hi k u m' t] assms(3) Cons m by simp
  qed
qed (use assms in simp)

lemma rune_high:
  assumes "\<not> byte c < 128" "x \<in> set (take (rune_len (c # s)) (c # s))"
  shows "128 \<le> byte x"
proof (cases "rune_len (c # s) = 0")
  case False
  then obtain k lo hi where "rune_len (c # s) = Suc (Suc k)" "128 \<le> lo" "follow lo hi k s"
    using rune_len_cases [of c s "rune_len (c # s)"] assms(1) by metis
  then show ?thesis using follow_high [of lo hi k s x] assms by auto
qed (use assms in simp)

lemma to_valid_id: "valid_utf8 s \<Longrightarrow> to_valid s = s"
proof (induction s rule: valid_utf8.induct)
  case (2 c s)
  obtain n where n: "rune_len (c # s) = Suc n" using 2(2) by (cases "rune_len (c # s)") (auto simp: Let_def)
  then have "to_valid (drop n s) = drop n s" using 2 by (simp add: Let_def)
  then show ?case unfolding to_valid.simps Let_def n by simp
qed simp

section \<open>Strings\<close>

abbreviation quote :: char where "quote \<equiv> CHR 0x22"
abbreviation backslash :: char where "backslash \<equiv> CHR 0x5C"

definition hex_lower :: "nat \<Rightarrow> char" where
  "hex_lower d = ''0123456789abcdef'' ! (d mod 16)"

text \<open>The escapes of an ASCII byte, HTML characters included.\<close>

definition json_char :: "char \<Rightarrow> string" where
  "json_char c =
     (if c = quote then [backslash, quote]
      else if c = backslash then [backslash, backslash]
      else if byte c = 10 then [backslash, CHR ''n'']
      else if byte c = 13 then [backslash, CHR ''r'']
      else if byte c = 9 then [backslash, CHR ''t'']
      else if byte c = 8 then [backslash, CHR ''b'']
      else if byte c = 12 then [backslash, CHR ''f'']
      else if byte c < 32 \<or> c = CHR ''<'' \<or> c = CHR ''>'' \<or> c = CHR ''&''
        then [backslash, CHR ''u'', CHR ''0'', CHR ''0'', hex_lower (byte c div 16), hex_lower (byte c)]
      else [c])"

text \<open>The line and paragraph separators are escaped, other runes are copied, stray bytes become
  an escaped replacement character.\<close>

definition json_rune :: "string \<Rightarrow> string" where
  "json_rune r =
     (if r = map char_of [0xE2 :: nat, 0x80, 0xA8] then backslash # ''u2028''
      else if r = map char_of [0xE2 :: nat, 0x80, 0xA9] then backslash # ''u2029''
      else r)"

fun escape :: "string \<Rightarrow> string" where
  "escape [] = []"
| "escape (c # s) =
     (let n = rune_len (c # s)
      in if byte c < 128 then json_char c @ escape s
         else if n = 0 then (backslash # ''ufffd'') @ escape s
         else json_rune (take n (c # s)) @ escape (drop (n - 1) s))"

definition json_string :: "string \<Rightarrow> string" where
  "json_string s = [quote] @ escape s @ [quote]"

subsection \<open>Reading strings\<close>

definition hex_val :: "char \<Rightarrow> nat" where
  "hex_val c =
     (if byte c \<le> 57 then byte c - 48 else if byte c \<le> 70 then byte c - 55
      else if byte c \<le> 102 then byte c - 87 else 0)"

definition hex4 :: "string \<Rightarrow> nat" where
  "hex4 s = foldl (\<lambda>acc c. acc * 16 + hex_val c) 0 (take 4 s)"

text \<open>The scanner's string state, after the opening quote: the inside and the rest.\<close>

definition simple_escape :: "char \<Rightarrow> bool" where
  "simple_escape e = (e \<in> {quote, backslash, CHR ''/'', CHR ''b'', CHR ''f'', CHR ''n'', CHR ''r'', CHR ''t''})"

definition prepend :: "string \<Rightarrow> (string \<times> 'a) option \<Rightarrow> (string \<times> 'a) option" where
  "prepend p r = (case r of None \<Rightarrow> None | Some (x, s) \<Rightarrow> Some (p @ x, s))"

fun scan_string :: "string \<Rightarrow> (string \<times> string) option" where
  "scan_string [] = None"
| "scan_string (c # s) =
     (if c = quote then Some ([], s)
      else if c = backslash then
        (case s of
           [] \<Rightarrow> None
         | e # t \<Rightarrow>
             if simple_escape e then prepend [c, e] (scan_string t)
             else if e = CHR ''u'' \<and> 4 \<le> length t \<and> list_all is_hex_char (take 4 t)
             then prepend (c # e # take 4 t) (scan_string (drop 4 t))
             else None)
      else if byte c < 32 then None
      else prepend [c] (scan_string s))"

definition encode_rune :: "nat \<Rightarrow> string" where
  "encode_rune r =
     (if r < 0x80 then [char_of r]
      else if r < 0x800 then map char_of [0xC0 + r div 64, 0x80 + r mod 64]
      else if r < 0x10000 then map char_of [0xE0 + r div 4096, 0x80 + r div 64 mod 64, 0x80 + r mod 64]
      else map char_of [0xF0 + r div 262144, 0x80 + r div 4096 mod 64, 0x80 + r div 64 mod 64, 0x80 + r mod 64])"

definition surrogate :: "nat \<Rightarrow> bool" where
  "surrogate r = (0xD800 \<le> r \<and> r < 0xE000)"

text \<open>The second half of a pair that starts with \<open>r\<close>, when the text goes on with one.\<close>

definition paired :: "nat \<Rightarrow> string \<Rightarrow> nat option" where
  "paired r u =
     (let low = hex4 (drop 2 u)
      in if r < 0xDC00 \<and> 6 \<le> length u \<and> take 2 u = [backslash, CHR ''u'']
            \<and> list_all is_hex_char (take 4 (drop 2 u)) \<and> 0xDC00 \<le> low \<and> low < 0xE000
         then Some (0x10000 + (r - 0xD800) * 1024 + (low - 0xDC00)) else None)"

text \<open>The scanner lets no other escapes through than the ones listed here.\<close>

definition unescape :: "char \<Rightarrow> char" where
  "unescape e =
     (if e = CHR ''b'' then char_of (8 :: nat) else if e = CHR ''f'' then char_of (12 :: nat)
      else if e = CHR ''n'' then char_of (10 :: nat) else if e = CHR ''r'' then char_of (13 :: nat)
      else if e = CHR ''t'' then char_of (9 :: nat) else if byte e < 128 then e else CHR ''?'')"

fun unquote :: "string \<Rightarrow> string" where
  "unquote [] = []"
| "unquote (c # s) =
     (if c = backslash then
        (case s of
           [] \<Rightarrow> []
         | e # t \<Rightarrow>
             if e = CHR ''u'' then
               (let r = hex4 t; u = drop 4 t
                in if surrogate r
                   then (case paired r u of
                           Some v \<Rightarrow> encode_rune v @ unquote (drop 6 u)
                         | None \<Rightarrow> replacement @ unquote u)
                   else encode_rune r @ unquote u)
             else unescape e # unquote t)
      else if byte c < 128 then c # unquote s
      else let n = rune_len (c # s)
           in if n = 0 then replacement @ unquote s
              else take n (c # s) @ unquote (drop (n - 1) s))"

declare unquote.simps(2) [simp del] escape.simps(2) [simp del] scan_string.simps(2) [simp del]
  to_valid.simps(2) [simp del] valid_utf8.simps(2) [simp del]

subsection \<open>What is read is what was written\<close>

lemma prepend_simps [simp]:
  "prepend p None = None" "prepend p (Some (x, s)) = Some (p @ x, s)"
  by (simp_all add: prepend_def)

lemma prepend_prepend [simp]: "prepend p (prepend q r) = prepend (p @ q) r"
  by (cases r) auto

lemma prepend_Nil [simp]: "prepend [] r = r"
  by (cases r) auto

text \<open>A piece of text that the scanner passes over inside a string.\<close>

definition scans :: "string \<Rightarrow> bool" where
  "scans p = (\<forall>t. scan_string (p @ t) = prepend p (scan_string t))"

lemma scans_Nil [simp]: "scans []"
  by (simp add: scans_def)

lemma scans_append: "scans p \<Longrightarrow> scans q \<Longrightarrow> scans (p @ q)"
  by (simp add: scans_def)

lemma scan_closed: "scans p \<Longrightarrow> scan_string (p @ quote # t) = Some (p, t)"
  by (simp add: scans_def scan_string.simps(2) [of quote])

lemma scans_Cons: "c \<noteq> quote \<Longrightarrow> c \<noteq> backslash \<Longrightarrow> 32 \<le> byte c \<Longrightarrow> scans p \<Longrightarrow> scans (c # p)"
  by (simp add: scans_def scan_string.simps(2) [of c])

lemma high_plain: "128 \<le> byte c \<Longrightarrow> c \<noteq> quote \<and> c \<noteq> backslash \<and> 32 \<le> byte c"
  by (auto simp: byte_def)

lemma scans_high: "(\<And>x. x \<in> set p \<Longrightarrow> 128 \<le> byte x) \<Longrightarrow> scans p"
proof (induction p)
  case (Cons c p)
  have "128 \<le> byte c" using Cons(2) by simp
  moreover have "scans p" using Cons by simp
  ultimately show ?case using high_plain [of c] by (intro scans_Cons) auto
qed simp

lemma scans_simple: "simple_escape e \<Longrightarrow> scans [backslash, e]"
  by (simp add: scans_def scan_string.simps(2) [of backslash])

lemma is_hex_lower: "is_hex_char (hex_lower d)"
proof -
  have "d mod 16 < length ''0123456789abcdef''" by simp
  then have "hex_lower d \<in> set ''0123456789abcdef''" unfolding hex_lower_def by (rule nth_mem)
  then show ?thesis by (auto simp: is_hex_char_def byte_def)
qed

lemma is_hex_zero [simp]: "is_hex_char (CHR ''0'')"
  by code_simp

lemma scans_hex: "list_all is_hex_char p \<Longrightarrow> length p = 4 \<Longrightarrow> scans (backslash # CHR ''u'' # p)"
  by (simp add: scans_def scan_string.simps(2) [of backslash] simple_escape_def)

lemma scans_char: "scans (json_char c)"
  unfolding json_char_def
  by (auto simp: is_hex_lower simple_escape_def intro!: scans_simple scans_hex scans_Cons)

lemma scans_separator: "scans (backslash # ''u2028'')" "scans (backslash # ''u2029'')" "scans (backslash # ''ufffd'')"
  by (intro scans_hex; code_simp)+

lemma scans_rune:
  assumes "\<not> byte c < 128"
  shows "scans (json_rune (take (rune_len (c # s)) (c # s)))"
  using scans_high [OF rune_high [OF assms, of _ s]] by (auto simp: json_rune_def scans_separator)

lemma scans_escape: "scans (escape s)"
  by (induction s rule: escape.induct)
     (auto simp: escape.simps(2) Let_def simp del: append_Cons
       intro!: scans_append scans_char scans_rune scans_separator)

lemma hex_val_lower [simp]: "hex_val (hex_lower d) = d mod 16"
proof -
  have "list_all (\<lambda>n. hex_val (''0123456789abcdef'' ! n) = n) [0..<16]" by code_simp
  moreover have "d mod 16 \<in> set [0..<16]" by simp
  ultimately show ?thesis unfolding hex_lower_def list_all_iff by blast
qed

lemma hex4_byte: "n < 256 \<Longrightarrow> hex4 (CHR ''0'' # CHR ''0'' # hex_lower (n div 16) # hex_lower n # t) = n"
proof -
  assume "n < 256"
  then have "n div 16 mod 16 * 16 + n mod 16 = n" by (simp add: less_mult_imp_div_less)
  moreover have "hex_val (CHR ''0'') = 0" by code_simp
  ultimately show ?thesis by (simp add: hex4_def)
qed

lemma unquote_plain: "byte c < 128 \<Longrightarrow> c \<noteq> backslash \<Longrightarrow> unquote (c # t) = c # unquote t"
  by (simp add: unquote.simps(2))

lemma unquote_simple: "e \<noteq> CHR ''u'' \<Longrightarrow> unquote (backslash # e # t) = unescape e # unquote t"
  by (simp add: unquote.simps(2))

lemma unquote_hex:
  "\<not> surrogate (hex4 h) \<Longrightarrow> length h = 4 \<Longrightarrow>
     unquote (backslash # CHR ''u'' # h @ t) = encode_rune (hex4 h) @ unquote t"
  by (simp add: unquote.simps(2) hex4_def)

lemma unquote_byte:
  assumes "byte c < 128"
  shows "unquote (backslash # CHR ''u'' # CHR ''0'' # CHR ''0'' # hex_lower (byte c div 16) # hex_lower (byte c) # t)
     = c # unquote t"
proof -
  let ?h = "[CHR ''0'', CHR ''0'', hex_lower (byte c div 16), hex_lower (byte c)]"
  have "hex4 ?h = byte c" using assms by (intro hex4_byte) simp
  then show ?thesis
    using unquote_hex [of ?h t] assms by (simp add: surrogate_def encode_rune_def) (simp add: byte_def)
qed

lemma byte_eq_char: "byte c = n \<Longrightarrow> char_of n = c"
  by (auto simp: byte_def)

lemma unquote_char: "byte c < 128 \<Longrightarrow> unquote (json_char c @ t) = c # unquote t"
  unfolding json_char_def
  by (auto simp: unquote_simple unquote_byte unquote_plain unescape_def byte_eq_char)

lemma unquote_escapes:
  "unquote ((backslash # ''u2028'') @ t) = map char_of [0xE2 :: nat, 0x80, 0xA8] @ unquote t"
  "unquote ((backslash # ''u2029'') @ t) = map char_of [0xE2 :: nat, 0x80, 0xA9] @ unquote t"
  "unquote ((backslash # ''ufffd'') @ t) = replacement @ unquote t"
proof -
  have "encode_rune (hex4 ''2028'') = map char_of [0xE2 :: nat, 0x80, 0xA8]" "\<not> surrogate (hex4 ''2028'')"
    "encode_rune (hex4 ''2029'') = map char_of [0xE2 :: nat, 0x80, 0xA9]" "\<not> surrogate (hex4 ''2029'')"
    "encode_rune (hex4 ''fffd'') = replacement" "\<not> surrogate (hex4 ''fffd'')"
    by (simp_all add: encode_rune_def surrogate_def hex4_def hex_val_def byte_def replacement_def)
  then show "unquote ((backslash # ''u2028'') @ t) = map char_of [0xE2 :: nat, 0x80, 0xA8] @ unquote t"
    "unquote ((backslash # ''u2029'') @ t) = map char_of [0xE2 :: nat, 0x80, 0xA9] @ unquote t"
    "unquote ((backslash # ''ufffd'') @ t) = replacement @ unquote t"
    using unquote_hex [of "''2028''" t] unquote_hex [of "''2029''" t] unquote_hex [of "''fffd''" t] by simp_all
qed

lemma unquote_rune:
  assumes "\<not> byte c < 128" "rune_len (c # s) \<noteq> 0"
  shows "unquote (json_rune (take (rune_len (c # s)) (c # s)) @ t) = take (rune_len (c # s)) (c # s) @ unquote t"
proof -
  let ?n = "rune_len (c # s)"
  let ?r = "take ?n (c # s)"
  obtain u where u: "?r = c # u" using assms(2) by (cases ?n) auto
  have len: "length ?r = ?n" using rune_len_le [of "c # s"] by simp
  have same: "rune_len (?r @ t) = ?n" using assms(2) by (intro rune_len_stable) auto
  have "c \<noteq> backslash" using assms(1) by (auto simp: byte_def)
  then have "unquote (?r @ t) = take ?n (?r @ t) @ unquote (drop ?n (?r @ t))"
    using same assms by (cases ?n) (simp_all add: u unquote.simps(2) Let_def)
  then have "unquote (?r @ t) = ?r @ unquote t" using len by simp
  then show ?thesis using unquote_escapes by (auto simp: json_rune_def)
qed

text \<open>Undoing the escapes gives the string back, with its stray bytes replaced.\<close>

lemma unquote_escape: "unquote (escape s) = to_valid s"
proof (induction s rule: escape.induct)
  case (2 c s)
  then show ?case
    by (auto simp: escape.simps(2) to_valid.simps(2) Let_def unquote_char unquote_escapes unquote_rune
        simp del: append_Cons)
qed simp

lemma unquote_escape_valid: "valid_utf8 s \<Longrightarrow> unquote (escape s) = s"
  by (simp add: unquote_escape to_valid_id)

subsection \<open>What is read is UTF-8\<close>

lemma valid_rune_append:
  assumes "rune_len (p @ t) = length p" "p \<noteq> []" "valid_utf8 t"
  shows "valid_utf8 (p @ t)"
proof (cases p)
  case (Cons c u)
  then have "drop (length p - 1) (u @ t) = t" by simp
  then show ?thesis using assms Cons by (simp add: valid_utf8.simps(2) Let_def)
qed (use assms in simp)

lemma hex_val_lt: "hex_val c < 16"
  by (auto simp: hex_val_def)

lemma hex4_lt: "hex4 s < 65536"
proof -
  have "foldl (\<lambda>acc c. acc * 16 + hex_val c) 0 cs < 16 ^ length cs" for cs
  proof (induction cs rule: rev_induct)
    case (snoc c cs)
    then show ?case using hex_val_lt [of c] by simp
  qed simp
  from this [of "take 4 s"] have "hex4 s < 16 ^ length (take 4 s)" unfolding hex4_def .
  also have "\<dots> \<le> (16::nat) ^ 4" by (rule power_increasing) auto
  finally show ?thesis by simp
qed

lemma rune_len_2:
  "194 \<le> a \<Longrightarrow> a \<le> 223 \<Longrightarrow> 128 \<le> b \<Longrightarrow> b \<le> 191 \<Longrightarrow>
     rune_len (char_of (a :: nat) # char_of (b :: nat) # t) = 2"
  by (simp add: rune_len.simps(2) Let_def between_def byte_char_of)

lemma rune_len_3:
  assumes "a = 224 \<and> 160 \<le> b \<and> b \<le> 191 \<or> a = 237 \<and> 128 \<le> b \<and> b \<le> 159
      \<or> 225 \<le> a \<and> a \<le> 239 \<and> a \<noteq> 237 \<and> 128 \<le> b \<and> b \<le> 191"
    and "128 \<le> c" "c \<le> 191"
  shows "rune_len (char_of (a :: nat) # char_of (b :: nat) # char_of (c :: nat) # t) = 3"
  using assms by (elim disjE) (simp_all add: rune_len.simps(2) Let_def between_def byte_char_of)

lemma rune_len_4:
  assumes "a = 240 \<and> 144 \<le> b \<and> b \<le> 191 \<or> a = 244 \<and> 128 \<le> b \<and> b \<le> 143
      \<or> 241 \<le> a \<and> a \<le> 243 \<and> 128 \<le> b \<and> b \<le> 191"
    and "128 \<le> c" "c \<le> 191" "128 \<le> d" "d \<le> 191"
  shows "rune_len (char_of (a :: nat) # char_of (b :: nat) # char_of (c :: nat) # char_of (d :: nat) # t) = 4"
  using assms
  by (elim disjE) (simp_all add: rune_len.simps(2) Let_def between_def byte_char_of numeral_2_eq_2)

lemma div_parts: "(k :: nat) = 64 * (k div 64) + k mod 64" "k mod 64 < 64"
  by simp_all

lemma encode_rune_len:
  assumes "r < 0x110000" "\<not> surrogate r"
  shows "rune_len (encode_rune r @ t) = length (encode_rune r) \<and> encode_rune r \<noteq> []"
proof -
  define c6 k where k: "c6 = r mod 64" "k = r div 64"
  define b6 j where j: "b6 = k mod 64" "j = k div 64"
  define a6 q where q: "a6 = j mod 64" "q = j div 64"
  have parts: "r = 64 * k + c6" "c6 < 64" "k = 64 * j + b6" "b6 < 64" "j = 64 * q + a6" "a6 < 64"
    unfolding k j q by (rule div_parts)+
  have divs: "r div 4096 = j" "r div 262144 = q" "r div 64 mod 64 = b6" "r div 4096 mod 64 = a6"
    by (simp_all add: k j q flip: div_mult2_eq)
  consider "r < 0x80" | "0x80 \<le> r" "r < 0x800" | "0x800 \<le> r" "r < 0x10000" | "0x10000 \<le> r" by linarith
  then show ?thesis
  proof cases
    case 1
    then show ?thesis by (simp add: encode_rune_def byte_char_of)
  next
    case 2
    have "encode_rune r = [char_of (192 + k), char_of (128 + c6)]" using 2 by (simp add: encode_rune_def flip: k)
    moreover have "2 \<le> k" "k < 32" using 2 parts by linarith+
    ultimately show ?thesis using rune_len_2 [of "192 + k" "128 + c6" t] parts by simp
  next
    case 3
    have "encode_rune r = [char_of (224 + j), char_of (128 + b6), char_of (128 + c6)]"
      using 3 by (simp add: encode_rune_def divs flip: k j q)
    moreover have "j = 0 \<Longrightarrow> 32 \<le> b6" "j < 16" using 3 parts by linarith+
    moreover have "j = 13 \<Longrightarrow> b6 < 32" using assms(2) parts unfolding surrogate_def by linarith
    ultimately show ?thesis using rune_len_3 [of "224 + j" "128 + b6" "128 + c6" t] parts
      by (cases "j = 0"; cases "j = 13") auto
  next
    case 4
    have "encode_rune r = [char_of (240 + q), char_of (128 + a6), char_of (128 + b6), char_of (128 + c6)]"
      using 4 by (simp add: encode_rune_def divs flip: k j q)
    moreover have "q = 0 \<Longrightarrow> 16 \<le> a6" "q < 5" "q = 4 \<Longrightarrow> a6 < 16" using 4 assms(1) parts by linarith+
    ultimately show ?thesis using rune_len_4 [of "240 + q" "128 + a6" "128 + b6" "128 + c6" t] parts
      by (cases "q = 0"; cases "q = 4") auto
  qed
qed

lemma valid_encode_rune: "r < 0x110000 \<Longrightarrow> \<not> surrogate r \<Longrightarrow> valid_utf8 t \<Longrightarrow> valid_utf8 (encode_rune r @ t)"
  using encode_rune_len [of r t] by (intro valid_rune_append) auto

lemma valid_replacement: "valid_utf8 t \<Longrightarrow> valid_utf8 (replacement @ t)"
proof -
  have "encode_rune 0xFFFD = replacement" by (simp add: encode_rune_def replacement_def)
  moreover assume "valid_utf8 t"
  ultimately show ?thesis using valid_encode_rune [of "0xFFFD" t] by (simp add: surrogate_def)
qed

lemma valid_ascii: "byte c < 128 \<Longrightarrow> valid_utf8 t \<Longrightarrow> valid_utf8 (c # t)"
  by (simp add: valid_utf8.simps(2))

lemma valid_utf8_ascii: "list_all (\<lambda>c. byte c < 128) s \<Longrightarrow> valid_utf8 s"
  by (induction s) (simp_all add: valid_ascii)

lemma paired_range: "paired r u = Some v \<Longrightarrow> surrogate r \<Longrightarrow> v < 0x110000 \<and> \<not> surrogate v"
  by (auto simp: paired_def surrogate_def Let_def split: if_splits)

lemma unescape_ascii: "byte (unescape e) < 128"
  by (simp add: unescape_def byte_char_of) (simp add: byte_def)

lemma valid_unquote: "valid_utf8 (unquote s)"
proof (induction s rule: unquote.induct)
  case (2 c s)
  show ?case
  proof (cases "c = backslash")
    case esc: True
    show ?thesis
    proof (cases s)
      case Nil
      then show ?thesis using esc by (simp add: unquote.simps(2))
    next
      case (Cons e t)
      show ?thesis
      proof (cases "e = CHR ''u''")
        case True
        have "hex4 t < 0x110000" using hex4_lt [of t] by simp
        then show ?thesis
          using 2(1-3) [OF esc Cons True refl refl] esc True
          by (auto simp: unquote.simps(2) [of backslash] Cons Let_def split: option.splits dest: paired_range
              intro!: valid_encode_rune valid_replacement)
      next
        case False
        then show ?thesis
          using 2(4) [OF esc Cons False] esc
          by (simp add: unquote.simps(2) [of backslash] Cons valid_ascii unescape_ascii)
      qed
    qed
  next
    case plain: False
    show ?thesis
    proof (cases "byte c < 128")
      case True
      then show ?thesis using 2(5) plain by (simp add: unquote_plain valid_ascii)
    next
      case False
      show ?thesis
      proof (cases "rune_len (c # s) = 0")
        case True
        then show ?thesis using 2(6) plain False
          by (simp add: unquote.simps(2) [of c] Let_def valid_replacement)
      next
        case rune: False
        let ?n = "rune_len (c # s)"
        have "rune_len (take ?n (c # s) @ unquote (drop (?n - 1) s)) = ?n"
          using rune by (intro rune_len_stable) auto
        moreover have "length (take ?n (c # s)) = ?n" using rune_len_le [of "c # s"] by simp
        moreover have "valid_utf8 (unquote (drop (?n - 1) s))" using 2(7) plain False rune by simp
        ultimately have "valid_utf8 (take ?n (c # s) @ unquote (drop (?n - 1) s))"
          using rune by (intro valid_rune_append) auto
        then show ?thesis using plain False rune by (simp add: unquote.simps(2) [of c] Let_def)
      qed
    qed
  qed
qed simp

section \<open>Values\<close>

datatype json = JNull | JBool bool | JNum string | JStr string | JArr "json list" | JObj "(string \<times> json) list"

definition scan_digits :: "string \<Rightarrow> (string \<times> string) option" where
  "scan_digits s =
     (let d = takeWhile is_digit s in if d = [] then None else Some (d, dropWhile is_digit s))"

definition scan_then ::
  "(string \<times> string) option \<Rightarrow> (string \<Rightarrow> (string \<times> string) option) \<Rightarrow> (string \<times> string) option" where
  "scan_then r f = (case r of None \<Rightarrow> None | Some (x, s) \<Rightarrow> prepend x (f s))"

definition scan_integer :: "string \<Rightarrow> (string \<times> string) option" where
  "scan_integer s =
     (case s of [] \<Rightarrow> None | c # t \<Rightarrow> if c = CHR ''0'' then Some ([c], t) else scan_digits s)"

definition scan_fraction :: "string \<Rightarrow> (string \<times> string) option" where
  "scan_fraction s =
     (case s of [] \<Rightarrow> Some ([], [])
      | c # t \<Rightarrow> if c = CHR ''.'' then prepend [c] (scan_digits t) else Some ([], s))"

definition scan_exponent :: "string \<Rightarrow> (string \<times> string) option" where
  "scan_exponent s =
     (case s of [] \<Rightarrow> Some ([], [])
      | c # t \<Rightarrow>
          if c = CHR ''e'' \<or> c = CHR ''E''
          then prepend [c]
                 (case t of [] \<Rightarrow> None
                  | d # u \<Rightarrow> if d = CHR ''+'' \<or> d = CHR ''-'' then prepend [d] (scan_digits u) else scan_digits t)
          else Some ([], s))"

definition scan_magnitude :: "string \<Rightarrow> (string \<times> string) option" where
  "scan_magnitude s = scan_then (scan_integer s) (\<lambda>u. scan_then (scan_fraction u) scan_exponent)"

definition scan_number :: "string \<Rightarrow> (string \<times> string) option" where
  "scan_number s =
     (case s of [] \<Rightarrow> None
      | c # t \<Rightarrow> if c = CHR ''-'' then prepend [c] (scan_magnitude t) else scan_magnitude s)"

definition json_space :: "char \<Rightarrow> bool" where
  "json_space c = (byte c = 32 \<or> byte c = 9 \<or> byte c = 10 \<or> byte c = 13)"

definition skip_space :: "string \<Rightarrow> string" where
  "skip_space s = dropWhile json_space s"

definition scan_word :: "string \<Rightarrow> json \<Rightarrow> string \<Rightarrow> (json \<times> string) option" where
  "scan_word word j s = (if has_prefix s word then Some (j, drop (length word) s) else None)"

definition atom :: "(string \<Rightarrow> json) \<Rightarrow> (string \<times> string) option \<Rightarrow> (json \<times> string) option" where
  "atom f r = map_option (\<lambda>(x, s). (f x, s)) r"

text \<open>
  One value from the front, and the rest. The first argument bounds the nesting of calls;
  \<open>parse_json\<close> gives more of it than any input can use (\<open>parse_fuel_enough\<close>). The scanner's own
  limit of 10000 open brackets is left out: a record nests three deep, so that a value nested
  deeper is refused when it is decoded.
\<close>

fun parse_value :: "nat \<Rightarrow> string \<Rightarrow> (json \<times> string) option"
  and parse_elems :: "nat \<Rightarrow> string \<Rightarrow> (json list \<times> string) option"
  and parse_members :: "nat \<Rightarrow> string \<Rightarrow> ((string \<times> json) list \<times> string) option"
where
  "parse_value 0 s = None"
| "parse_value (Suc n) s =
     (case skip_space s of
        [] \<Rightarrow> None
      | c # t \<Rightarrow>
          if c = CHR ''{'' then
            (case skip_space t of
               [] \<Rightarrow> None
             | d # u \<Rightarrow> if d = CHR ''}'' then Some (JObj [], u)
                        else map_option (\<lambda>(ms, r). (JObj ms, r)) (parse_members n t))
          else if c = CHR ''['' then
            (case skip_space t of
               [] \<Rightarrow> None
             | d # u \<Rightarrow> if d = CHR '']'' then Some (JArr [], u)
                        else map_option (\<lambda>(js, r). (JArr js, r)) (parse_elems n t))
          else if c = quote then atom JStr (scan_string t)
          else if c = CHR ''n'' then scan_word ''null'' JNull (c # t)
          else if c = CHR ''t'' then scan_word ''true'' (JBool True) (c # t)
          else if c = CHR ''f'' then scan_word ''false'' (JBool False) (c # t)
          else atom JNum (scan_number (c # t)))"
| "parse_elems 0 s = None"
| "parse_elems (Suc n) s =
     (case parse_value n s of
        None \<Rightarrow> None
      | Some (j, r) \<Rightarrow>
          (case skip_space r of
             [] \<Rightarrow> None
           | c # t \<Rightarrow>
               if c = CHR '']'' then Some ([j], t)
               else if c = CHR '','' then map_option (\<lambda>(js, u). (j # js, u)) (parse_elems n t)
               else None))"
| "parse_members 0 s = None"
| "parse_members (Suc n) s =
     (case skip_space s of
        [] \<Rightarrow> None
      | q # t \<Rightarrow>
          if q \<noteq> quote then None
          else
            (case scan_string t of
               None \<Rightarrow> None
             | Some (k, u) \<Rightarrow>
                 (case skip_space u of
                    [] \<Rightarrow> None
                  | c # v \<Rightarrow>
                      if c \<noteq> CHR '':'' then None
                      else
                        (case parse_value n v of
                           None \<Rightarrow> None
                         | Some (j, r) \<Rightarrow>
                             (case skip_space r of
                                [] \<Rightarrow> None
                              | d # x \<Rightarrow>
                                  if d = CHR ''}'' then Some ([(k, j)], x)
                                  else if d = CHR '','' then
                                    map_option (\<lambda>(ms, y). ((k, j) # ms, y)) (parse_members n x)
                                  else None)))))"

definition parse_json :: "string \<Rightarrow> (json \<times> string) option" where
  "parse_json s = parse_value (2 * length s + 1) s"

text \<open>\<^verbatim>\<open>MarshalIndent\<close> with no prefix and two blanks for every level; \<open>print_compact\<close> is \<^verbatim>\<open>Marshal\<close>.\<close>

definition newline :: "nat \<Rightarrow> string" where
  "newline d = CHR 0x0A # replicate (2 * d) (CHR '' '')"

fun print_value :: "nat \<Rightarrow> json \<Rightarrow> string"
  and print_elems :: "nat \<Rightarrow> json list \<Rightarrow> string"
  and print_members :: "nat \<Rightarrow> (string \<times> json) list \<Rightarrow> string"
where
  "print_value d JNull = ''null''"
| "print_value d (JBool b) = (if b then ''true'' else ''false'')"
| "print_value d (JNum n) = n"
| "print_value d (JStr s) = [quote] @ s @ [quote]"
| "print_value d (JArr js) =
     (if js = [] then ''[]'' else ''['' @ print_elems (Suc d) js @ newline d @ '']'')"
| "print_value d (JObj ms) =
     (if ms = [] then ''{}'' else ''{'' @ print_members (Suc d) ms @ newline d @ ''}'')"
| "print_elems d [] = []"
| "print_elems d (j # js) =
     newline d @ print_value d j @ (if js = [] then [] else '','' @ print_elems d js)"
| "print_members d [] = []"
| "print_members d ((k, j) # ms) =
     newline d @ [quote] @ k @ [quote] @ '': '' @ print_value d j
       @ (if ms = [] then [] else '','' @ print_members d ms)"

definition show_int :: "int \<Rightarrow> string" where
  "show_int n = (if n < 0 then CHR ''-'' # show_nat (nat (- n)) else show_nat (nat n))"

section \<open>A printed value is read back\<close>

definition stops :: "string \<Rightarrow> bool" where
  "stops t = (case t of [] \<Rightarrow> True
     | c # _ \<Rightarrow> \<not> is_digit c \<and> c \<noteq> CHR ''.'' \<and> c \<noteq> CHR ''e'' \<and> c \<noteq> CHR ''E'')"

definition number_ok :: "string \<Rightarrow> bool" where
  "number_ok n = (n \<noteq> [] \<and> (is_digit (hd n) \<or> hd n = CHR ''-'')
     \<and> (\<forall>t. stops t \<longrightarrow> scan_number (n @ t) = Some (n, t)))"

primrec json_ok :: "json \<Rightarrow> bool" where
  "json_ok JNull = True"
| "json_ok (JBool b) = True"
| "json_ok (JNum n) = number_ok n"
| "json_ok (JStr s) = scans s"
| "json_ok (JArr js) = list_all id (map json_ok js)"
| "json_ok (JObj ms) = list_all (\<lambda>(k, ok). scans k \<and> ok) (map (map_prod id json_ok) ms)"

lemma skip_space_ws: "list_all json_space ws \<Longrightarrow> skip_space (ws @ s) = skip_space s"
  by (induction ws) (simp_all add: skip_space_def)

lemma skip_space_none: "\<not> json_space c \<Longrightarrow> skip_space (c # s) = c # s"
  by (simp add: skip_space_def)

lemma newline_space: "list_all json_space (newline d)"
  by (auto simp: newline_def json_space_def byte_def list_all_iff)

lemma length_newline [simp]: "length (newline d) = Suc (2 * d)"
  by (simp add: newline_def)

lemmas skip_newline [simp] = skip_space_ws [OF newline_space]

lemma not_space [simp]:
  "\<not> json_space (CHR ''{'')" "\<not> json_space (CHR ''}'')" "\<not> json_space (CHR ''['')" "\<not> json_space (CHR '']'')"
  "\<not> json_space (CHR '','')" "\<not> json_space (CHR '':'')" "\<not> json_space quote"
  by (simp_all add: json_space_def byte_def)

lemma parse_value_newline [simp]: "parse_value n (newline d @ s) = parse_value n s"
  by (cases n) simp_all

lemma parse_value_blank [simp]: "parse_value n (CHR '' '' # s) = parse_value n s"
  by (cases n) (simp_all add: skip_space_def json_space_def byte_def)

lemma stops_simps [simp]:
  "stops []" "stops (CHR '','' # t)" "stops (newline d @ t)"
  by (simp_all add: stops_def newline_def is_digit_def byte_def)

lemma number_head: "is_digit c \<or> c = CHR ''-'' \<Longrightarrow> \<not> json_space c \<and> c \<noteq> CHR ''{'' \<and> c \<noteq> CHR ''[''
    \<and> c \<noteq> quote \<and> c \<noteq> CHR ''n'' \<and> c \<noteq> CHR ''t'' \<and> c \<noteq> CHR ''f'' \<and> c \<noteq> CHR '']''"
  by (auto simp: is_digit_def json_space_def byte_def)

lemma print_head:
  "json_ok j \<Longrightarrow> \<exists>c u. print_value d j = c # u \<and> \<not> json_space c \<and> c \<noteq> CHR '']''"
proof (cases j)
  case (JNum n)
  assume "json_ok j"
  then have "n \<noteq> []" "is_digit (hd n) \<or> hd n = CHR ''-''" using JNum by (auto simp: number_ok_def)
  then show ?thesis using number_head [of "hd n"] JNum by (cases n) auto
qed (auto simp: json_space_def byte_def)

lemma parse_number:
  assumes "number_ok n" "stops t"
  shows "parse_value (Suc k) (n @ t) = Some (JNum n, t)"
proof -
  obtain c u where n: "n = c # u" using assms(1) by (cases n) (auto simp: number_ok_def)
  have "scan_number (c # u @ t) = Some (c # u, t)" using assms n by (simp add: number_ok_def)
  then show ?thesis
    using number_head [of c] assms(1) n by (simp add: skip_space_none number_ok_def atom_def)
qed

lemma parse_words:
  "parse_value (Suc k) (''null'' @ t) = Some (JNull, t)"
  "parse_value (Suc k) (''true'' @ t) = Some (JBool True, t)"
  "parse_value (Suc k) (''false'' @ t) = Some (JBool False, t)"
  by (simp_all add: skip_space_def json_space_def byte_def scan_word_def has_prefix_def)

lemma parse_string: "scans s \<Longrightarrow> parse_value (Suc k) ([quote] @ s @ [quote] @ t) = Some (JStr s, t)"
  by (simp add: skip_space_none scan_closed atom_def)

lemma parse_print:
  "json_ok j \<Longrightarrow> stops t \<Longrightarrow> length (print_value d j) \<le> n \<Longrightarrow>
     parse_value n (print_value d j @ t) = Some (j, t)"
  "js \<noteq> [] \<Longrightarrow> list_all json_ok js \<Longrightarrow> length (print_elems d js) \<le> n \<Longrightarrow>
     parse_elems n (print_elems d js @ newline e @ CHR '']'' # t) = Some (js, t)"
  "ms \<noteq> [] \<Longrightarrow> list_all (\<lambda>(k, j). scans k \<and> json_ok j) ms \<Longrightarrow> length (print_members d ms) \<le> n \<Longrightarrow>
     parse_members n (print_members d ms @ newline e @ CHR ''}'' # t) = Some (ms, t)"
proof (induction d j and d js and d ms arbitrary: n t and n e t and n e t
    rule: print_value_print_elems_print_members.induct)
  case (1 d)
  then show ?case using parse_words(1) [of _ t] by (cases n) auto
next
  case (2 d b)
  then show ?case using parse_words(2,3) [of _ t] by (cases n) (auto split: if_splits)
next
  case (3 d m)
  then show ?case using parse_number [of m t] by (cases n) (auto simp: number_ok_def)
next
  case (4 d s)
  then show ?case using parse_string [of s _ t] by (cases n) auto
next
  case (5 d js)
  show ?case
  proof (cases js)
    case Nil
    then show ?thesis using 5 by (cases n) (auto simp: skip_space_none)
  next
    case (Cons j js')
    obtain m where n: "n = Suc m" "length (print_elems (Suc d) js) \<le> m"
      using 5(4) Cons by (cases n) auto
    have ok: "list_all json_ok js" using 5(2) by (simp add: list_all_iff)
    obtain c u where head: "print_value (Suc d) j = c # u" "\<not> json_space c" "c \<noteq> CHR '']''"
      using print_head [of j "Suc d"] ok Cons by auto
    have "parse_elems m (print_elems (Suc d) js @ newline d @ CHR '']'' # t) = Some (js, t)"
      using 5(1) ok n(2) Cons by simp
    then show ?thesis using head by (simp add: Cons n(1) skip_space_none)
  qed
next
  case (6 d ms)
  show ?case
  proof (cases ms)
    case Nil
    then show ?thesis using 6 by (cases n) (auto simp: skip_space_none)
  next
    case (Cons m ms')
    obtain l where n: "n = Suc l" "length (print_members (Suc d) ms) \<le> l"
      using 6(4) Cons by (cases n) auto
    have ok: "list_all (\<lambda>(k, j). scans k \<and> json_ok j) ms" using 6(2) by (auto simp: list_all_iff)
    have "parse_members l (print_members (Suc d) ms @ newline d @ CHR ''}'' # t) = Some (ms, t)"
      using 6(1) ok n(2) Cons by simp
    then show ?thesis by (cases m) (simp add: Cons n(1) skip_space_none)
  qed
next
  case (7 d)
  then show ?case by simp
next
  case (8 d j js)
  obtain m where n: "n = Suc m" using 8(5) by (cases n) (auto simp: newline_def)
  have j: "parse_value m (print_value d j @ s) = Some (j, s)" if "stops s" for s
    using 8(1) [of s m] 8(4,5) that n by simp
  show ?case
  proof (cases "js = []")
    case True
    then show ?thesis using j by (simp add: n skip_space_none)
  next
    case False
    have "parse_elems m (print_elems d js @ newline e @ CHR '']'' # t) = Some (js, t)"
      using 8(2) [of m e t] False 8(4,5) n by simp
    then show ?thesis using j False by (simp add: n skip_space_none)
  qed
next
  case (9 d)
  then show ?case by simp
next
  case (10 d k j ms)
  obtain m where n: "n = Suc m" using 10(5) by (cases n) (auto simp: newline_def)
  have j: "parse_value m (print_value d j @ s) = Some (j, s)" if "stops s" for s
    using 10(1) [of s m] 10(4,5) that n by simp
  have k: "scan_string (k @ quote # s) = Some (k, s)" for s using 10(4) by (simp add: scan_closed)
  show ?case
  proof (cases "ms = []")
    case True
    then show ?thesis using j k by (simp add: n skip_space_none)
  next
    case False
    have "parse_members m (print_members d ms @ newline e @ CHR ''}'' # t) = Some (ms, t)"
      using 10(2) [of m e t] False 10(4,5) n by simp
    then show ?thesis using j k False by (simp add: n skip_space_none)
  qed
qed

lemma parse_print_json: "json_ok j \<Longrightarrow> stops t \<Longrightarrow> parse_json (print_value d j @ t) = Some (j, t)"
  unfolding parse_json_def by (rule parse_print(1)) auto

section \<open>Fuel\<close>

lemma skip_space_le: "length (skip_space s) \<le> length s"
  by (simp add: skip_space_def length_dropWhile_le)

lemma skip_space_Cons_le: "skip_space s = c # t \<Longrightarrow> length t < length s"
  using skip_space_le [of s] by simp

lemma prepend_Some: "prepend p r = Some (x, s) \<Longrightarrow> \<exists>y. r = Some (y, s)"
  by (auto simp: prepend_def split: option.splits)

lemma scan_string_le: "scan_string s = Some (p, r) \<Longrightarrow> length r < length s"
proof (induction s arbitrary: p rule: scan_string.induct)
  case (2 c s)
  show ?case
  proof (cases "c = quote \<or> byte c < 32 \<and> c \<noteq> backslash")
    case True
    then show ?thesis using 2(4) by (auto simp: scan_string.simps(2) split: if_splits)
  next
    case not_end: False
    show ?thesis
    proof (cases "c = backslash")
      case False
      then obtain y where "scan_string s = Some (y, r)"
        using 2(4) not_end by (auto simp: scan_string.simps(2) dest: prepend_Some)
      then show ?thesis using 2(3) False not_end by fastforce
    next
      case True
      then obtain e t where s: "s = e # t" using 2(4) by (cases s) (auto simp: scan_string.simps(2))
      show ?thesis
      proof (cases "simple_escape e")
        case simple: True
        then obtain y where "scan_string t = Some (y, r)"
          using 2(4) True s by (auto simp: scan_string.simps(2) dest: prepend_Some)
        then have "length r < length t" using 2(1) True s simple by auto
        then show ?thesis using s by simp
      next
        case False
        then have hex: "e = CHR ''u'' \<and> 4 \<le> length t \<and> list_all is_hex_char (take 4 t)"
          using 2(4) True s by (simp add: scan_string.simps(2) split: if_splits)
        then obtain y where "scan_string (drop 4 t) = Some (y, r)"
          using 2(4) True s False by (auto simp: scan_string.simps(2) dest: prepend_Some)
        then have "length r < length (drop 4 t)" using 2(2) True s False hex by auto
        then show ?thesis using s by simp
      qed
    qed
  qed
qed simp

lemma scan_digits_le: "scan_digits s = Some (d, r) \<Longrightarrow> length r < length s"
proof -
  assume some: "scan_digits s = Some (d, r)"
  have "length (takeWhile is_digit s) + length (dropWhile is_digit s) = length s"
    by (metis length_append takeWhile_dropWhile_id)
  moreover have "takeWhile is_digit s \<noteq> []" "r = dropWhile is_digit s"
    using some by (auto simp: scan_digits_def Let_def split: if_splits)
  ultimately show ?thesis by (cases "takeWhile is_digit s") auto
qed

lemma scan_then_Some:
  "scan_then r f = Some (x, s) \<Longrightarrow> \<exists>y t z. r = Some (y, t) \<and> f t = Some (z, s)"
  by (auto simp: scan_then_def split: option.splits dest: prepend_Some)

lemma scan_integer_le: "scan_integer s = Some (d, r) \<Longrightarrow> length r < length s"
  by (auto simp: scan_integer_def split: list.splits if_splits dest: scan_digits_le)

lemma scan_fraction_le: "scan_fraction s = Some (d, r) \<Longrightarrow> length r \<le> length s"
  by (fastforce simp: scan_fraction_def split: list.splits if_splits dest: prepend_Some scan_digits_le)

lemma scan_exponent_le: "scan_exponent s = Some (d, r) \<Longrightarrow> length r \<le> length s"
  by (fastforce simp: scan_exponent_def split: list.splits if_splits dest: prepend_Some scan_digits_le)

lemma scan_magnitude_le: "scan_magnitude s = Some (d, r) \<Longrightarrow> length r < length s"
  unfolding scan_magnitude_def
  by (fastforce dest!: scan_then_Some dest: scan_integer_le scan_fraction_le scan_exponent_le)

lemma scan_number_le: "scan_number s = Some (d, r) \<Longrightarrow> length r < length s"
  by (fastforce simp: scan_number_def split: list.splits if_splits dest: prepend_Some scan_magnitude_le)

lemma scan_word_le: "scan_word w j s = Some (k, r) \<Longrightarrow> w \<noteq> [] \<Longrightarrow> s \<noteq> [] \<Longrightarrow> length r < length s"
  by (auto simp: scan_word_def split: if_splits)

lemma atom_Some: "atom f r = Some (j, s) \<Longrightarrow> \<exists>x. r = Some (x, s)"
  by (auto simp: atom_def)

lemma leaf_le:
  "atom f (scan_string t) = Some (j, r) \<Longrightarrow> length r < Suc (length t)"
  "atom f (scan_number (c # t)) = Some (j, r) \<Longrightarrow> length r < Suc (length t)"
  "scan_word (d # w) k (c # t) = Some (j, r) \<Longrightarrow> length r < Suc (length t)"
  by (fastforce dest: atom_Some scan_string_le scan_number_le scan_word_le)+

lemma parse_le:
  "parse_value n s = Some (j, r) \<Longrightarrow> length r < length s"
  "parse_elems n s = Some (js, r) \<Longrightarrow> length r < length s"
  "parse_members n s = Some (ms, r) \<Longrightarrow> length r < length s"
proof (induction n s and n s and n s arbitrary: j r and js r and ms r
    rule: parse_value_parse_elems_parse_members.induct)
  case (2 n s)
  obtain c t where s: "skip_space s = c # t" using 2(3) by (auto split: list.splits)
  have t: "length t < length s" using skip_space_Cons_le [OF s] .
  have "length r < length (c # t)"
  proof (cases "c = CHR ''{'' \<or> c = CHR ''[''")
    case True
    then obtain d u where u: "skip_space t = d # u" using 2(3) s by (auto split: list.splits)
    have "length u < length t" using skip_space_Cons_le [OF u] .
    show ?thesis
    proof (cases "d = CHR ''}'' \<and> c = CHR ''{'' \<or> d = CHR '']'' \<and> c = CHR ''[''")
      case True
      then show ?thesis using 2(3) s u \<open>length u < length t\<close> by (auto split: if_splits)
    next
      case False
      then show ?thesis using 2(1) [OF s _ u] 2(2) [OF s _ _ u] 2(3) s u \<open>c = _ \<or> c = _\<close> by (auto split: if_splits)
    qed
  next
    case False
    then show ?thesis
      using 2(3) s by (auto split: if_splits intro: leaf_le)
  qed
  then show ?case using s skip_space_le [of s] by simp
next
  case (4 n s)
  obtain j u where j: "parse_value n s = Some (j, u)" using 4(3) by (auto split: option.splits)
  obtain c t where t: "skip_space u = c # t" using 4(3) j by (auto split: list.splits)
  have "length u < length s" "length t < length u" using 4(1) j t skip_space_Cons_le by auto
  then show ?case using 4(2) [OF j refl t] 4(3) j t by (fastforce split: if_splits)
next
  case (6 n s)
  obtain q t where q: "skip_space s = q # t" using 6(3) by (auto split: list.splits)
  obtain k u where k: "q = quote" "scan_string t = Some (k, u)"
    using 6(3) q by (auto split: option.splits if_splits)
  obtain c v where c: "skip_space u = c # v" "c = CHR '':''"
    using 6(3) q k by (auto split: list.splits if_splits)
  obtain j w where j: "parse_value n v = Some (j, w)" using 6(3) q k c by (auto split: option.splits)
  obtain d x where d: "skip_space w = d # x" using 6(3) q k c j by (auto split: list.splits)
  have "length t < length s" "length u < length t" "length v < length u" "length x < length w"
    using q k c d skip_space_Cons_le scan_string_le by blast+
  moreover have "length w < length v" using 6(1) q k c j by fastforce
  ultimately show ?case using 6 q k c j d by (fastforce split: if_splits)
qed simp_all

text \<open>More fuel than twice the length changes nothing.\<close>

lemma parse_fuel:
  "2 * length s < n \<Longrightarrow> 2 * length s < m \<Longrightarrow> parse_value n s = parse_value m s"
  "2 * length s + 1 < n \<Longrightarrow> 2 * length s + 1 < m \<Longrightarrow> parse_elems n s = parse_elems m s"
  "2 * length s + 1 < n \<Longrightarrow> 2 * length s + 1 < m \<Longrightarrow> parse_members n s = parse_members m s"
proof (induction n s and n s and n s arbitrary: m and m and m
    rule: parse_value_parse_elems_parse_members.induct)
  case (2 n s)
  obtain k where m: "m = Suc k" using 2(4) by (cases m) auto
  show ?case
  proof (cases "skip_space s")
    case (Cons c t)
    then have "2 * length t + 1 < n" "2 * length t + 1 < k"
      using skip_space_Cons_le [OF Cons] 2(3,4) m by auto
    then show ?thesis
      using 2(1) [OF Cons, of _ _ k] 2(2) [OF Cons, of _ _ k] Cons
      by (cases "skip_space t") (auto simp: m)
  qed (simp add: m)
next
  case (4 n s)
  obtain k where m: "m = Suc k" using 4(4) by (cases m) auto
  have same: "parse_value n s = parse_value k s" using 4(1) [of k] 4(3,4) m by simp
  show ?case
  proof (cases "parse_value n s")
    case None
    then show ?thesis using same by (simp add: m)
  next
    case (Some r)
    obtain j u where r: "r = (j, u)" by (cases r)
    show ?thesis
    proof (cases "skip_space u")
      case Nil
      then show ?thesis using Some r same by (simp add: m)
    next
      case (Cons c t)
      have "length u < length s" "length t < length u"
        using parse_le(1) Some r skip_space_Cons_le [OF Cons] by auto
      then have "2 * length t + 1 < n" "2 * length t + 1 < k" using 4(3,4) m by auto
      then have tail: "parse_elems n t = parse_elems k t" if "c = CHR '',''"
        using 4(2) [OF Some r [symmetric] Cons, of k] that by simp
      have "parse_value n s = Some (j, u)" "parse_value k s = Some (j, u)" using Some r same by simp_all
      then show ?thesis using Cons tail by (simp add: m)
    qed
  qed
next
  case (6 n s)
  obtain k where m: "m = Suc k" using 6(4) by (cases m) auto
  show ?case
  proof (cases "\<exists>t key u v. skip_space s = quote # t \<and> scan_string t = Some (key, u) \<and> skip_space u = CHR '':'' # v")
    case False
    then show ?thesis by (auto simp: m split: list.splits option.splits prod.splits if_splits)
  next
    case True
    then obtain t key u v where s: "skip_space s = quote # t" "scan_string t = Some (key, u)"
      "skip_space u = CHR '':'' # v" by blast
    have v: "length t < length s" "length u < length t" "length v < length u"
      using s skip_space_Cons_le scan_string_le by blast+
    have same: "parse_value n v = parse_value k v"
      using 6(1) [of quote t "(key, u)" key u "CHR '':''" v k] s v 6(3,4) m by simp
    show ?thesis
    proof (cases "parse_value n v")
      case None
      then show ?thesis using same s by (simp add: m)
    next
      case (Some r)
      obtain j w where r: "r = (j, w)" by (cases r)
      show ?thesis
      proof (cases "skip_space w")
        case Nil
        then show ?thesis using Some r same s by (simp add: m)
      next
        case (Cons d x)
        have "length w < length v" "length x < length w"
          using parse_le(1) Some r skip_space_Cons_le [OF Cons] by auto
        then have "2 * length x + 1 < n" "2 * length x + 1 < k" using 6(3,4) m v by auto
        then have tail: "parse_members n x = parse_members k x" if "d = CHR '',''"
          using 6(2) [OF s(1) _ s(2) refl s(3) _ Some r [symmetric] Cons, of k] that by simp
        have "parse_value n v = Some (j, w)" "parse_value k v = Some (j, w)" using Some r same by simp_all
        then show ?thesis using s Cons tail by (simp add: m)
      qed
    qed
  qed
qed simp_all

lemma parse_fuel_enough: "2 * length s < n \<Longrightarrow> parse_value n s = parse_json s"
  unfolding parse_json_def by (rule parse_fuel(1)) auto

section \<open>Integers\<close>

lemma stops_digits: "stops t \<Longrightarrow> list_all is_digit d \<Longrightarrow> takeWhile is_digit (d @ t) = d \<and> dropWhile is_digit (d @ t) = t"
  by (induction d) (auto simp: stops_def split: list.splits)

lemma scan_tail: "stops t \<Longrightarrow> scan_then (scan_fraction t) scan_exponent = Some ([], t)"
  by (auto simp: stops_def scan_fraction_def scan_exponent_def scan_then_def split: list.splits)

lemma show_nat_head: "0 < n \<Longrightarrow> hd (show_nat n) \<noteq> CHR ''0''"
proof (induction n rule: show_nat.induct)
  case (1 n)
  show ?case
  proof (cases "n < 10")
    case True
    then have "digit_val (digit_char n) \<noteq> 0" using 1(2) by simp
    then have "digit_char n \<noteq> CHR ''0''" by (auto simp: digit_val_def byte_def)
    then show ?thesis using True by (simp add: show_nat.simps)
  next
    case False
    then show ?thesis using 1 by (simp add: show_nat.simps [of n])
  qed
qed

lemma scan_show_nat: "stops t \<Longrightarrow> scan_magnitude (show_nat n @ t) = Some (show_nat n, t)"
proof -
  assume t: "stops t"
  have "scan_integer (show_nat n @ t) = Some (show_nat n, t)"
  proof (cases "n = 0")
    case True
    moreover have "show_nat 0 = ''0''" by code_simp
    ultimately show ?thesis by (simp add: scan_integer_def)
  next
    case False
    obtain c u where n: "show_nat n = c # u" by (cases "show_nat n") auto
    then have "c \<noteq> CHR ''0''" using show_nat_head [of n] False by simp
    then show ?thesis
      using stops_digits [OF t show_nat_digits, of n] n
      by (simp add: scan_integer_def scan_digits_def Let_def)
  qed
  then show ?thesis using scan_tail [OF t] by (simp add: scan_magnitude_def scan_then_def)
qed

lemma show_nat_first: "\<exists>c u. show_nat n = c # u \<and> is_digit c \<and> c \<noteq> CHR ''-''"
proof -
  obtain c u where n: "show_nat n = c # u" by (cases "show_nat n") auto
  then have "is_digit c" using show_nat_digits [of n] by simp
  moreover from this have "c \<noteq> CHR ''-''" by (auto simp: is_digit_def byte_def)
  ultimately show ?thesis using n by simp
qed

lemma number_ok_nat: "number_ok (show_nat n)"
proof -
  obtain c u where n: "show_nat n = c # u" "is_digit c" "c \<noteq> CHR ''-''" using show_nat_first by blast
  then show ?thesis using scan_show_nat [of _ n] by (simp add: number_ok_def scan_number_def)
qed

lemma number_ok_int: "number_ok (show_int i)"
  using number_ok_nat scan_show_nat by (simp add: show_int_def number_ok_def scan_number_def)

lemma parse_show_int: "- (2 ^ 63) \<le> i \<Longrightarrow> i < 2 ^ 63 \<Longrightarrow> parse_int64 (show_int i) = Some i"
proof (cases "i < 0")
  case True
  assume "- (2 ^ 63) \<le> i"
  then show ?thesis
    using True show_nat_digits [of "nat (- i)"] nat_of_digits_show [of "nat (- i)"]
    by (simp add: parse_int64_def show_int_def)
next
  case False
  assume "i < 2 ^ 63"
  then show ?thesis using False parse_show_nat [of "nat i"] by (simp add: show_int_def)
qed

end
