(* ===== verification/Session_Record.thy ===== *)
theory Session_Record
  imports Session_Cookie Go_Json Go_Date "HOL-Library.Word"
begin

text \<open>
  The persisted session (session_store.go, \<^verbatim>\<open>SessionRecord\<close>) and its file format: what
  \<^verbatim>\<open>json.MarshalIndent\<close> writes for it and what a \<^verbatim>\<open>json.Decoder\<close> that disallows unknown
  fields reads, by the field tags of \<^verbatim>\<open>SessionRecord\<close> and \<^verbatim>\<open>SessionCookie\<close>.
\<close>

record session_record =
  rec_version :: int
  rec_endpoint :: string
  rec_username :: string
  rec_fingerprint :: string
  rec_impersonate :: string
  rec_cookies :: "session_cookie list"
  rec_generation :: "64 word"
  rec_retry_not_before :: gtime
  rec_accepted_step :: int
  rec_otp_binding :: string

definition zero_record :: session_record where
  "zero_record = \<lparr>rec_version = 0, rec_endpoint = [], rec_username = [], rec_fingerprint = [],
     rec_impersonate = [], rec_cookies = [], rec_generation = 0, rec_retry_not_before = zero_time,
     rec_accepted_step = 0, rec_otp_binding = []\<rparr>"

definition zero_cookie :: session_cookie where
  "zero_cookie = \<lparr>sc_name = [], sc_value = [], sc_path = [], sc_domain = [], sc_host_only = False,
     sc_expires = zero_time, sc_max_age = 0, sc_secure = False, sc_http_only = False, sc_same_site = 0,
     sc_local_expiry = False\<rparr>"

section \<open>Writing\<close>

text \<open>
  What the values of the model leave open in the bytes: the offset of the location of each time
  (of \<^verbatim>\<open>RetryNotBefore\<close> at 0, of the cookies after it), and whether an empty list of
  cookies is nil.
\<close>

record layout =
  ly_zone :: "nat \<Rightarrow> int"
  ly_nil :: bool

definition jstr :: "string \<Rightarrow> json" where "jstr s = JStr (escape s)"
definition jint :: "int \<Rightarrow> json" where "jint n = JNum (show_int n)"

text \<open>A field with \<^verbatim>\<open>omitempty\<close>.\<close>

definition unless_empty :: "bool \<Rightarrow> string \<Rightarrow> json \<Rightarrow> (string \<times> json) list" where
  "unless_empty blank key j = (if blank then [] else [(key, j)])"

definition cookie_json :: "int \<Rightarrow> session_cookie \<Rightarrow> json option" where
  "cookie_json zone c =
     (case time_text zone (sc_expires c) of
        None \<Rightarrow> None
      | Some expires \<Rightarrow> Some (JObj
          ([(''name'', jstr (sc_name c)), (''value'', jstr (sc_value c))]
           @ unless_empty (sc_path c = []) ''path'' (jstr (sc_path c))
           @ unless_empty (sc_domain c = []) ''domain'' (jstr (sc_domain c))
           @ unless_empty (\<not> sc_host_only c) ''host_only'' (JBool (sc_host_only c))
           @ [(''expires'', JStr expires)]
           @ unless_empty (sc_max_age c = 0) ''max_age'' (jint (sc_max_age c))
           @ unless_empty (\<not> sc_secure c) ''secure'' (JBool (sc_secure c))
           @ unless_empty (\<not> sc_http_only c) ''http_only'' (JBool (sc_http_only c))
           @ unless_empty (sc_same_site c = 0) ''same_site'' (jint (sc_same_site c))
           @ unless_empty (\<not> sc_local_expiry c) ''local_expiry'' (JBool (sc_local_expiry c)))))"

fun cookie_elems :: "(nat \<Rightarrow> int) \<Rightarrow> nat \<Rightarrow> session_cookie list \<Rightarrow> json list option" where
  "cookie_elems zone i [] = Some []"
| "cookie_elems zone i (c # cs) =
     (case (cookie_json (zone i) c, cookie_elems zone (Suc i) cs) of
        (Some j, Some js) \<Rightarrow> Some (j # js)
      | _ \<Rightarrow> None)"

definition record_json :: "layout \<Rightarrow> session_record \<Rightarrow> json option" where
  "record_json ly r =
     (case (cookie_elems (ly_zone ly) 1 (rec_cookies r), time_text (ly_zone ly 0) (rec_retry_not_before r)) of
        (Some js, Some retry) \<Rightarrow> Some (JObj
          ([(''version'', jint (rec_version r)), (''endpoint'', jstr (rec_endpoint r)),
            (''username'', jstr (rec_username r)), (''credential_fingerprint'', jstr (rec_fingerprint r))]
           @ unless_empty (rec_impersonate r = []) ''impersonate'' (jstr (rec_impersonate r))
           @ [(''cookies'', if js = [] \<and> ly_nil ly then JNull else JArr js),
              (''generation'', JNum (show_nat (unat (rec_generation r)))), (''retry_not_before'', JStr retry)]
           @ unless_empty (rec_accepted_step r = 0) ''accepted_otp_step'' (jint (rec_accepted_step r))
           @ unless_empty (rec_otp_binding r = []) ''otp_secret_binding'' (jstr (rec_otp_binding r))))
      | _ \<Rightarrow> None)"

definition encode_record :: "layout \<Rightarrow> session_record \<Rightarrow> string option" where
  "encode_record ly r = map_option (\<lambda>j. print_value 0 j @ [CHR 0x0A]) (record_json ly r)"

section \<open>Reading\<close>

definition str_field :: "json \<Rightarrow> string \<Rightarrow> string option" where
  "str_field j old = (case j of JStr s \<Rightarrow> Some (unquote s) | JNull \<Rightarrow> Some old | _ \<Rightarrow> None)"

definition int_field :: "json \<Rightarrow> int \<Rightarrow> int option" where
  "int_field j old = (case j of JNum n \<Rightarrow> parse_int64 n | JNull \<Rightarrow> Some old | _ \<Rightarrow> None)"

definition parse_uint64 :: "string \<Rightarrow> 64 word option" where
  "parse_uint64 s =
     (if s = [] \<or> \<not> list_all is_digit s \<or> 2 ^ 64 \<le> nat_of_digits s then None
      else Some (of_nat (nat_of_digits s)))"

definition uint_field :: "json \<Rightarrow> 64 word \<Rightarrow> 64 word option" where
  "uint_field j old = (case j of JNum n \<Rightarrow> parse_uint64 n | JNull \<Rightarrow> Some old | _ \<Rightarrow> None)"

definition bool_field :: "json \<Rightarrow> bool \<Rightarrow> bool option" where
  "bool_field j old = (case j of JBool b \<Rightarrow> Some b | JNull \<Rightarrow> Some old | _ \<Rightarrow> None)"

definition time_field :: "json \<Rightarrow> gtime \<Rightarrow> gtime option" where
  "time_field j old = (case j of JStr s \<Rightarrow> parse_time s | JNull \<Rightarrow> Some old | _ \<Rightarrow> None)"

text \<open>
  Names match without regard to case: \<^verbatim>\<open>foldName\<close> takes every rune to the least of its case
  orbit, which leads to an ASCII letter from the Kelvin sign and the long s, too.
\<close>

fun fold_name :: "string \<Rightarrow> string" where
  "fold_name [] = []"
| "fold_name (c # s) =
     (if take 3 (c # s) = map char_of [0xE2 :: nat, 0x84, 0xAA] then CHR ''K'' # fold_name (drop 2 s)
      else if take 2 (c # s) = map char_of [0xC5 :: nat, 0xBF] then CHR ''S'' # fold_name (drop 1 s)
      else upper_char c # fold_name s)"

text \<open>The members of an object, in order; a repeated one overwrites, \<^verbatim>\<open>null\<close> changes nothing.\<close>

fun decode_members :: "(string \<Rightarrow> json \<Rightarrow> 'a \<Rightarrow> 'a option) \<Rightarrow> (string \<times> json) list \<Rightarrow> 'a \<Rightarrow> 'a option" where
  "decode_members put [] x = Some x"
| "decode_members put ((k, j) # ms) x =
     (case put (fold_name (unquote k)) j x of None \<Rightarrow> None | Some y \<Rightarrow> decode_members put ms y)"

definition decode_struct :: "(string \<Rightarrow> json \<Rightarrow> 'a \<Rightarrow> 'a option) \<Rightarrow> json \<Rightarrow> 'a \<Rightarrow> 'a option" where
  "decode_struct put j x = (case j of JObj ms \<Rightarrow> decode_members put ms x | JNull \<Rightarrow> Some x | _ \<Rightarrow> None)"

definition set_cookie_field :: "string \<Rightarrow> json \<Rightarrow> session_cookie \<Rightarrow> session_cookie option" where
  "set_cookie_field f j c =
     (if f = ''NAME'' then map_option (\<lambda>v. c\<lparr>sc_name := v\<rparr>) (str_field j (sc_name c))
      else if f = ''VALUE'' then map_option (\<lambda>v. c\<lparr>sc_value := v\<rparr>) (str_field j (sc_value c))
      else if f = ''PATH'' then map_option (\<lambda>v. c\<lparr>sc_path := v\<rparr>) (str_field j (sc_path c))
      else if f = ''DOMAIN'' then map_option (\<lambda>v. c\<lparr>sc_domain := v\<rparr>) (str_field j (sc_domain c))
      else if f = ''HOST_ONLY'' then map_option (\<lambda>v. c\<lparr>sc_host_only := v\<rparr>) (bool_field j (sc_host_only c))
      else if f = ''EXPIRES'' then map_option (\<lambda>v. c\<lparr>sc_expires := v\<rparr>) (time_field j (sc_expires c))
      else if f = ''MAX_AGE'' then map_option (\<lambda>v. c\<lparr>sc_max_age := v\<rparr>) (int_field j (sc_max_age c))
      else if f = ''SECURE'' then map_option (\<lambda>v. c\<lparr>sc_secure := v\<rparr>) (bool_field j (sc_secure c))
      else if f = ''HTTP_ONLY'' then map_option (\<lambda>v. c\<lparr>sc_http_only := v\<rparr>) (bool_field j (sc_http_only c))
      else if f = ''SAME_SITE'' then map_option (\<lambda>v. c\<lparr>sc_same_site := v\<rparr>) (int_field j (sc_same_site c))
      else if f = ''LOCAL_EXPIRY'' then map_option (\<lambda>v. c\<lparr>sc_local_expiry := v\<rparr>) (bool_field j (sc_local_expiry c))
      else None)"

text \<open>
  The elements of an array go into the backing array of the slice, whose elements keep the fields
  that the text does not set; \<open>old\<close> is what it still holds, the result what is left of it.
\<close>

fun decode_cookies :: "json list \<Rightarrow> session_cookie list \<Rightarrow> (session_cookie list \<times> session_cookie list) option" where
  "decode_cookies [] old = Some ([], old)"
| "decode_cookies (j # js) old =
     (case decode_struct set_cookie_field j (if old = [] then zero_cookie else hd old) of
        None \<Rightarrow> None
      | Some c \<Rightarrow> (case decode_cookies js (tl old) of None \<Rightarrow> None | Some (cs, rest) \<Rightarrow> Some (c # cs, rest)))"

definition cookies_field ::
  "json \<Rightarrow> session_cookie list \<Rightarrow> (session_cookie list \<times> session_cookie list) option" where
  "cookies_field j old =
     (case j of JNull \<Rightarrow> Some ([], []) | JArr js \<Rightarrow> if js = [] then Some ([], []) else decode_cookies js old
      | _ \<Rightarrow> None)"

text \<open>The record, and what the backing array of its cookies holds behind their end.\<close>

definition set_record_field ::
  "string \<Rightarrow> json \<Rightarrow> session_record \<times> session_cookie list \<Rightarrow> (session_record \<times> session_cookie list) option" where
  "set_record_field f j x =
     (case x of (r, spare) \<Rightarrow>
        if f = ''VERSION'' then map_option (\<lambda>v. (r\<lparr>rec_version := v\<rparr>, spare)) (int_field j (rec_version r))
        else if f = ''ENDPOINT'' then map_option (\<lambda>v. (r\<lparr>rec_endpoint := v\<rparr>, spare)) (str_field j (rec_endpoint r))
        else if f = ''USERNAME'' then map_option (\<lambda>v. (r\<lparr>rec_username := v\<rparr>, spare)) (str_field j (rec_username r))
        else if f = ''CREDENTIAL_FINGERPRINT''
          then map_option (\<lambda>v. (r\<lparr>rec_fingerprint := v\<rparr>, spare)) (str_field j (rec_fingerprint r))
        else if f = ''IMPERSONATE''
          then map_option (\<lambda>v. (r\<lparr>rec_impersonate := v\<rparr>, spare)) (str_field j (rec_impersonate r))
        else if f = ''COOKIES''
          then map_option (\<lambda>(cs, rest). (r\<lparr>rec_cookies := cs\<rparr>, rest)) (cookies_field j (rec_cookies r @ spare))
        else if f = ''GENERATION''
          then map_option (\<lambda>v. (r\<lparr>rec_generation := v\<rparr>, spare)) (uint_field j (rec_generation r))
        else if f = ''RETRY_NOT_BEFORE''
          then map_option (\<lambda>v. (r\<lparr>rec_retry_not_before := v\<rparr>, spare)) (time_field j (rec_retry_not_before r))
        else if f = ''ACCEPTED_OTP_STEP''
          then map_option (\<lambda>v. (r\<lparr>rec_accepted_step := v\<rparr>, spare)) (int_field j (rec_accepted_step r))
        else if f = ''OTP_SECRET_BINDING''
          then map_option (\<lambda>v. (r\<lparr>rec_otp_binding := v\<rparr>, spare)) (str_field j (rec_otp_binding r))
        else None)"

text \<open>\<^verbatim>\<open>Decode\<close> reads one value and leaves the rest of the input alone.\<close>

definition decode_record :: "string \<Rightarrow> session_record option" where
  "decode_record s =
     (case parse_json s of
        None \<Rightarrow> None
      | Some (j, _) \<Rightarrow> map_option fst (decode_struct set_record_field j (zero_record, [])))"

section \<open>What is written is read back\<close>

lemma scans_key: "list_all (\<lambda>c. c \<noteq> quote \<and> c \<noteq> backslash \<and> 32 \<le> byte c) k \<Longrightarrow> scans k"
  by (induction k) (auto intro: scans_Cons)

lemma json_ok_scalars [simp]: "json_ok (jstr s)" "json_ok (jint n)" "json_ok (JNum (show_nat k))"
  by (simp_all add: jstr_def jint_def scans_escape number_ok_int number_ok_nat)

lemma digits_scan: "list_all is_digit k \<Longrightarrow> scans k"
  by (rule scans_key) (auto simp: list_all_iff is_digit_def byte_def)

lemma scans_digits2 [simp]: "scans (digits2 n)" and scans_digits4 [simp]: "scans (digits4 n)"
  by (intro digits_scan, simp add: digits2_def digits4_def)+

lemma scans_fraction: "scans (fraction_text n)"
proof -
  let ?full = "pad_left 9 (CHR ''0'') (show_nat (nat n))"
  have "is_digit (CHR ''0'')" by code_simp
  then have "list_all is_digit ?full"
    using show_nat_digits [of "nat n"] by (auto simp: pad_left_def list_all_iff)
  moreover obtain k where "?full = trim_right (CHR ''0'') ?full @ replicate k CHR ''0''" using trim_right_split by blast
  ultimately have "scans (trim_right (CHR ''0'') ?full)" by (metis digits_scan list_all_append)
  then show ?thesis by (auto simp: fraction_text_def byte_def intro!: scans_Cons)
qed

lemma scans_zone: "scans (zone_text off)"
  by (auto simp: zone_text_def byte_def simp del: append_Cons intro!: scans_Cons scans_append scans_digits2)

lemma scans_sep: "scans ''-''" "scans '':''" "scans ''T''"
  by (simp_all add: scans_key byte_def)

lemma scans_time:
  assumes "time_text off t = Some s"
  shows "scans s"
proof -
  obtain y m d h mi se n where s: "s = digits4 y @ ''-'' @ digits2 m @ ''-'' @ digits2 d @ ''T''
                  @ digits2 h @ '':'' @ digits2 mi @ '':'' @ digits2 se @ fraction_text n @ zone_text off"
    using assms unfolding time_text_def Let_def by (auto split: prod.splits if_split_asm simp del: append_Cons)
  show ?thesis unfolding s by (intro scans_append scans_digits2 scans_digits4 scans_sep scans_fraction scans_zone)
qed

lemma unquote_ascii: "list_all (\<lambda>c. c \<noteq> backslash \<and> byte c < 128) k \<Longrightarrow> unquote k = k"
  by (induction k) (simp_all add: unquote_plain)

lemma fold_ascii: "list_all (\<lambda>c. byte c < 128) k \<Longrightarrow> fold_name k = to_upper k"
proof (induction k)
  case (Cons c k)
  have "byte (char_of (0xE2 :: nat)) = 0xE2" "byte (char_of (0xC5 :: nat)) = 0xC5" by (rule byte_char_of, simp)+
  then have "c \<noteq> char_of (0xE2 :: nat)" "c \<noteq> char_of (0xC5 :: nat)" using Cons(2) by auto
  then show ?case using Cons by (simp add: to_upper_def)
qed (simp add: to_upper_def)

lemma fold_key: "list_all (\<lambda>c. c \<noteq> backslash \<and> byte c < 128) k \<Longrightarrow> fold_name (unquote k) = to_upper k"
  by (simp add: unquote_ascii fold_ascii list_all_iff)

lemma key_upper:
  "to_upper (''name'') = ''NAME''" "to_upper (''value'') = ''VALUE''"
  "to_upper (''path'') = ''PATH''" "to_upper (''domain'') = ''DOMAIN''"
  "to_upper (''host_only'') = ''HOST_ONLY''" "to_upper (''expires'') = ''EXPIRES''"
  "to_upper (''max_age'') = ''MAX_AGE''" "to_upper (''secure'') = ''SECURE''"
  "to_upper (''http_only'') = ''HTTP_ONLY''" "to_upper (''same_site'') = ''SAME_SITE''"
  "to_upper (''local_expiry'') = ''LOCAL_EXPIRY''" "to_upper (''version'') = ''VERSION''"
  "to_upper (''endpoint'') = ''ENDPOINT''" "to_upper (''username'') = ''USERNAME''"
  "to_upper (''credential_fingerprint'') = ''CREDENTIAL_FINGERPRINT''"
  "to_upper (''impersonate'') = ''IMPERSONATE''" "to_upper (''cookies'') = ''COOKIES''"
  "to_upper (''generation'') = ''GENERATION''"
  "to_upper (''retry_not_before'') = ''RETRY_NOT_BEFORE''"
  "to_upper (''accepted_otp_step'') = ''ACCEPTED_OTP_STEP''"
  "to_upper (''otp_secret_binding'') = ''OTP_SECRET_BINDING''"
  by code_simp+

lemma key_ascii:
  "list_all (list_all (\<lambda>c. c \<noteq> backslash \<and> c \<noteq> quote \<and> 32 \<le> byte c \<and> byte c < 128))
     [''name'', ''value'', ''path'', ''domain'', ''host_only'', ''expires'', ''max_age'', ''secure'', ''http_only'',
      ''same_site'', ''local_expiry'', ''version'', ''endpoint'', ''username'', ''credential_fingerprint'',
      ''impersonate'', ''cookies'', ''generation'', ''retry_not_before'', ''accepted_otp_step'', ''otp_secret_binding'']"
  by (simp add: byte_def)

lemma key_names:
  "list_all (\<lambda>k. scans k \<and> fold_name (unquote k) = to_upper k)
     [''name'', ''value'', ''path'', ''domain'', ''host_only'', ''expires'', ''max_age'', ''secure'', ''http_only'',
      ''same_site'', ''local_expiry'', ''version'', ''endpoint'', ''username'', ''credential_fingerprint'',
      ''impersonate'', ''cookies'', ''generation'', ''retry_not_before'', ''accepted_otp_step'', ''otp_secret_binding'']"
proof -
  have "scans k \<and> fold_name (unquote k) = to_upper k"
    if "list_all (\<lambda>c. c \<noteq> backslash \<and> c \<noteq> quote \<and> 32 \<le> byte c \<and> byte c < 128) k" for k
  proof
    show "scans k" by (rule scans_key) (use that in \<open>simp add: list_all_iff\<close>)
    show "fold_name (unquote k) = to_upper k" by (rule fold_key) (use that in \<open>simp add: list_all_iff\<close>)
  qed
  then show ?thesis by (rule list.pred_mono_strong [OF key_ascii])
qed

lemmas key_facts = key_names [unfolded key_upper list.pred_inject]

definition int64_ok :: "int \<Rightarrow> bool" where "int64_ok n = (- (2 ^ 63) \<le> n \<and> n < 2 ^ 63)"

lemma fields_read [simp]:
  "str_field (jstr s) old = Some (to_valid s)"
  "int64_ok n \<Longrightarrow> int_field (jint n) old_int = Some n"
  "bool_field (JBool b) was = Some b"
  "time_text zone t = Some s \<Longrightarrow> time_field (JStr s) before = Some t"
  by (simp_all add: str_field_def jstr_def unquote_escape int_field_def jint_def parse_show_int int64_ok_def
      bool_field_def time_field_def parse_time_text)

lemma uint_read [simp]: "uint_field (JNum (show_nat (unat g))) old = Some (g :: 64 word)"
proof -
  have "unat g < 2 ^ 64" using unsigned_less [of g] by simp
  then show ?thesis
    using show_nat_digits [of "unat g"] by (simp add: uint_field_def parse_uint64_def nat_of_digits_show)
qed

lemma decode_members_append:
  "decode_members put (ms @ ns) x = (case decode_members put ms x of None \<Rightarrow> None | Some y \<Rightarrow> decode_members put ns y)"
proof (induction ms arbitrary: x)
  case (Cons m ms)
  then show ?case by (cases m) (auto split: option.splits)
qed simp

lemma decode_unless_empty:
  "put (fold_name (unquote k)) j x = Some y \<Longrightarrow> (blank \<Longrightarrow> y = x) \<Longrightarrow>
     decode_members put (unless_empty blank k j) x = Some y"
  by (simp add: unless_empty_def)

text \<open>The integers of a record fit their Go types; what a file keeps of its strings.\<close>

definition cookie_ints :: "session_cookie \<Rightarrow> bool" where
  "cookie_ints c = (int64_ok (sc_max_age c) \<and> int64_ok (sc_same_site c))"

definition record_ints :: "session_record \<Rightarrow> bool" where
  "record_ints r = (int64_ok (rec_version r) \<and> int64_ok (rec_accepted_step r) \<and> list_all cookie_ints (rec_cookies r))"

definition sound_cookie :: "session_cookie \<Rightarrow> session_cookie" where
  "sound_cookie c = c\<lparr>sc_name := to_valid (sc_name c), sc_value := to_valid (sc_value c),
     sc_path := to_valid (sc_path c), sc_domain := to_valid (sc_domain c)\<rparr>"

definition sound_record :: "session_record \<Rightarrow> session_record" where
  "sound_record r = r\<lparr>rec_endpoint := to_valid (rec_endpoint r), rec_username := to_valid (rec_username r),
     rec_fingerprint := to_valid (rec_fingerprint r), rec_impersonate := to_valid (rec_impersonate r),
     rec_cookies := map sound_cookie (rec_cookies r), rec_otp_binding := to_valid (rec_otp_binding r)\<rparr>"

definition cookie_utf8 :: "session_cookie \<Rightarrow> bool" where
  "cookie_utf8 c = (valid_utf8 (sc_name c) \<and> valid_utf8 (sc_value c) \<and> valid_utf8 (sc_path c) \<and> valid_utf8 (sc_domain c))"

definition record_utf8 :: "session_record \<Rightarrow> bool" where
  "record_utf8 r =
     (valid_utf8 (rec_endpoint r) \<and> valid_utf8 (rec_username r) \<and> valid_utf8 (rec_fingerprint r)
      \<and> valid_utf8 (rec_impersonate r) \<and> valid_utf8 (rec_otp_binding r) \<and> list_all cookie_utf8 (rec_cookies r))"

lemma sound_record_keeps [simp]:
  "rec_version (sound_record r) = rec_version r" "rec_generation (sound_record r) = rec_generation r"
  "rec_retry_not_before (sound_record r) = rec_retry_not_before r"
  "rec_accepted_step (sound_record r) = rec_accepted_step r"
  "rec_otp_binding (sound_record r) = to_valid (rec_otp_binding r)"
  "rec_cookies (sound_record r) = map sound_cookie (rec_cookies r)"
  by (simp_all add: sound_record_def)

lemma sound_cookie_id: "cookie_utf8 c \<Longrightarrow> sound_cookie c = c"
  by (simp add: cookie_utf8_def sound_cookie_def to_valid_id)

lemma sound_record_id: "record_utf8 r \<Longrightarrow> sound_record r = r"
proof -
  assume r: "record_utf8 r"
  then have "map sound_cookie (rec_cookies r) = rec_cookies r"
    by (intro map_idI sound_cookie_id) (auto simp: record_utf8_def list_all_iff)
  then show ?thesis using r by (simp add: record_utf8_def sound_record_def to_valid_id)
qed

lemma unless_empty_ok: "scans k \<Longrightarrow> json_ok j \<Longrightarrow> json_ok (JObj ms) \<Longrightarrow> json_ok (JObj (unless_empty b k j @ ms))"
  by (simp add: unless_empty_def)

lemma cookie_steps:
  "sc_path x = [] \<Longrightarrow>
     decode_members set_cookie_field (unless_empty (p = []) ''path'' (jstr p)) x = Some (x\<lparr>sc_path := to_valid p\<rparr>)"
  "sc_domain x = [] \<Longrightarrow>
     decode_members set_cookie_field (unless_empty (p = []) ''domain'' (jstr p)) x = Some (x\<lparr>sc_domain := to_valid p\<rparr>)"
  "\<not> sc_host_only x \<Longrightarrow>
     decode_members set_cookie_field (unless_empty (\<not> b) ''host_only'' (JBool b)) x = Some (x\<lparr>sc_host_only := b\<rparr>)"
  "int64_ok n \<Longrightarrow> sc_max_age x = 0 \<Longrightarrow>
     decode_members set_cookie_field (unless_empty (n = 0) ''max_age'' (jint n)) x = Some (x\<lparr>sc_max_age := n\<rparr>)"
  "\<not> sc_secure x \<Longrightarrow>
     decode_members set_cookie_field (unless_empty (\<not> b) ''secure'' (JBool b)) x = Some (x\<lparr>sc_secure := b\<rparr>)"
  "\<not> sc_http_only x \<Longrightarrow>
     decode_members set_cookie_field (unless_empty (\<not> b) ''http_only'' (JBool b)) x = Some (x\<lparr>sc_http_only := b\<rparr>)"
  "int64_ok n \<Longrightarrow> sc_same_site x = 0 \<Longrightarrow>
     decode_members set_cookie_field (unless_empty (n = 0) ''same_site'' (jint n)) x = Some (x\<lparr>sc_same_site := n\<rparr>)"
  "\<not> sc_local_expiry x \<Longrightarrow>
     decode_members set_cookie_field (unless_empty (\<not> b) ''local_expiry'' (JBool b)) x = Some (x\<lparr>sc_local_expiry := b\<rparr>)"
  by (rule decode_unless_empty; cases x; auto simp: key_facts set_cookie_field_def)+

lemma decode_cookie:
  assumes "cookie_json zone c = Some j" "cookie_ints c"
  shows "decode_struct set_cookie_field j zero_cookie = Some (sound_cookie c)"
proof -
  obtain s where s: "time_text zone (sc_expires c) = Some s"
    using assms(1) by (cases "time_text zone (sc_expires c)") (auto simp: cookie_json_def)
  note j = assms(1) [unfolded cookie_json_def s option.case option.inject, symmetric]
  show ?thesis
    using assms(2)
    by (simp add: j decode_struct_def decode_members_append key_facts set_cookie_field_def fields_read(4) [OF s]
        cookie_steps cookie_ints_def sound_cookie_def zero_cookie_def)
qed

lemma cookie_json_ok:
  assumes "cookie_json zone c = Some j"
  shows "json_ok j"
proof -
  obtain s where s: "time_text zone (sc_expires c) = Some s"
    using assms(1) by (cases "time_text zone (sc_expires c)") (auto simp: cookie_json_def)
  note j = assms(1) [unfolded cookie_json_def s option.case option.inject, symmetric]
  show ?thesis unfolding j by (simp add: unless_empty_def key_facts scans_time [OF s])
qed

lemma decode_cookie_elems:
  "cookie_elems zone i cs = Some js \<Longrightarrow> list_all cookie_ints cs \<Longrightarrow> decode_cookies js [] = Some (map sound_cookie cs, [])"
proof (induction zone i cs arbitrary: js rule: cookie_elems.induct)
  case (2 zone i c cs)
  then obtain j js' where "cookie_json (zone i) c = Some j" "cookie_elems zone (Suc i) cs = Some js'" "js = j # js'"
    by (auto split: option.splits)
  then show ?case using 2 by (simp add: decode_cookie)
qed simp

lemma cookie_elems_ok: "cookie_elems zone i cs = Some js \<Longrightarrow> list_all json_ok js \<and> (js = [] \<longleftrightarrow> cs = [])"
  by (induction zone i cs arbitrary: js rule: cookie_elems.induct)
     (auto split: option.splits intro: cookie_json_ok)

lemma record_steps:
  "rec_impersonate (fst x) = [] \<Longrightarrow>
     decode_members set_record_field (unless_empty (p = []) ''impersonate'' (jstr p)) x
       = Some (apfst (rec_impersonate_update (\<lambda>_. to_valid p)) x)"
  "int64_ok n \<Longrightarrow> rec_accepted_step (fst x) = 0 \<Longrightarrow>
     decode_members set_record_field (unless_empty (n = 0) ''accepted_otp_step'' (jint n)) x
       = Some (apfst (rec_accepted_step_update (\<lambda>_. n)) x)"
  "rec_otp_binding (fst x) = [] \<Longrightarrow>
     decode_members set_record_field (unless_empty (p = []) ''otp_secret_binding'' (jstr p)) x
       = Some (apfst (rec_otp_binding_update (\<lambda>_. to_valid p)) x)"
  by (rule decode_unless_empty; cases x; cases "fst x"; auto simp: key_facts set_record_field_def)+

lemma cookies_read:
  "cookie_elems zone i cs = Some js \<Longrightarrow> list_all cookie_ints cs \<Longrightarrow>
     cookies_field (if js = [] \<and> nil then JNull else JArr js) [] = Some (map sound_cookie cs, [])"
  using decode_cookie_elems [of zone i cs js] cookie_elems_ok [of zone i cs js]
  by (auto simp: cookies_field_def)

lemma record_json_read:
  assumes "record_json ly r = Some j" "record_ints r"
  shows "json_ok j \<and> decode_struct set_record_field j (zero_record, []) = Some (sound_record r, [])"
proof -
  obtain js s where c: "cookie_elems (ly_zone ly) 1 (rec_cookies r) = Some js"
    and s: "time_text (ly_zone ly 0) (rec_retry_not_before r) = Some s"
    using assms(1) by (auto simp: record_json_def split: option.splits)
  note j = assms(1) [unfolded record_json_def c s option.case prod.case option.inject, symmetric]
  have cookies: "list_all cookie_ints (rec_cookies r)" using assms(2) by (simp add: record_ints_def)
  have "json_ok j"
    unfolding j using cookie_elems_ok [OF c]
    by (simp add: unless_empty_def key_facts scans_time [OF s] list_all_iff number_ok_nat)
  moreover have "decode_struct set_record_field j (zero_record, []) = Some (sound_record r, [])"
    using assms(2) unfolding j record_ints_def
    by (simp add: decode_struct_def decode_members_append key_facts set_record_field_def fields_read(4) [OF s]
        cookies_read [OF c cookies] record_steps zero_record_def sound_record_def)
  ultimately show ?thesis ..
qed



lemma record_reread:
  assumes "encode_record ly r = Some s" and "record_ints r"
  shows "decode_record s = Some (sound_record r)"
proof -
  obtain j where j: "record_json ly r = Some j" "s = print_value 0 j @ [CHR 0x0A]"
    using assms(1) by (auto simp: encode_record_def)
  note read = record_json_read [OF j(1) assms(2)]
  have "stops [CHR 0x0A]" by (simp add: stops_def is_digit_def byte_def)
  then have "parse_json s = Some (j, [CHR 0x0A])" using parse_print_json [of j "[CHR 0x0A]" 0] read j(2) by simp
  then show ?thesis using read by (simp add: decode_record_def)
qed

section \<open>What can be read\<close>

lemma decode_members_inv:
  assumes "\<And>f j x y. put f j x = Some y \<Longrightarrow> P x \<Longrightarrow> P y"
  shows "decode_members put ms x = Some y \<Longrightarrow> P x \<Longrightarrow> P y"
proof (induction ms arbitrary: x)
  case (Cons m ms)
  then show ?case using assms by (cases m) (auto split: option.splits)
qed simp

lemma decode_struct_inv:
  assumes "\<And>f j x y. put f j x = Some y \<Longrightarrow> P x \<Longrightarrow> P y"
  shows "decode_struct put j x = Some y \<Longrightarrow> P x \<Longrightarrow> P y"
  using decode_members_inv [of put P, OF assms] by (auto simp: decode_struct_def split: json.splits)

lemma parse_int64_ok: "parse_int64 s = Some n \<Longrightarrow> int64_ok n"
  by (auto simp: parse_int64_def int64_ok_def Let_def split: prod.splits if_splits)

lemma field_results:
  "str_field j s = Some v \<Longrightarrow> valid_utf8 s \<Longrightarrow> valid_utf8 v"
  "int_field j n = Some m \<Longrightarrow> int64_ok n \<Longrightarrow> int64_ok m"
  by (auto simp: str_field_def int_field_def valid_unquote parse_int64_ok split: json.splits)

definition cookie_wf :: "session_cookie \<Rightarrow> bool" where
  "cookie_wf c = (cookie_ints c \<and> cookie_utf8 c)"

definition record_wf :: "session_record \<Rightarrow> bool" where
  "record_wf r = (record_ints r \<and> record_utf8 r)"

lemma record_wf_iff:
  "record_wf r \<longleftrightarrow> valid_utf8 (rec_endpoint r) \<and> valid_utf8 (rec_username r) \<and> valid_utf8 (rec_fingerprint r)
     \<and> valid_utf8 (rec_impersonate r) \<and> valid_utf8 (rec_otp_binding r) \<and> int64_ok (rec_version r)
     \<and> int64_ok (rec_accepted_step r) \<and> list_all cookie_wf (rec_cookies r)"
  by (auto simp: record_wf_def record_ints_def record_utf8_def cookie_wf_def list_all_iff)

lemma set_cookie_field_wf: "set_cookie_field f j c = Some d \<Longrightarrow> cookie_wf c \<Longrightarrow> cookie_wf d"
  by (auto simp: set_cookie_field_def cookie_wf_def cookie_ints_def cookie_utf8_def split: if_splits
      dest: field_results)

lemma zero_cookie_wf: "cookie_wf zero_cookie"
  by (simp add: zero_cookie_def cookie_wf_def cookie_ints_def cookie_utf8_def int64_ok_def)

lemma decode_cookies_wf:
  "decode_cookies js old = Some (cs, rest) \<Longrightarrow> list_all cookie_wf old \<Longrightarrow>
     list_all cookie_wf cs \<and> list_all cookie_wf rest"
proof (induction js old arbitrary: cs rule: decode_cookies.induct)
  case (2 j js old)
  obtain c where c: "decode_struct set_cookie_field j (if old = [] then zero_cookie else hd old) = Some c"
    using 2(2) by (auto split: option.splits)
  obtain ds where ds: "decode_cookies js (tl old) = Some (ds, rest)" "cs = c # ds"
    using 2(2) c by (auto split: option.splits)
  have "cookie_wf (if old = [] then zero_cookie else hd old)" "list_all cookie_wf (tl old)"
    using 2(3) zero_cookie_wf by (cases old; simp)+
  then show ?case
    using decode_struct_inv [of set_cookie_field cookie_wf, OF set_cookie_field_wf c] 2(1) [OF c ds(1)] ds(2) by simp
qed simp

lemma set_record_field_wf:
  "set_record_field f j x = Some y \<Longrightarrow> record_wf (fst x) \<and> list_all cookie_wf (snd x) \<Longrightarrow>
     record_wf (fst y) \<and> list_all cookie_wf (snd y)"
proof (cases x, cases "f = ''COOKIES''")
  fix r spare
  assume step: "set_record_field f j x = Some y" and x: "x = (r, spare)" and f: "f = ''COOKIES''"
    and wf: "record_wf (fst x) \<and> list_all cookie_wf (snd x)"
  then obtain cs rest where cs: "cookies_field j (rec_cookies r @ spare) = Some (cs, rest)"
    "y = (r\<lparr>rec_cookies := cs\<rparr>, rest)"
    by (auto simp: set_record_field_def)
  have "list_all cookie_wf (rec_cookies r @ spare)" using wf x by (simp add: record_wf_iff)
  then have "list_all cookie_wf cs \<and> list_all cookie_wf rest"
    using cs(1) decode_cookies_wf by (fastforce simp: cookies_field_def split: json.splits if_splits)
  then show ?thesis using wf x cs(2) by (simp add: record_wf_iff)
next
  fix r spare
  assume "set_record_field f j x = Some y" "x = (r, spare)" "f \<noteq> ''COOKIES''"
    "record_wf (fst x) \<and> list_all cookie_wf (snd x)"
  then show ?thesis
    by (auto simp: set_record_field_def record_wf_iff split: if_splits dest: field_results)
qed

text \<open>Whatever a session file holds, what is read from it has the integers of its Go types and strings
  of UTF-8.\<close>

lemma decode_record_wf: "decode_record s = Some r \<Longrightarrow> record_wf r"
proof -
  assume "decode_record s = Some r"
  then obtain j spare where "decode_struct set_record_field j (zero_record, []) = Some (r, spare)"
    by (auto simp: decode_record_def split: option.splits)
  from decode_struct_inv [of set_record_field "\<lambda>x. record_wf (fst x) \<and> list_all cookie_wf (snd x)",
      OF set_record_field_wf this]
  show ?thesis by (simp add: zero_record_def record_wf_iff int64_ok_def)
qed

lemma record_rewrite: "record_wf r \<Longrightarrow> encode_record ly r = Some s \<Longrightarrow> decode_record s = Some r"
  using record_reread [of ly r s] sound_record_id [of r] by (simp add: record_wf_def)

section \<open>Properties\<close>

text \<open>C26: A record that was written to a session file is read back from it, field by field, whatever
  the offsets of its times and its omitted fields are; bytes that are no UTF-8 come back as
  replacement characters, and only those.\<close>

theorem record_roundtrip:
  assumes "encode_record ly r = Some s" and "record_ints r"
  shows "decode_record s = Some (sound_record r) \<and> (record_utf8 r \<longrightarrow> decode_record s = Some r)"
  using record_reread [OF assms] sound_record_id by simp

definition sample_session :: session_record where
  "sample_session = zero_record\<lparr>rec_version := 1, rec_endpoint := ''<https>'', rec_generation := 7,
     rec_username := map char_of [0xC3 :: nat, 0xA9, 0x22, 0xFF],
     rec_cookies := [zero_cookie\<lparr>sc_name := ''sid'', sc_expires := 1700000000000000005, sc_secure := True\<rparr>]\<rparr>"

lemma record_roundtrip_witness:
  "\<exists>s. encode_record \<lparr>ly_zone = (\<lambda>i. -90), ly_nil = False\<rparr> sample_session = Some s
     \<and> decode_record s = Some (sound_record sample_session)"
proof -
  let ?ly = "\<lparr>ly_zone = (\<lambda>i. -90), ly_nil = False\<rparr>"
  have "time_text (-90) zero_time \<noteq> None" "time_text (-90) 1700000000000000005 \<noteq> None" by code_simp+
  then have "encode_record ?ly sample_session \<noteq> None"
    by (auto simp: encode_record_def record_json_def sample_session_def cookie_json_def zero_record_def zero_cookie_def)
  then obtain s where s: "encode_record ?ly sample_session = Some s" by auto
  have "record_ints sample_session"
    by (simp add: record_ints_def sample_session_def int64_ok_def cookie_ints_def zero_record_def zero_cookie_def)
  from record_roundtrip [OF s this] s show ?thesis by blast
qed

text \<open>C36: The strict reader only lets well-formed records through, and such a record is a fixed point of
  writing and reading: a session that was loaded and is stored again unchanged is loaded as before.\<close>

theorem reread_stable:
  assumes "decode_record s = Some r"
  shows "record_wf r \<and> (\<forall>ly t. encode_record ly r = Some t \<longrightarrow> decode_record t = Some r)"
  using decode_record_wf [OF assms] record_rewrite by blast

lemma reread_stable_witness: "decode_record ''{} x'' = Some zero_record \<and> record_wf zero_record"
proof -
  have empty: "decode_record ''{} x'' = Some zero_record" by code_simp
  from reread_stable [OF this] show ?thesis using empty by blast
qed

end
