(* ===== verification/World.thy ===== *)
theory World
  imports Auth_Events Tracked_Jar Identity Session_Record "HOL-Library.State_Monad"
begin

text \<open>
  The world the client runs in. Stateful code is a \<^typ>\<open>('w, 'a) state\<close> computation over
  \<open>world\<close>; whatever is decided outside the process (clock, server, contexts, system calls,
  other processes, random numbers) is a function of the trace of all that happened so far,
  collected in an \<open>env\<close>. A statement about every \<open>env\<close> is one about every behaviour of the
  outside, hostile ones included. Every consultation of the outside is a recorded event.

  A call that would block forever has no result and is not described; a blocking loop is
  cut off by its context after \<open>e_patience\<close> rounds, a number the environment chooses.
\<close>

section \<open>The outside\<close>

datatype ctx = CtxNil | Ctx nat

datatype ctx_status = CtxLive | CtxCanceled | CtxDeadline

fun ctx_error :: "ctx_status \<Rightarrow> go_error option" where
  "ctx_error CtxLive = None"
| "ctx_error CtxCanceled = Some (Sentinel ContextCanceled)"
| "ctx_error CtxDeadline = Some (Sentinel ContextDeadlineExceeded)"

text \<open>How a request ends: a failure of the network stack (with the status of a response, when
  the client of \<^verbatim>\<open>net/http\<close> gave up on one), or a response. \<open>ho_cookies\<close> are the calls of
  \<^verbatim>\<open>SetCookies\<close> on the client's jar, one per response of a redirect chain.\<close>

datatype http_outcome =
    HttpFail net_failure "int option" "(url \<times> http_cookie list) list"
  | HttpOk http_response "(url \<times> http_cookie list) list"

datatype syscall = SysLstat | SysMkdirAll | SysOpen | SysFstat | SysRead | SysCreateTemp
  | SysChmod | SysWrite | SysFsync | SysClose | SysUnlock | SysRename | SysRemove | SysOpenDir | SysSyncDir

datatype flock_status = FlockOk | FlockBusy | FlockFail

type_synonym path = "string list"

datatype inode_type = Regular | Directory | Symlink | OtherNode

record inode =
  i_type :: inode_type
  i_perm :: nat
  i_uid :: nat
  i_data :: string

type_synonym files = "path \<rightharpoonup> inode"

datatype event = EvNow gtime | EvCtx ctx ctx_status | EvSleep duration | EvHttp http_request http_outcome
  | EvEmit auth_event | EvSys syscall bool | EvFlock path flock_status | EvRand int | EvTmp string
  | EvLocked path | EvUnlocked path | EvSemaphore string | EvRelease string | EvClose

type_synonym trace = "event list"

text \<open>The mutable fields of \<^verbatim>\<open>refresher\<close>; the jar is a pointer, an index into \<open>w_jars\<close>.\<close>

record refresher_state =
  rf_generation :: "64 word"
  rf_jar :: "nat option"
  rf_in_flight :: "nat option"
  rf_last_err :: "go_error option"
  rf_last_failure_at :: gtime
  rf_not_before :: gtime

definition initial_refresher :: refresher_state where
  "initial_refresher = \<lparr>rf_generation = 0, rf_jar = None, rf_in_flight = None, rf_last_err = None,
     rf_last_failure_at = zero_time, rf_not_before = zero_time\<rparr>"

text \<open>
  \<open>e_layout\<close> is what the JSON text of a record depends on beyond its value in the model (the
  locations of its times), \<open>e_zones\<close> the time-zone names of the local location. \<open>e_files\<close> is
  what other processes did to the files by the time a lock is granted, \<open>e_accepted\<close> the codes other goroutines had accepted by the
  time the semaphore is, \<open>e_flight\<close> the fields of the refresher that a recovery of another
  goroutine leaves behind.
\<close>

record env =
  e_now :: "trace \<Rightarrow> gtime"
  e_ctx :: "trace \<Rightarrow> ctx \<Rightarrow> ctx_status"
  e_http :: "trace \<Rightarrow> http_request \<Rightarrow> http_outcome"
  e_fault :: "trace \<Rightarrow> syscall \<Rightarrow> bool"
  e_flock :: "trace \<Rightarrow> path \<Rightarrow> flock_status"
  e_patience :: "trace \<Rightarrow> nat"
  e_files :: "trace \<Rightarrow> files \<Rightarrow> files"
  e_accepted :: "trace \<Rightarrow> string \<rightharpoonup> int"
  e_rand :: "trace \<Rightarrow> int"
  e_tmp :: "trace \<Rightarrow> string"
  e_uid :: nat
  e_flight :: "trace \<Rightarrow> refresher_state"
  e_zones :: "string \<Rightarrow> gtime \<Rightarrow> int option"
  e_layout :: "session_record \<Rightarrow> layout"

definition encode_for :: "env \<Rightarrow> session_record \<Rightarrow> string option" where
  "encode_for E r = encode_record (e_layout E r) r"

section \<open>The state\<close>

record world =
  w_trace :: trace
  w_files :: files
  w_accepted :: "string \<rightharpoonup> int"
  w_jars :: "tracked_jar list"
  w_ref :: refresher_state

abbreviation ret :: "'a \<Rightarrow> ('s, 'a) state" where "ret \<equiv> State_Monad.return"
abbreviation modify :: "('s \<Rightarrow> 's) \<Rightarrow> ('s, unit) state" where "modify \<equiv> State_Monad.update"

definition asks :: "(world \<Rightarrow> 'a) \<Rightarrow> (world, 'a) state" where
  "asks f = State (\<lambda>w. (f w, w))"

definition push :: "event \<Rightarrow> world \<Rightarrow> world" where
  "push e w = w\<lparr>w_trace := e # w_trace w\<rparr>"

text \<open>Ask the outside and record the answer.\<close>

definition observe :: "(trace \<Rightarrow> 'a) \<Rightarrow> ('a \<Rightarrow> event) \<Rightarrow> (world, 'a) state" where
  "observe g ev = State (\<lambda>w. let v = g (w_trace w) in (v, push (ev v) w))"

definition record_ev :: "event \<Rightarrow> (world, unit) state" where
  "record_ev e = modify (push e)"

definition now_op :: "env \<Rightarrow> (world, gtime) state" where
  "now_op E = observe (e_now E) EvNow"

text \<open>The two shapes of \<^verbatim>\<open>if err := ...; err != nil { return err }\<close>.\<close>

definition then_ok ::
  "(world, go_error option) state \<Rightarrow> (world, go_error option) state \<Rightarrow> (world, go_error option) state" where
  "then_ok m k = do { r \<leftarrow> m; case r of Some e \<Rightarrow> ret (Some e) | None \<Rightarrow> k }"

definition let_ok ::
  "(world, go_error + 'a) state \<Rightarrow> ('a \<Rightarrow> (world, go_error + 'b) state) \<Rightarrow> (world, go_error + 'b) state" where
  "let_ok m f = do { r \<leftarrow> m; case r of Inl e \<Rightarrow> ret (Inl e) | Inr v \<Rightarrow> f v }"

text \<open>A check before a computation with a value.\<close>

definition check_ok ::
  "(world, go_error option) state \<Rightarrow> (world, go_error + 'b) state \<Rightarrow> (world, go_error + 'b) state" where
  "check_ok m k = do { r \<leftarrow> m; case r of Some e \<Rightarrow> ret (Inl e) | None \<Rightarrow> k }"

text \<open>A value before a computation without one.\<close>

definition let_err ::
  "(world, go_error + 'a) state \<Rightarrow> ('a \<Rightarrow> (world, go_error option) state) \<Rightarrow> (world, go_error option) state" where
  "let_err m f = do { r \<leftarrow> m; case r of Inl e \<Rightarrow> ret (Some e) | Inr v \<Rightarrow> f v }"

definition ensure :: "bool \<Rightarrow> go_error \<Rightarrow> (world, go_error option) state" where
  "ensure b e = ret (if b then None else Some e)"

text \<open>\<open>contextErr\<close> (session_store.go): nothing for a nil context.\<close>

definition context_err :: "env \<Rightarrow> ctx \<Rightarrow> (world, go_error option) state" where
  "context_err E c =
     (case c of
        CtxNil \<Rightarrow> ret None
      | Ctx n \<Rightarrow> do { s \<leftarrow> observe (\<lambda>h. e_ctx E h c) (EvCtx c); ret (ctx_error s) })"

text \<open>\<open>realSleep\<close> (session.go): wait for the duration or the end of the context.\<close>

definition real_sleep :: "env \<Rightarrow> ctx \<Rightarrow> duration \<Rightarrow> (world, go_error option) state" where
  "real_sleep E c d =
     (if d \<le> 0 then ret None
      else do { record_ev (EvSleep d); context_err E c })"

definition sys :: "env \<Rightarrow> syscall \<Rightarrow> (world, bool) state" where
  "sys E s = observe (\<lambda>h. \<not> e_fault E h s) (EvSys s)"

definition emit :: "bool \<Rightarrow> auth_event \<Rightarrow> (world, unit) state" where
  "emit on_event e = (if on_event then record_ev (EvEmit e) else ret ())"

section \<open>Jars\<close>

definition new_jar :: "(world, nat) state" where
  "new_jar = State (\<lambda>w. (length (w_jars w), w\<lparr>w_jars := w_jars w @ [new_tracked_cookie_jar None]\<rparr>))"

definition jar_at :: "world \<Rightarrow> nat \<Rightarrow> tracked_jar" where
  "jar_at w a = (if a < length (w_jars w) then w_jars w ! a else new_tracked_cookie_jar None)"

definition put_jar :: "nat \<Rightarrow> tracked_jar \<Rightarrow> world \<Rightarrow> world" where
  "put_jar a j w = w\<lparr>w_jars := (w_jars w)[a := j]\<rparr>"

definition set_cookies_op :: "env \<Rightarrow> nat \<Rightarrow> url \<Rightarrow> http_cookie list \<Rightarrow> (world, unit) state" where
  "set_cookies_op E a u cs =
     do { wall \<leftarrow> now_op E;
          modify (\<lambda>w. put_jar a (tracked_set_cookies wall wall u cs (jar_at w a)) w) }"

fun set_cookies_calls :: "env \<Rightarrow> nat \<Rightarrow> (url \<times> http_cookie list) list \<Rightarrow> (world, unit) state" where
  "set_cookies_calls E a [] = ret ()"
| "set_cookies_calls E a ((u, cs) # calls) =
     do { set_cookies_op E a u cs; set_cookies_calls E a calls }"

text \<open>
  \<^verbatim>\<open>http.Client.Do\<close> with a jar: the jar's cookies go with the request, and cookies of the
  responses go back into it.
\<close>

definition client_do :: "env \<Rightarrow> nat \<Rightarrow> url \<Rightarrow> http_request \<Rightarrow> (world, http_outcome) state" where
  "client_do E a u rq =
     do { wall \<leftarrow> now_op E;
          w \<leftarrow> State_Monad.get;
          let rq' = rq\<lparr>rq_cookies := tracked_cookies wall (jar_at w a) u\<rparr>;
          out \<leftarrow> observe (\<lambda>h. e_http E h rq') (EvHttp rq');
          set_cookies_calls E a (case out of HttpFail _ _ calls \<Rightarrow> calls | HttpOk _ calls \<Rightarrow> calls);
          ret out }"

section \<open>Reasoning\<close>

text \<open>\<open>wp m Q w\<close>: started in \<open>w\<close>, the computation ends in a result and a world that satisfy \<open>Q\<close>.\<close>

definition wp :: "('s, 'a) state \<Rightarrow> ('a \<Rightarrow> 's \<Rightarrow> bool) \<Rightarrow> 's \<Rightarrow> bool" where
  "wp m Q w = (case run_state m w of (r, w') \<Rightarrow> Q r w')"

named_theorems wp_simps \<open>weakest preconditions of the combinators and primitives\<close>

lemma wp_run: "run_state m w = (r, w') \<Longrightarrow> wp m Q w \<Longrightarrow> Q r w'"
  by (simp add: wp_def)

lemma wp_bind [wp_simps]: "wp (State_Monad.bind m f) Q w = wp m (\<lambda>r. wp (f r) Q) w"
  by (simp add: wp_def split: prod.split)

lemma wp_ret [wp_simps]: "wp (ret x) Q w = Q x w"
  by (simp add: wp_def)

lemma wp_get [wp_simps]: "wp State_Monad.get Q w = Q w w"
  by (simp add: wp_def)

lemma run_state_modify [simp]: "run_state (modify f) w = ((), f w)"
  by (simp add: State_Monad.update_def)

lemma wp_modify [wp_simps]: "wp (modify f) Q w = Q () (f w)"
  by (simp add: wp_def)

lemma wp_asks [wp_simps]: "wp (asks f) Q w = Q (f w) w"
  by (simp add: wp_def asks_def)

lemma wp_observe [wp_simps]: "wp (observe g ev) Q w = Q (g (w_trace w)) (push (ev (g (w_trace w))) w)"
  by (simp add: wp_def observe_def Let_def)

lemma wp_record_ev [wp_simps]: "wp (record_ev e) Q w = Q () (push e w)"
  by (simp add: record_ev_def wp_modify)

lemma wp_mono: "wp m P w \<Longrightarrow> (\<And>r w'. P r w' \<Longrightarrow> Q r w') \<Longrightarrow> wp m Q w"
  by (simp add: wp_def split: prod.splits)

lemma wp_conj: "wp m P w \<Longrightarrow> wp m Q w \<Longrightarrow> wp m (\<lambda>r w'. P r w' \<and> Q r w') w"
  by (simp add: wp_def split: prod.splits)

lemma wp_then_ok [wp_simps]:
  "wp (then_ok m k) Q w = wp m (\<lambda>r w'. case r of Some e \<Rightarrow> Q (Some e) w' | None \<Rightarrow> wp k Q w') w"
  by (auto simp: then_ok_def wp_def split: prod.splits option.splits)

lemma wp_let_ok [wp_simps]:
  "wp (let_ok m f) Q w = wp m (\<lambda>r w'. case r of Inl e \<Rightarrow> Q (Inl e) w' | Inr v \<Rightarrow> wp (f v) Q w') w"
  by (auto simp: let_ok_def wp_def split: prod.splits sum.splits)

lemma wp_check_ok [wp_simps]:
  "wp (check_ok m k) Q w = wp m (\<lambda>r w'. case r of Some e \<Rightarrow> Q (Inl e) w' | None \<Rightarrow> wp k Q w') w"
  by (auto simp: check_ok_def wp_def split: prod.splits option.splits)

lemma wp_let_err [wp_simps]:
  "wp (let_err m f) Q w = wp m (\<lambda>r w'. case r of Inl e \<Rightarrow> Q (Some e) w' | Inr v \<Rightarrow> wp (f v) Q w') w"
  by (auto simp: let_err_def wp_def split: prod.splits sum.splits)

lemma wp_ensure [wp_simps]: "wp (ensure b e) Q w = Q (if b then None else Some e) w"
  by (simp add: ensure_def wp_ret)

lemma wp_If: "wp (if b then m else n) Q w = (if b then wp m Q w else wp n Q w)"
  by simp

text \<open>
  What a computation never changes or only ever increases is a preorder on worlds. The
  rules below carry it through a whole computation. Events that nobody outside the process
  could observe, or that only read, are quiet; the others are the visible trace.
\<close>

fun quiet :: "event \<Rightarrow> bool" where
  "quiet (EvHttp rq out) = False"
| "quiet (EvEmit e) = False"
| "quiet (EvLocked p) = False"
| "quiet (EvUnlocked p) = False"
| "quiet (EvSemaphore i) = False"
| "quiet (EvRelease i) = False"
| "quiet _ = True"

definition visible :: "world \<Rightarrow> event list" where
  "visible w = filter (\<lambda>e. \<not> quiet e) (rev (w_trace w))"

lemma visible_push [simp]: "visible (push e w) = (if quiet e then visible w else visible w @ [e])"
  by (simp add: visible_def push_def)

locale flow_preorder =
  fixes R :: "world \<Rightarrow> world \<Rightarrow> bool"
  assumes refl: "R w w"
    and trans: "R u v \<Longrightarrow> R v w \<Longrightarrow> R u w"
begin

lemma keep_ret: "state_io_rel R (ret x)"
  by (auto simp: refl)

lemma keep_bind:
  "state_io_rel R m \<Longrightarrow> (\<And>x. state_io_rel R (f x)) \<Longrightarrow> state_io_rel R (State_Monad.bind m f)"
  by (auto simp: state_io_rel_def split: prod.splits intro: trans)

lemma keep_get: "state_io_rel R State_Monad.get"
  by (auto simp: refl)

lemma keep_asks: "state_io_rel R (asks f)"
  by (auto simp: refl asks_def)

lemma keep_modify: "(\<And>w. R w (f w)) \<Longrightarrow> state_io_rel R (modify f)"
  by (auto simp: state_io_rel_def)

lemma keep_if: "state_io_rel R m \<Longrightarrow> state_io_rel R n \<Longrightarrow> state_io_rel R (if b then m else n)"
  by simp

lemma keep_option:
  "state_io_rel R m \<Longrightarrow> (\<And>x. v = Some x \<Longrightarrow> state_io_rel R (f x)) \<Longrightarrow>
     state_io_rel R (case v of None \<Rightarrow> m | Some x \<Rightarrow> f x)"
  by (cases v) auto

lemma keep_sum:
  "(\<And>x. state_io_rel R (f x)) \<Longrightarrow> (\<And>x. state_io_rel R (g x)) \<Longrightarrow>
     state_io_rel R (case v of Inl x \<Rightarrow> f x | Inr x \<Rightarrow> g x)"
  by (cases v) auto

lemma keep_prod: "(\<And>x y. state_io_rel R (f x y)) \<Longrightarrow> state_io_rel R (case v of (x, y) \<Rightarrow> f x y)"
  by (cases v) auto

lemma keep_then_ok: "state_io_rel R m \<Longrightarrow> state_io_rel R k \<Longrightarrow> state_io_rel R (then_ok m k)"
  by (simp add: then_ok_def keep_bind keep_option keep_ret)

lemma keep_let_ok: "state_io_rel R m \<Longrightarrow> (\<And>v. state_io_rel R (f v)) \<Longrightarrow> state_io_rel R (let_ok m f)"
  by (simp add: let_ok_def keep_bind keep_sum keep_ret)

lemma keep_check_ok: "state_io_rel R m \<Longrightarrow> state_io_rel R k \<Longrightarrow> state_io_rel R (check_ok m k)"
  by (simp add: check_ok_def keep_bind keep_option keep_ret)

lemma keep_let_err: "state_io_rel R m \<Longrightarrow> (\<And>v. state_io_rel R (f v)) \<Longrightarrow> state_io_rel R (let_err m f)"
  by (simp add: let_err_def keep_bind keep_sum keep_ret)

lemma keep_ensure: "state_io_rel R (ensure b e)"
  by (simp add: ensure_def keep_ret)

lemmas keep_plain = keep_ret keep_bind keep_get keep_asks keep_if
  keep_option keep_sum keep_prod keep_then_ok keep_let_ok keep_check_ok keep_let_err keep_ensure

end

text \<open>A preorder that allows the quiet events.\<close>

locale quiet_preorder = flow_preorder +
  assumes quiet: "quiet e \<Longrightarrow> R w (push e w)"
begin

lemma keep_observe: "(\<And>v. quiet (ev v)) \<Longrightarrow> state_io_rel R (observe g ev)"
  by (auto simp: observe_def Let_def quiet)

lemma keep_record: "quiet e \<Longrightarrow> state_io_rel R (record_ev e)"
  by (simp add: state_io_rel_def record_ev_def quiet)

lemma keep_now: "state_io_rel R (now_op E)"
  by (simp add: now_op_def keep_observe)

lemma keep_context_err: "state_io_rel R (context_err E c)"
  by (cases c) (simp_all add: context_err_def keep_ret keep_bind keep_observe)

lemma keep_sleep: "state_io_rel R (real_sleep E c d)"
  by (simp add: real_sleep_def keep_ret keep_bind keep_record keep_context_err)

lemma keep_sys: "state_io_rel R (sys E s)"
  by (simp add: sys_def keep_observe)

lemmas keep_flow = keep_plain keep_now keep_context_err keep_sleep keep_sys

lemmas keep_rules = keep_flow keep_observe keep_record

end

text \<open>A preorder that allows every event but those of the advisory locks, and reports to the handler
  only within their vocabulary.\<close>

fun lock_event :: "event \<Rightarrow> bool" where
  "lock_event (EvLocked p) = True"
| "lock_event (EvUnlocked p) = True"
| "lock_event _ = False"

fun event_ok :: "event \<Rightarrow> bool" where
  "event_ok (EvEmit e) = event_bounded e"
| "event_ok _ = True"

lemma quiet_ok [simp]: "quiet e \<Longrightarrow> event_ok e"
  by (cases e) simp_all

locale open_preorder = quiet_preorder +
  assumes shown: "\<not> lock_event e \<Longrightarrow> event_ok e \<Longrightarrow> R w (push e w)"
begin

lemma keep_observe_shown:
  "(\<And>v. \<not> lock_event (ev v)) \<Longrightarrow> (\<And>v. event_ok (ev v)) \<Longrightarrow> state_io_rel R (observe g ev)"
  by (auto simp: observe_def Let_def shown)

lemma keep_record_shown: "\<not> lock_event e \<Longrightarrow> event_ok e \<Longrightarrow> state_io_rel R (record_ev e)"
  by (simp add: state_io_rel_def record_ev_def shown)

lemma keep_emit: "event_bounded e \<Longrightarrow> state_io_rel R (emit b e)"
  by (simp add: emit_def keep_ret keep_record_shown)

lemmas keep_open = keep_flow keep_observe_shown keep_record_shown keep_emit

end

text \<open>A preorder that ignores the trace altogether.\<close>

locale world_preorder = open_preorder +
  assumes trace: "R w (push e w)"
begin

lemma keep_observe_any: "state_io_rel R (observe g ev)"
  by (auto simp: observe_def Let_def trace)

lemma keep_record_any: "state_io_rel R (record_ev e)"
  by (simp add: state_io_rel_def record_ev_def trace)

lemma keep_emit_any: "state_io_rel R (emit b e)"
  by (simp add: emit_def keep_ret keep_record_any)

lemmas keep_any = keep_observe_any keep_record_any keep_emit_any

end

text \<open>What the process holds in memory, the trace and the files apart.\<close>

definition memory :: "world \<Rightarrow> (string \<rightharpoonup> int) \<times> tracked_jar list \<times> refresher_state" where
  "memory w = (w_accepted w, w_jars w, w_ref w)"

text \<open>A computation that leaves the memory alone and shows nothing outside.\<close>

definition calm :: "world \<Rightarrow> world \<Rightarrow> bool" where
  "calm w w' = (memory w' = memory w \<and> visible w' = visible w)"

interpretation calm: quiet_preorder calm
  by unfold_locales (simp_all add: calm_def memory_def push_def visible_def)

definition extends :: "world \<Rightarrow> world \<Rightarrow> bool" where
  "extends w w' = (\<exists>g. w_trace w' = g @ w_trace w)"

interpretation ext: world_preorder extends
  by unfold_locales (auto simp: extends_def push_def)

interpretation at_path: world_preorder "\<lambda>w w'. w_files w' p = w_files w p" for p
  by unfold_locales (simp_all add: push_def)

lemma io_rel_run: "state_io_rel R m \<Longrightarrow> R w (snd (run_state m w))"
  by (simp add: state_io_rel_def)

text \<open>From a trace on, no system call fails and a context does not end.\<close>

definition undisturbed :: "env \<Rightarrow> trace \<Rightarrow> ctx \<Rightarrow> bool" where
  "undisturbed E h c = (\<forall>g. (\<forall>s. \<not> e_fault E (g @ h) s) \<and> e_ctx E (g @ h) c = CtxLive)"

lemma undisturbed_now: "undisturbed E h c \<Longrightarrow> \<not> e_fault E h s \<and> e_ctx E h c = CtxLive"
  unfolding undisturbed_def by (metis append_Nil)

lemma undisturbed_Cons: "undisturbed E h c \<Longrightarrow> undisturbed E (e # h) c"
  unfolding undisturbed_def by (metis append_Cons append.assoc append_Nil)

lemma undisturbed_push: "undisturbed E (w_trace w) c \<Longrightarrow> undisturbed E (w_trace (push e w)) c"
  by (simp add: push_def undisturbed_Cons)

lemma wp_now [wp_simps]: "wp (now_op E) Q w = Q (e_now E (w_trace w)) (push (EvNow (e_now E (w_trace w))) w)"
  by (simp add: now_op_def wp_observe)

lemma wp_sys [wp_simps]:
  "wp (sys E s) Q w = Q (\<not> e_fault E (w_trace w) s) (push (EvSys s (\<not> e_fault E (w_trace w) s)) w)"
  by (simp add: sys_def wp_observe)

lemma wp_context_err [wp_simps]:
  "wp (context_err E c) Q w =
     (case c of CtxNil \<Rightarrow> Q None w
      | Ctx n \<Rightarrow> Q (ctx_error (e_ctx E (w_trace w) c)) (push (EvCtx c (e_ctx E (w_trace w) c)) w))"
  by (cases c) (simp_all add: context_err_def wp_simps)

lemma push_fields [simp]:
  "w_trace (push e w) = e # w_trace w" "w_files (push e w) = w_files w"
  "w_accepted (push e w) = w_accepted w" "w_jars (push e w) = w_jars w" "w_ref (push e w) = w_ref w"
  by (simp_all add: push_def)

lemma jar_at_push [simp]: "jar_at (push e w) j = jar_at w j"
  by (simp add: jar_at_def)

lemma memory_push [simp]: "memory (push e w) = memory w"
  by (simp add: memory_def)

lemma calm_push [simp]: "quiet e \<Longrightarrow> calm w (push e v) \<longleftrightarrow> calm w v"
  by (auto simp: calm_def)

lemma wpI_run: "wp m Q w \<Longrightarrow> run_state m w = (r, w') \<Longrightarrow> Q r w'"
  by (simp add: wp_def)

lemma wp_keeps: "state_io_rel R m \<Longrightarrow> wp m (\<lambda>r w'. R w w') w"
  by (simp add: state_io_rel_def wp_def split: prod.splits) (metis snd_conv)

lemma wp_keeps_mono: "state_io_rel R m \<Longrightarrow> (\<And>r w'. R w w' \<Longrightarrow> Q r w') \<Longrightarrow> wp m Q w"
  using wp_keeps wp_mono by metis

lemma keeps_wpI: "(\<And>w. wp m (\<lambda>r w'. R w w') w) \<Longrightarrow> state_io_rel R m"
  by (simp add: state_io_rel_def wp_def case_prod_beta)

lemma wp_any: "(\<And>r w'. Q r w') \<Longrightarrow> wp m Q w"
  by (simp add: wp_def split: prod.split)

text \<open>Two facts about one run, one of them a preorder.\<close>

lemma wp_keeps_conj: "state_io_rel R m \<Longrightarrow> wp m (\<lambda>r w'. R w w' \<longrightarrow> Q r w') w \<Longrightarrow> wp m Q w"
  using wp_keeps [of R m w] by (simp add: wp_def split: prod.splits)

section \<open>A concrete outside\<close>

text \<open>
  A machine where nothing fails: a clock of one second per event, a server that answers
  every request with an empty 200. The theorems with hypotheses are instantiated at it.
\<close>

definition sample_env :: env where
  "sample_env =
     \<lparr>e_now = (\<lambda>h. (1700000000 + int (length h)) * second), e_ctx = (\<lambda>h c. CtxLive),
      e_http = (\<lambda>h rq. HttpOk (plain_response 200) []), e_fault = (\<lambda>h s. False),
      e_flock = (\<lambda>h p. FlockOk), e_patience = (\<lambda>h. 64), e_files = (\<lambda>h fs. fs),
      e_accepted = (\<lambda>h. Map.empty), e_rand = (\<lambda>h. 0), e_tmp = (\<lambda>h. ''1''), e_uid = 1000,
      e_flight = (\<lambda>h. initial_refresher), e_zones = (\<lambda>s t. None), e_layout = (\<lambda>r. \<lparr>ly_zone = (\<lambda>i. 0), ly_nil = True\<rparr>)\<rparr>"

definition sample_world :: world where
  "sample_world = \<lparr>w_trace = [], w_files = Map.empty, w_accepted = Map.empty, w_jars = [],
     w_ref = initial_refresher\<rparr>"

lemma sample_fields [simp]:
  "e_now sample_env h = (1700000000 + int (length h)) * second" "e_ctx sample_env h c = CtxLive"
  "e_http sample_env h rq = HttpOk (plain_response 200) []" "\<not> e_fault sample_env h s"
  "e_flock sample_env h p = FlockOk" "e_patience sample_env h = 64" "e_files sample_env h fs = fs"
  "e_accepted sample_env h = Map.empty" "e_rand sample_env h = 0" "e_tmp sample_env h = ''1''"
  "e_uid sample_env = 1000" "w_trace sample_world = []" "w_files sample_world = Map.empty"
  "w_accepted sample_world = Map.empty" "w_jars sample_world = []" "w_ref sample_world = initial_refresher"
  by (simp_all add: sample_env_def sample_world_def)

end
