(* ===== verification/Session_Store.thy ===== *)
theory Session_Store
  imports World
begin

text \<open>
  session_store.go: the file store of session records. A path is the list of its
  components; the directory of a store is taken in its cleaned form, so a spelling with
  \<^verbatim>\<open>..\<close> behind a symbolic link is not covered. Permission bits are numbers (0700 is 448,
  0600 is 384).
\<close>

section \<open>Keys and paths\<close>

record session_key =
  sk_endpoint :: string
  sk_username :: string
  sk_impersonate :: string
  sk_fingerprint :: string

definition current_store_version :: int where "current_store_version = 1"
definition max_record_bytes :: nat where "max_record_bytes = 2 ^ 20"
definition max_accepted_step :: int where "max_accepted_step = (2 ^ 63 - 32) div 30"

definition unsafe_err :: "string \<Rightarrow> go_error" where
  "unsafe_err m = wrap_sentinel ErrSessionCacheUnsafe m"

definition corrupt_err :: "string \<Rightarrow> go_error" where
  "corrupt_err m = wrap_sentinel ErrSessionCacheCorrupt m"

definition validate_key :: "session_key \<Rightarrow> go_error option" where
  "validate_key k =
     (if trim_space (sk_endpoint k) = [] \<or> trim_space (sk_username k) = []
         \<or> nul \<in> set (sk_username k) \<or> nul \<in> set (sk_endpoint k)
      then Some (unsafe_err ''endpoint and username are required'') else None)"

fun clean_step :: "string list \<Rightarrow> string list \<Rightarrow> path" where
  "clean_step acc [] = rev acc"
| "clean_step acc (c # cs) =
     (if c = [] \<or> c = ''.'' then clean_step acc cs
      else if c = ''..'' then clean_step (tl acc) cs
      else clean_step (c # acc) cs)"

text \<open>\<^verbatim>\<open>filepath.Clean\<close> of an absolute path.\<close>

definition clean_path :: "string \<Rightarrow> path" where
  "clean_path s = clean_step [] (split_on (CHR ''/'') s)"

definition is_abs :: "string \<Rightarrow> bool" where
  "is_abs s = has_prefix s ''/''"

definition entry_name :: "session_key \<Rightarrow> string" where
  "entry_name k =
     ''session-'' @ sha256_hex (join_with [nul] [''entry'', sk_endpoint k, sk_username k, sk_impersonate k])
       @ ''.json''"

section \<open>Files\<close>

definition lstat :: "env \<Rightarrow> path \<Rightarrow> (world, go_error + inode) state" where
  "lstat E p =
     do { ok \<leftarrow> sys E SysLstat;
          node \<leftarrow> asks (\<lambda>w. w_files w p);
          ret (if \<not> ok then Inl (Plain ''lstat'')
               else case node of None \<Rightarrow> Inl (Sentinel OsErrNotExist) | Some i \<Rightarrow> Inr i) }"

definition owned_by_current_user :: "env \<Rightarrow> inode \<Rightarrow> bool" where
  [simp]: "owned_by_current_user E i = (i_uid i = e_uid E)"

definition private_file :: "env \<Rightarrow> inode \<Rightarrow> bool" where
  "private_file E i = (i_type i = Regular \<and> i_perm i = 384 \<and> owned_by_current_user E i)"

definition validate_private :: "env \<Rightarrow> inode \<Rightarrow> go_error option" where
  "validate_private E i =
     (if private_file E i then None
      else Some (unsafe_err ''cache file must be an owned 0600 regular file''))"

text \<open>The path itself, then its ancestors up to the root.\<close>

fun ancestors :: "path \<Rightarrow> path list" where
  "ancestors [] = [[]]"
| "ancestors p = p # ancestors (butlast p)"

declare ancestors.simps(2) [simp del]

lemma ancestors_snoc [simp]: "ancestors (p @ [c]) = (p @ [c]) # ancestors p"
  by (cases p) (simp_all add: ancestors.simps(2) butlast_append)

fun reject_symlinks :: "env \<Rightarrow> path list \<Rightarrow> (world, go_error option) state" where
  "reject_symlinks E [] = ret None"
| "reject_symlinks E (p # ps) =
     do { info \<leftarrow> lstat E p;
          case info of
            Inr i \<Rightarrow>
              if i_type i = Symlink then ret (Some (unsafe_err ''cache path contains a symlink''))
              else reject_symlinks E ps
          | Inl e \<Rightarrow>
              if errors_is e OsErrNotExist then reject_symlinks E ps
              else ret (Some (unsafe_err ''inspect cache path'')) }"

definition private_dir :: "env \<Rightarrow> inode" where
  "private_dir E = \<lparr>i_type = Directory, i_perm = 448, i_uid = e_uid E, i_data = []\<rparr>"

text \<open>\<^verbatim>\<open>os.MkdirAll\<close>: fails on a component that is not a directory, creates the missing ones.\<close>

definition make_dirs :: "env \<Rightarrow> path \<Rightarrow> files \<Rightarrow> files" where
  "make_dirs E p fs = (\<lambda>q. if fs q = None \<and> q \<in> set (ancestors p) then Some (private_dir E) else fs q)"

definition mkdir_all :: "env \<Rightarrow> path \<Rightarrow> (world, go_error option) state" where
  "mkdir_all E p =
     do { ok \<leftarrow> sys E SysMkdirAll;
          fs \<leftarrow> asks w_files;
          if \<not> ok \<or> list_ex (\<lambda>q. case fs q of None \<Rightarrow> False | Some i \<Rightarrow> i_type i \<noteq> Directory) (ancestors p)
          then ret (Some (Plain ''mkdir''))
          else do { modify (\<lambda>w. w\<lparr>w_files := make_dirs E p (w_files w)\<rparr>); ret None } }"

definition make_private_dir :: "env \<Rightarrow> path \<Rightarrow> (world, go_error option) state" where
  "make_private_dir E p =
     do { made \<leftarrow> mkdir_all E p;
          case made of
            Some _ \<Rightarrow> ret (Some (unsafe_err ''create cache directory''))
          | None \<Rightarrow>
              do { info \<leftarrow> lstat E p;
                   case info of
                     Inl _ \<Rightarrow> ret (Some (unsafe_err ''inspect cache directory''))
                   | Inr i \<Rightarrow>
                       ensure (i_type i = Directory \<and> i_perm i = 448 \<and> owned_by_current_user E i)
                         (unsafe_err ''cache directory must be an owned 0700 directory'') } }"

definition ensure_dir :: "env \<Rightarrow> string \<Rightarrow> (world, go_error option) state" where
  "ensure_dir E dir =
     (if trim_space dir = [] \<or> \<not> is_abs dir
      then ret (Some (unsafe_err ''cache directory must be an absolute path''))
      else let p = clean_path dir
           in then_ok (reject_symlinks E (ancestors p)) (make_private_dir E p))"

definition entry_path :: "env \<Rightarrow> string \<Rightarrow> session_key \<Rightarrow> (world, go_error + path) state" where
  "entry_path E dir k =
     check_ok (ret (validate_key k))
       (if trim_space (sk_fingerprint k) = []
        then ret (Inl (wrap_sentinel ErrSessionCacheCredentialMismatch ''credential fingerprint is required''))
        else check_ok (ensure_dir E dir) (ret (Inr (clean_path dir @ [entry_name k]))))"

definition read_private_file :: "env \<Rightarrow> path \<Rightarrow> (world, go_error + string) state" where
  "read_private_file E p =
     do { opened \<leftarrow> sys E SysOpen;
          node \<leftarrow> asks (\<lambda>w. w_files w p);
          case node of
            None \<Rightarrow> ret (Inl (if opened then Sentinel OsErrNotExist else Plain ''open''))
          | Some i \<Rightarrow>
              if \<not> opened then ret (Inl (Plain ''open''))
              else if i_type i = Symlink then ret (Inl (unsafe_err ''cache entry is a symlink''))
              else do {
                inspected \<leftarrow> sys E SysFstat;
                if \<not> inspected then ret (Inl (unsafe_err ''inspect cache entry''))
                else check_ok (ret (validate_private E i))
                  (do { readable \<leftarrow> sys E SysRead;
                        let payload = take (max_record_bytes + 1) (i_data i);
                        ret (if \<not> readable then Inl (corrupt_err ''read cache entry'')
                             else if max_record_bytes < length payload
                             then Inl (corrupt_err ''cache entry is too large'')
                             else Inr payload) }) } }"

text \<open>\<open>NewFileSessionStore\<close>; a store is known by its directory.\<close>

definition new_file_session_store :: "env \<Rightarrow> string \<Rightarrow> (world, go_error + string) state" where
  "new_file_session_store E dir = check_ok (ensure_dir E dir) (ret (Inr dir))"

section \<open>Records\<close>

definition validate_record :: "session_key \<Rightarrow> session_record \<Rightarrow> gtime \<Rightarrow> go_error option" where
  "validate_record k r now =
     (if rec_version r \<noteq> current_store_version
        then Some (corrupt_err ''unsupported session record version'')
      else if rec_endpoint r \<noteq> sk_endpoint k \<or> rec_username r \<noteq> sk_username k
              \<or> rec_impersonate r \<noteq> sk_impersonate k
        then Some (Sentinel ErrSessionCacheCredentialMismatch)
      else if rec_fingerprint r = [] \<or> rec_fingerprint r \<noteq> sk_fingerprint k
        then Some (Sentinel ErrSessionCacheCredentialMismatch)
      else if rec_cookies r = [] \<and> is_zero (rec_retry_not_before r) \<and> rec_otp_binding r = []
        then Some (corrupt_err ''session has no cookies'')
      else if rec_otp_binding r \<noteq> []
              \<and> (length (rec_otp_binding r) \<noteq> 64 \<or> rec_accepted_step r < 0
                 \<or> max_accepted_step < rec_accepted_step r)
        then Some (corrupt_err ''invalid accepted OTP metadata'')
      else if rec_otp_binding r \<noteq> [] \<and> \<not> hex_valid (rec_otp_binding r)
        then Some (corrupt_err ''invalid accepted OTP binding'')
      else if rec_otp_binding r = [] \<and> rec_accepted_step r \<noteq> 0
        then Some (corrupt_err ''OTP step has no secret binding'')
      else first_some (\<lambda>c. validate_session_cookie c now) (rec_cookies r))"

definition fill_record :: "session_key \<Rightarrow> session_record \<Rightarrow> session_record" where
  "fill_record k r =
     r\<lparr>rec_version := (if rec_version r = 0 then current_store_version else rec_version r),
       rec_endpoint := (if rec_endpoint r = [] then sk_endpoint k else rec_endpoint r),
       rec_username := (if rec_username r = [] then sk_username k else rec_username r),
       rec_impersonate := (if rec_impersonate r = [] then sk_impersonate k else rec_impersonate r),
       rec_fingerprint := (if rec_fingerprint r = [] then sk_fingerprint k else rec_fingerprint r)\<rparr>"

lemma fill_record_keeps [simp]:
  "rec_cookies (fill_record k r) = rec_cookies r" "rec_generation (fill_record k r) = rec_generation r"
  "rec_retry_not_before (fill_record k r) = rec_retry_not_before r"
  "rec_accepted_step (fill_record k r) = rec_accepted_step r" "rec_otp_binding (fill_record k r) = rec_otp_binding r"
  by (simp_all add: fill_record_def)

section \<open>Load\<close>

definition load_entry :: "env \<Rightarrow> session_key \<Rightarrow> path \<Rightarrow> (world, session_record \<times> go_error option) state" where
  "load_entry E k p =
     do { got \<leftarrow> read_private_file E p;
          case got of
            Inl e \<Rightarrow>
              ret (zero_record, Some (if errors_is e OsErrNotExist then Sentinel ErrSessionCacheNotFound else e))
          | Inr payload \<Rightarrow>
              (case decode_record payload of
                 None \<Rightarrow> ret (zero_record, Some (corrupt_err ''invalid JSON''))
               | Some r \<Rightarrow>
                   do { now \<leftarrow> now_op E;
                        ret (case validate_record k r now of
                               None \<Rightarrow> (r, None)
                             | Some e \<Rightarrow> if errors_is e ErrSessionExpired then (r, Some e)
                                         else (zero_record, Some e)) }) }"

definition load :: "env \<Rightarrow> string \<Rightarrow> ctx \<Rightarrow> session_key \<Rightarrow> (world, session_record \<times> go_error option) state" where
  "load E dir c k =
     do { early \<leftarrow> context_err E c;
          case early of
            Some e \<Rightarrow> ret (zero_record, Some e)
          | None \<Rightarrow>
              do { located \<leftarrow> entry_path E dir k;
                   case located of
                     Inl e \<Rightarrow> ret (zero_record, Some e)
                   | Inr p \<Rightarrow> load_entry E k p } }"

section \<open>Save\<close>

definition set_file :: "path \<Rightarrow> inode \<Rightarrow> (world, unit) state" where
  "set_file p i = modify (\<lambda>w. w\<lparr>w_files := (w_files w)(p \<mapsto> i)\<rparr>)"

definition update_file :: "path \<Rightarrow> (inode \<Rightarrow> inode) \<Rightarrow> (world, unit) state" where
  "update_file p f = modify (\<lambda>w. w\<lparr>w_files := (w_files w)(p := map_option f (w_files w p))\<rparr>)"

definition sys_ok :: "env \<Rightarrow> syscall \<Rightarrow> go_error \<Rightarrow> (world, go_error option) state" where
  "sys_ok E s e = do { ok \<leftarrow> sys E s; ret (if ok then None else Some e) }"

definition validate_existing :: "env \<Rightarrow> path \<Rightarrow> (world, go_error option) state" where
  "validate_existing E p =
     do { info \<leftarrow> lstat E p;
          ret (case info of
                 Inl e \<Rightarrow> Some e
               | Inr i \<Rightarrow> if i_type i = Symlink then Some (unsafe_err ''cache entry is a symlink'')
                          else validate_private E i) }"

definition validate_temp :: "env \<Rightarrow> path \<Rightarrow> (world, go_error option) state" where
  "validate_temp E p =
     do { info \<leftarrow> lstat E p;
          ret (case info of
                 Inl _ \<Rightarrow> Some (unsafe_err ''inspect temporary entry'')
               | Inr i \<Rightarrow> validate_private E i) }"

text \<open>\<^verbatim>\<open>os.CreateTemp\<close>: a fresh name in the directory, mode 0600.\<close>

definition create_temp :: "env \<Rightarrow> path \<Rightarrow> (world, go_error + path) state" where
  "create_temp E dirp =
     do { ok \<leftarrow> sys E SysCreateTemp;
          name \<leftarrow> observe (e_tmp E) EvTmp;
          let p = dirp @ [''.session-'' @ name @ ''.tmp''];
          taken \<leftarrow> asks (\<lambda>w. w_files w p \<noteq> None);
          if \<not> ok \<or> taken then ret (Inl (unsafe_err ''create temporary entry''))
          else do { set_file p \<lparr>i_type = Regular, i_perm = 384, i_uid = e_uid E, i_data = []\<rparr>;
                    ret (Inr p) } }"

text \<open>A failed write leaves some prefix of the payload behind.\<close>

definition write_temp :: "env \<Rightarrow> path \<Rightarrow> string \<Rightarrow> (world, go_error option) state" where
  "write_temp E p payload =
     do { ok \<leftarrow> sys E SysWrite;
          n \<leftarrow> observe (e_rand E) EvRand;
          let len = nat (n mod (int (length payload) + 1));
          update_file p (\<lambda>i. i\<lparr>i_data := (if ok then payload else take len payload)\<rparr>);
          ret (if ok then None else Some (unsafe_err ''write temporary entry'')) }"

definition rename_file :: "env \<Rightarrow> path \<Rightarrow> path \<Rightarrow> (world, go_error option) state" where
  "rename_file E src dst =
     do { ok \<leftarrow> sys E SysRename;
          if ok then do { modify (\<lambda>w. w\<lparr>w_files := (w_files w)(dst := w_files w src, src := None)\<rparr>);
                          ret None }
          else ret (Some (unsafe_err ''replace session entry'')) }"

definition remove_file :: "env \<Rightarrow> path \<Rightarrow> (world, unit) state" where
  "remove_file E p =
     do { ok \<leftarrow> sys E SysRemove;
          if ok then modify (\<lambda>w. w\<lparr>w_files := (w_files w)(p := None)\<rparr>) else ret () }"

definition sync_directory :: "env \<Rightarrow> (world, go_error option) state" where
  "sync_directory E =
     then_ok (sys_ok E SysOpenDir (unsafe_err ''open cache directory''))
       (sys_ok E SysSyncDir (unsafe_err ''sync cache directory''))"

definition publish :: "env \<Rightarrow> path \<Rightarrow> path \<Rightarrow> string \<Rightarrow> (world, go_error option) state" where
  "publish E tmp dst payload =
     then_ok
       (do { ok \<leftarrow> sys E SysChmod;
             if ok then do { update_file tmp (\<lambda>i. i\<lparr>i_perm := 384\<rparr>); ret None }
             else ret (Some (unsafe_err ''secure temporary entry'')) })
       (then_ok (write_temp E tmp payload)
         (then_ok (sys_ok E SysFsync (unsafe_err ''sync temporary entry''))
           (then_ok (sys_ok E SysClose (unsafe_err ''close temporary entry''))
             (then_ok (validate_temp E tmp)
               (then_ok (rename_file E tmp dst) (sync_directory E))))))"

text \<open>The temporary file is closed and removed on every way out.\<close>

definition replace_entry :: "env \<Rightarrow> path \<Rightarrow> path \<Rightarrow> string \<Rightarrow> (world, go_error option) state" where
  "replace_entry E dirp dst payload =
     let_err (create_temp E dirp)
       (\<lambda>tmp. do { result \<leftarrow> publish E tmp dst payload; remove_file E tmp; ret result })"

definition save_entry :: "env \<Rightarrow> string \<Rightarrow> session_key \<Rightarrow> session_record \<Rightarrow> path \<Rightarrow> (world, go_error option) state" where
  "save_entry E dir k r p =
     do { now \<leftarrow> now_op E;
          let r = fill_record k r;
          case validate_record k r now of
            Some e \<Rightarrow> ret (Some e)
          | None \<Rightarrow>
              (case encode_for E r of
                 None \<Rightarrow> ret (Some (corrupt_err ''encode failed''))
               | Some payload \<Rightarrow>
                   do { existing \<leftarrow> validate_existing E p;
                        case existing of
                          None \<Rightarrow> replace_entry E (clean_path dir) p payload
                        | Some e \<Rightarrow>
                            if errors_is e OsErrNotExist then replace_entry E (clean_path dir) p payload
                            else ret (Some e) }) }"

definition save :: "env \<Rightarrow> string \<Rightarrow> ctx \<Rightarrow> session_key \<Rightarrow> session_record \<Rightarrow> (world, go_error option) state" where
  "save E dir c k r =
     then_ok (context_err E c) (let_err (entry_path E dir k) (save_entry E dir k r))"


section \<open>What the store leaves alone\<close>

lemmas file_ops = lstat_def ensure_dir_def make_private_dir_def entry_path_def mkdir_all_def read_private_file_def
  set_file_def update_file_def sys_ok_def validate_existing_def validate_temp_def create_temp_def
  write_temp_def rename_file_def remove_file_def sync_directory_def publish_def replace_entry_def save_entry_def
  Let_def

lemma calm_files [simp]: "calm w (w\<lparr>w_files := fs\<rparr>)"
  by (simp add: calm_def memory_def visible_def)

lemma reject_symlinks_calm: "state_io_rel calm (reject_symlinks E ps)"
  by (induction ps) (auto simp: lstat_def intro!: calm.keep_rules split: sum.splits)

lemma load_calm: "state_io_rel calm (load E d c k)"
  unfolding load_def load_entry_def file_ops
  by (intro calm.keep_rules calm.keep_modify reject_symlinks_calm) simp_all

lemma save_calm: "state_io_rel calm (save E d c k r)"
  unfolding save_def file_ops
  by (intro calm.keep_rules calm.keep_modify reject_symlinks_calm) simp_all

section \<open>Where an entry lives\<close>

lemma ancestors_length: "q \<in> set (ancestors p) \<Longrightarrow> length q \<le> length p"
  by (induction p rule: rev_induct) auto

lemma self_in_ancestors: "p \<in> set (ancestors p)"
  by (cases p rule: rev_cases) auto

lemma below_not_ancestor [simp]: "p @ [n] \<notin> set (ancestors p)"
  using ancestors_length [of "p @ [n]" p] by auto

lemma entry_not_temp: "entry_name k \<noteq> ''.session-'' @ s"
  by (simp add: entry_name_def)

lemma entry_is_regular: "clean_path dir @ [entry_name k] \<noteq> clean_path dir @ [''.session-'' @ s]"
  using entry_not_temp by simp

definition nul_free :: "session_key \<Rightarrow> bool" where
  "nul_free k = (nul \<notin> set (sk_endpoint k) \<and> nul \<notin> set (sk_username k))"

lemma validate_key_nul_free: "validate_key k = None \<Longrightarrow> nul_free k"
  by (simp add: validate_key_def nul_free_def split: if_splits)

definition same_target :: "session_key \<Rightarrow> session_key \<Rightarrow> bool" where
  "same_target k k' = (sk_endpoint k = sk_endpoint k' \<and> sk_username k = sk_username k'
     \<and> sk_impersonate k = sk_impersonate k')"

lemma entry_material_inj:
  assumes "nul_free k" "nul_free k'"
    and "join_with [nul] [''entry'', sk_endpoint k, sk_username k, sk_impersonate k]
       = join_with [nul] [''entry'', sk_endpoint k', sk_username k', sk_impersonate k']"
  shows "same_target k k'"
proof -
  have "sk_endpoint k @ nul # sk_username k @ nul # sk_impersonate k
      = sk_endpoint k' @ nul # sk_username k' @ nul # sk_impersonate k'"
    using assms(3) by simp
  then have "sk_endpoint k = sk_endpoint k'
      \<and> sk_username k @ nul # sk_impersonate k = sk_username k' @ nul # sk_impersonate k'"
    using assms(1,2) by (intro nul_terminated_inj) (auto simp: nul_free_def)
  moreover then have "sk_username k = sk_username k' \<and> sk_impersonate k = sk_impersonate k'"
    using assms(1,2) by (intro nul_terminated_inj) (auto simp: nul_free_def)
  ultimately show ?thesis by (simp add: same_target_def)
qed

section \<open>The directory\<close>

definition dir_ok :: "env \<Rightarrow> string \<Rightarrow> files \<Rightarrow> bool" where
  "dir_ok E dir fs =
     (trim_space dir \<noteq> [] \<and> is_abs dir
      \<and> list_all (\<lambda>q. case fs q of None \<Rightarrow> False | Some i \<Rightarrow> i_type i = Directory) (ancestors (clean_path dir))
      \<and> (case fs (clean_path dir) of None \<Rightarrow> False | Some i \<Rightarrow> i_perm i = 448 \<and> i_uid i = e_uid E))"

text \<open>What \<open>ensure_dir\<close> may do: nothing but create missing components of the directory, as 0700
  directories; what exists stays as it is.\<close>

definition dir_grown :: "string \<Rightarrow> path \<Rightarrow> inode option \<Rightarrow> inode option \<Rightarrow> bool" where
  "dir_grown dir q old new =
     (new = old \<or> q \<in> set (ancestors (clean_path dir)) \<and> old = None
        \<and> (case new of None \<Rightarrow> False | Some i \<Rightarrow> i_type i = Directory \<and> i_perm i = 448))"

lemma dir_grown_refl [simp]: "dir_grown dir q x x"
  by (simp add: dir_grown_def)

lemma dir_grown_trans: "dir_grown dir q x y \<Longrightarrow> dir_grown dir q y z \<Longrightarrow> dir_grown dir q x z"
  by (auto simp: dir_grown_def split: option.splits)

lemma dir_grown_outside [simp]: "q \<notin> set (ancestors (clean_path dir)) \<Longrightarrow> dir_grown dir q x y \<longleftrightarrow> y = x"
  by (simp add: dir_grown_def)

lemma dir_grown_kept: "dir_grown dir q (Some i) y \<Longrightarrow> y = Some i"
  by (simp add: dir_grown_def)

definition dir_step :: "string \<Rightarrow> world \<Rightarrow> world \<Rightarrow> bool" where
  "dir_step dir w w' = (calm w w' \<and> (\<forall>q. dir_grown dir q (w_files w q) (w_files w' q)))"

interpretation dirs: quiet_preorder "dir_step dir" for dir
  by unfold_locales (auto simp: dir_step_def calm_def intro: dir_grown_trans)

lemma reject_symlinks_dir: "state_io_rel (dir_step dir) (reject_symlinks E ps)"
  by (induction ps) (auto simp: lstat_def intro!: dirs.keep_rules split: sum.splits)

lemma ensure_dir_step: "state_io_rel (dir_step dir) (ensure_dir E dir)"
  unfolding file_ops
  by (intro dirs.keep_rules dirs.keep_modify reject_symlinks_dir)
     (auto simp: dir_step_def make_dirs_def dir_grown_def private_dir_def)

lemma dir_step_below: "dir_step dir w w' \<Longrightarrow> w_files w' (clean_path dir @ [n]) = w_files w (clean_path dir @ [n])"
  unfolding dir_step_def by (metis below_not_ancestor dir_grown_outside)

lemma ensure_dir_post: "wp (ensure_dir E dir) (\<lambda>r w'. r = None \<longrightarrow> dir_ok E dir (w_files w')) w"
proof (cases "trim_space dir = [] \<or> \<not> is_abs dir")
  case True
  then show ?thesis by (simp add: ensure_dir_def wp_simps)
next
  case False
  let ?as = "ancestors (clean_path dir)"
  have made: "list_all (\<lambda>q. case make_dirs E (clean_path dir) fs q of None \<Rightarrow> False | Some i \<Rightarrow> i_type i = Directory) ?as"
    if "\<not> list_ex (\<lambda>q. case fs q of None \<Rightarrow> False | Some i \<Rightarrow> i_type i \<noteq> Directory) ?as" for fs
    using that by (auto simp: list_all_iff list_ex_iff make_dirs_def private_dir_def split: option.splits)
  show ?thesis
    using False
    by (auto simp: ensure_dir_def make_private_dir_def Let_def wp_simps mkdir_all_def lstat_def dir_ok_def made
        intro!: wp_keeps_mono [OF reject_symlinks_dir [of dir]] split: option.splits)
qed

definition entry_file :: "string \<Rightarrow> session_key \<Rightarrow> path" where
  "entry_file dir k = clean_path dir @ [entry_name k]"

lemma errors_is_unsafe [err_simps]: "errors_is (unsafe_err m) s \<longleftrightarrow> s = ErrSessionCacheUnsafe"
  and errors_is_corrupt [err_simps]: "errors_is (corrupt_err m) s \<longleftrightarrow> s = ErrSessionCacheCorrupt"
  by (auto simp: unsafe_err_def corrupt_err_def err_simps)

definition only_unsafe :: "go_error option \<Rightarrow> bool" where
  "only_unsafe r = (case r of None \<Rightarrow> True | Some e \<Rightarrow> \<exists>m. e = unsafe_err m)"

lemma only_unsafe_simps [simp]: "only_unsafe None" "only_unsafe (Some (unsafe_err m))"
  by (auto simp: only_unsafe_def)

lemma reject_symlinks_unsafe: "wp (reject_symlinks E ps) (\<lambda>r w'. only_unsafe r) w"
  by (induction ps arbitrary: w)
     (auto simp: wp_simps lstat_def split: sum.splits option.splits)

lemma ensure_dir_unsafe: "wp (ensure_dir E dir) (\<lambda>r w'. only_unsafe r) w"
proof -
  have lift: "wp (reject_symlinks E ps) Q w"
    if "\<And>r w'. only_unsafe r \<Longrightarrow> Q r w'" for ps Q w
    using that by (rule wp_mono [OF reject_symlinks_unsafe])
  show ?thesis
    by (auto simp: ensure_dir_def make_private_dir_def Let_def wp_simps mkdir_all_def lstat_def
        intro!: lift split: option.splits)
qed

definition key_ok :: "session_key \<Rightarrow> bool" where
  "key_ok k = (validate_key k = None \<and> trim_space (sk_fingerprint k) \<noteq> [])"

lemma entry_path_post:
  "wp (entry_path E dir k) (\<lambda>r w'. dir_step dir w w' \<and>
     (case r of Inl e \<Rightarrow> \<not> errors_is e ErrSessionCacheNotFound \<and> \<not> errors_is e ErrSessionExpired
        \<and> \<not> errors_is e OsErrNotExist
      | Inr p \<Rightarrow> p = entry_file dir k \<and> dir_ok E dir (w_files w') \<and> key_ok k)) w"
  using wp_conj [OF wp_conj [OF ensure_dir_unsafe ensure_dir_post] wp_keeps [OF ensure_dir_step], of E dir w]
  by (auto simp: entry_path_def wp_simps validate_key_def err_simps dirs.refl only_unsafe_def entry_file_def key_ok_def
      elim!: wp_mono split: option.splits)

lemma read_private_file_post:
  "wp (read_private_file E p) (\<lambda>r w'. w_files w' = w_files w \<and> calm w w' \<and>
     (case r of Inl e \<Rightarrow> (errors_is e OsErrNotExist \<longrightarrow> w_files w p = None)
          \<and> \<not> errors_is e ErrSessionCacheNotFound \<and> \<not> errors_is e ErrSessionExpired
      | Inr payload \<Rightarrow> \<exists>i. w_files w p = Some i \<and> private_file E i
          \<and> length (i_data i) \<le> max_record_bytes \<and> payload = i_data i)) w"
  by (auto simp: read_private_file_def wp_simps err_simps validate_private_def Let_def calm.refl
      split: option.splits)

text \<open>What \<open>load\<close> promises.\<close>

definition load_spec :: "env \<Rightarrow> string \<Rightarrow> session_key \<Rightarrow> files \<Rightarrow> session_record \<times> go_error option \<Rightarrow> world \<Rightarrow> bool" where
  "load_spec E dir k fs res w' =
     (case snd res of
        None \<Rightarrow> \<exists>i h. fs (entry_file dir k) = Some i \<and> private_file E i
           \<and> length (i_data i) \<le> max_record_bytes \<and> decode_record (i_data i) = Some (fst res)
           \<and> validate_record k (fst res) (e_now E h) = None
           \<and> w_trace w' = EvNow (e_now E h) # h
      | Some e \<Rightarrow>
          (errors_is e ErrSessionCacheNotFound \<longrightarrow> fst res = zero_record \<and> fs (entry_file dir k) = None)
          \<and> (\<not> errors_is e ErrSessionExpired \<longrightarrow> fst res = zero_record))"

lemma validate_record_errors:
  assumes "validate_record k r now = Some e"
  shows "\<not> errors_is e ErrSessionCacheNotFound"
proof (cases "first_some (\<lambda>c. validate_session_cookie c now) (rec_cookies r) = Some e")
  case True
  then obtain c where "validate_session_cookie c now = Some e" by (blast dest: first_some_SomeD)
  then show ?thesis by (auto simp: validate_session_cookie_def err_simps split: if_splits)
next
  case False
  then show ?thesis using assms by (auto simp: validate_record_def err_simps split: if_splits)
qed

lemma entry_unchanged: "dir_step dir w w' \<Longrightarrow> w_files w' (entry_file dir k) = w_files w (entry_file dir k)"
  by (simp add: entry_file_def dir_step_below)

lemma ctx_error_Some: "ctx_error s = Some e \<Longrightarrow> e = Sentinel ContextCanceled \<or> e = Sentinel ContextDeadlineExceeded"
  by (cases s) auto

lemma load_post: "wp (load E dir c k) (\<lambda>res w'. load_spec E dir k (w_files w) res w') w"
proof -
  let ?p = "entry_file dir k"
  have ctx: "load_spec E dir k fs (zero_record, ctx_error s) w'" if "ctx_error s = Some e" for fs s w' e
    using that by (cases s) (auto simp: load_spec_def err_simps)
  have tail: "wp (load_entry E k ?p) (load_spec E dir k (w_files w)) v" if "w_files v ?p = w_files w ?p" for v
    using that
    by (auto simp: load_entry_def wp_simps load_spec_def err_simps validate_record_errors
        intro!: wp_mono [OF read_private_file_post] split: sum.splits option.splits)
  show ?thesis
    unfolding load_def wp_bind
    by (auto simp: wp_simps load_spec_def entry_unchanged err_simps
        intro!: wp_mono [OF entry_path_post] tail dest!: ctx_error_Some
        dest: entry_unchanged split: ctx.splits option.splits sum.splits)
qed

section \<open>Save\<close>

text \<open>Publishing through the temporary file: the target has its old contents or the new ones.\<close>

definition new_file :: "env \<Rightarrow> string \<Rightarrow> inode" where
  "new_file E payload = \<lparr>i_type = Regular, i_perm = 384, i_uid = e_uid E, i_data = payload\<rparr>"

definition publish_spec :: "path \<Rightarrow> path \<Rightarrow> inode \<Rightarrow> files \<Rightarrow> go_error option \<Rightarrow> files \<Rightarrow> bool" where
  "publish_spec tmp dst new fs r fs' =
     ((\<forall>q. q \<noteq> tmp \<and> q \<noteq> dst \<longrightarrow> fs' q = fs q)
      \<and> (fs' dst = fs dst \<or> fs' dst = Some new)
      \<and> (r = None \<longrightarrow> fs' dst = Some new \<and> fs' tmp = None))"

lemma publish_post:
  assumes "w_files w tmp = Some (new_file E [])" and "tmp \<noteq> dst"
  shows "wp (publish E tmp dst payload)
     (\<lambda>r w'. publish_spec tmp dst (new_file E payload) (w_files w) r (w_files w')) w"
  using assms
  by (simp add: publish_def wp_simps write_temp_def update_file_def sys_ok_def validate_temp_def
      lstat_def rename_file_def sync_directory_def Let_def validate_private_def private_file_def
      publish_spec_def new_file_def)

lemma remove_file_post:
  "wp (remove_file E p) (\<lambda>r w'. \<forall>q. q \<noteq> p \<longrightarrow> w_files w' q = w_files w q) w"
  by (simp add: remove_file_def wp_simps)

definition is_temp :: "string \<Rightarrow> path \<Rightarrow> bool" where
  "is_temp dir q = (\<exists>s. q = clean_path dir @ [''.session-'' @ s])"

definition replace_spec :: "env \<Rightarrow> string \<Rightarrow> path \<Rightarrow> string \<Rightarrow> files \<Rightarrow> go_error option \<Rightarrow> files \<Rightarrow> bool" where
  "replace_spec E dir p payload fs res fs' =
     ((\<forall>q. q \<noteq> p \<and> \<not> is_temp dir q \<longrightarrow> fs' q = fs q)
      \<and> (fs' p = fs p \<or> fs' p = Some (new_file E payload))
      \<and> (res = None \<longrightarrow> fs' p = Some (new_file E payload)))"

lemma replace_entry_post:
  assumes "\<not> is_temp dir p"
  shows "wp (replace_entry E (clean_path dir) p payload)
     (\<lambda>r w'. replace_spec E dir p payload (w_files w) r (w_files w')) w"
proof -
  have tmp: "clean_path dir @ [''.session-'' @ s @ t] \<noteq> p" for s t
    using assms by (auto simp: is_temp_def)
  have step: "wp (do { result \<leftarrow> publish E tmp p payload; remove_file E tmp; ret result })
      (\<lambda>r w'. replace_spec E dir p payload fs r (w_files w')) v"
    if "w_files v = fs(tmp \<mapsto> new_file E [])" and "is_temp dir tmp" for fs tmp v
  proof -
    have ne: "tmp \<noteq> p" using that(2) assms by auto
    have other: "\<And>q. \<not> is_temp dir q \<Longrightarrow> q \<noteq> tmp" using that(2) by auto
    have "w_files v tmp = Some (new_file E [])" using that(1) by simp
    from publish_post [OF this ne] show ?thesis
      unfolding wp_bind
    proof (rule wp_mono)
      fix r and u :: world
      assume "publish_spec tmp p (new_file E payload) (w_files v) r (w_files u)"
      then show "wp (remove_file E tmp) (\<lambda>_. wp (ret r) (\<lambda>r w'. replace_spec E dir p payload fs r (w_files w'))) u"
        using that(1) ne other
        by (intro wp_mono [OF remove_file_post])
           (auto simp: wp_simps replace_spec_def publish_spec_def)
    qed
  qed
  let ?tmp = "clean_path dir @ [''.session-'' @ e_tmp E (EvSys SysCreateTemp True # w_trace w) @ ''.tmp'']"
  have temp: "is_temp dir ?tmp" unfolding is_temp_def by blast
  let ?w = "push (EvTmp (e_tmp E (EvSys SysCreateTemp True # w_trace w))) (push (EvSys SysCreateTemp True) w)"
  let ?v = "?w\<lparr>w_files := (w_files ?w)(?tmp \<mapsto> new_file E [])\<rparr>"
  have "wp (do { result \<leftarrow> publish E ?tmp p payload; remove_file E ?tmp; ret result })
      (\<lambda>r w'. replace_spec E dir p payload (w_files w) r (w_files w')) ?v"
    by (rule step [OF _ temp]) simp
  then show ?thesis
    unfolding replace_entry_def create_temp_def set_file_def Let_def wp_let_err new_file_def [symmetric]
    by (simp add: wp_bind wp_sys wp_observe wp_asks wp_ret wp_modify wp_If replace_spec_def)
qed

text \<open>What \<open>save\<close> promises about every path.\<close>

definition stored_in :: "env \<Rightarrow> string \<Rightarrow> session_key \<Rightarrow> session_record \<Rightarrow> files \<Rightarrow> bool" where
  "stored_in E dir k r fs =
     (\<exists>payload h. encode_for E (fill_record k r) = Some payload
        \<and> fs (entry_file dir k) = Some (new_file E payload)
        \<and> validate_record k (fill_record k r) (e_now E h) = None)"

definition save_spec :: "env \<Rightarrow> string \<Rightarrow> session_key \<Rightarrow> session_record \<Rightarrow> files \<Rightarrow> go_error option \<Rightarrow> files \<Rightarrow> bool" where
  "save_spec E dir k r fs res fs' =
     (let p = entry_file dir k
      in (\<forall>q. q \<noteq> p \<and> \<not> is_temp dir q \<longrightarrow> dir_grown dir q (fs q) (fs' q))
         \<and> (fs' p = fs p \<or> stored_in E dir k r fs')
         \<and> (res = None \<longrightarrow> dir_ok E dir fs' \<and> key_ok k \<and> stored_in E dir k r fs'))"

lemma entry_not_is_temp: "\<not> is_temp dir (entry_file dir k)"
  using entry_not_temp by (auto simp: is_temp_def entry_file_def)

lemma temp_not_ancestor: "is_temp dir q \<Longrightarrow> q \<notin> set (ancestors (clean_path dir))"
  by (auto simp: is_temp_def)

lemma dir_ok_cong:
  "dir_ok E dir fs \<Longrightarrow> (\<And>q. q \<in> set (ancestors (clean_path dir)) \<Longrightarrow> fs' q = fs q) \<Longrightarrow> dir_ok E dir fs'"
  by (auto simp: dir_ok_def list_all_iff self_in_ancestors)

lemma entry_not_ancestor: "entry_file dir k \<notin> set (ancestors (clean_path dir))"
  by (simp add: entry_file_def)

lemma replace_save_spec:
  assumes "replace_spec E dir (entry_file dir k) payload fs res fs'"
    and "dir_ok E dir fs" "key_ok k" "encode_for E (fill_record k r) = Some payload"
    and "validate_record k (fill_record k r) (e_now E h) = None"
  shows "save_spec E dir k r fs res fs'"
proof -
  have "dir_ok E dir fs'"
  proof (rule dir_ok_cong [OF assms(2)])
    fix q assume "q \<in> set (ancestors (clean_path dir))"
    then have "q \<noteq> entry_file dir k" "\<not> is_temp dir q"
      using entry_not_ancestor temp_not_ancestor by blast+
    then show "fs' q = fs q" using assms(1) by (simp add: replace_spec_def)
  qed
  moreover have "dir_grown dir q (fs q) (fs' q)" if "q \<noteq> entry_file dir k" "\<not> is_temp dir q" for q
    using that assms(1) by (simp add: replace_spec_def)
  moreover have "fs' (entry_file dir k) = Some (new_file E payload) \<Longrightarrow> stored_in E dir k r fs'"
    using assms(4,5) by (auto simp: stored_in_def)
  ultimately show ?thesis
    using assms(1,3) by (auto simp: save_spec_def replace_spec_def Let_def)
qed

lemma save_entry_post:
  assumes "dir_ok E dir (w_files w)" and "key_ok k"
  shows "wp (save_entry E dir k r (entry_file dir k)) (\<lambda>res w'. save_spec E dir k r (w_files w) res (w_files w')) w"
proof -
  have err: "save_spec E dir k r fs (Some e) fs" for fs e
    by (simp add: save_spec_def)
  have rep: "wp (replace_entry E (clean_path dir) (entry_file dir k) payload)
      (\<lambda>res w'. save_spec E dir k r (w_files w) res (w_files w')) v"
    if "w_files v = w_files w" "encode_for E (fill_record k r) = Some payload"
      "validate_record k (fill_record k r) (e_now E (w_trace w)) = None" for v payload
    using that assms
    by (auto intro!: wp_mono [OF replace_entry_post [OF entry_not_is_temp]] replace_save_spec)
  show ?thesis
    by (auto simp: save_entry_def wp_simps Let_def validate_existing_def lstat_def err
        intro!: rep split: option.splits sum.splits)
qed

lemma save_spec_dir_step:
  "save_spec E dir k r (w_files v) res fs \<Longrightarrow> dir_step dir w v \<Longrightarrow> save_spec E dir k r (w_files w) res fs"
  using entry_unchanged [of dir w v k]
  by (auto simp: save_spec_def Let_def dir_step_def intro: dir_grown_trans)

lemma save_post: "wp (save E dir c k r) (\<lambda>res w'. save_spec E dir k r (w_files w) res (w_files w')) w"
proof -
  have early: "save_spec E dir k r (w_files w) (Some e) (w_files v)" if "dir_step dir w v" for v e
    using that entry_unchanged [of dir w v k] by (simp add: save_spec_def dir_step_def Let_def)
  have path: "wp (let_err (entry_path E dir k) (save_entry E dir k r))
      (\<lambda>res w'. save_spec E dir k r (w_files w) res (w_files w')) v" if "dir_step dir w v" for v
    using that
    by (auto simp: wp_simps intro!: wp_mono [OF entry_path_post] wp_mono [OF save_entry_post] early
        intro: dirs.trans [of dir w v] elim!: save_spec_dir_step [OF _ dirs.trans] split: sum.splits)
  show ?thesis
    by (auto simp: save_def wp_simps intro!: path [unfolded wp_let_err] early dirs.refl dirs.quiet split: ctx.splits option.splits)
qed


section \<open>Reading back what was saved\<close>

lemma first_some_None: "first_some f xs = None \<longleftrightarrow> list_all (\<lambda>x. f x = None) xs"
  by (simp add: first_some_None_iff list_all_iff)

lemma validate_record_later:
  assumes "validate_record k r now = None" and "list_all (\<lambda>c. now' < sc_expires c) (rec_cookies r)"
  shows "validate_record k r now' = None"
  using assms
  by (auto simp: validate_record_def first_some_None validate_None_iff list_all_iff split: if_splits)

text \<open>A valid record has the integers of its Go types, so that it can be read back.\<close>

lemma validate_record_ints:
  assumes "validate_record k r now = None" and "list_all (\<lambda>c. int64_ok (sc_same_site c)) (rec_cookies r)"
  shows "record_ints r"
proof -
  have "list_all (\<lambda>c. cookie_well_formed c) (rec_cookies r)" "rec_version r = 1"
    "rec_accepted_step r = 0 \<or> 0 \<le> rec_accepted_step r \<and> rec_accepted_step r \<le> max_accepted_step"
    using assms(1)
    by (auto simp: validate_record_def first_some_None validate_None_iff list_all_iff current_store_version_def
        split: if_splits)
  then show ?thesis
    using assms(2)
    by (auto simp: record_ints_def cookie_ints_def int64_ok_def list_all_iff cookie_well_formed_def
        max_cookie_age_seconds_def second_def max_accepted_step_def)
qed

lemma validate_binding_ascii:
  "validate_record k r now = None \<Longrightarrow> list_all (\<lambda>c. byte c < 128) (rec_otp_binding r)"
  by (auto simp: validate_record_def hex_valid_def list_all_iff is_hex_char_def split: if_splits)

lemma reject_symlinks_ok:
  assumes "list_all (\<lambda>q. case fs q of None \<Rightarrow> False | Some i \<Rightarrow> i_type i = Directory) ps"
  shows "undisturbed E (w_trace w) c \<Longrightarrow> w_files w = fs \<Longrightarrow>
    wp (reject_symlinks E ps) (\<lambda>r w'. r = None \<and> w_files w' = fs \<and> undisturbed E (w_trace w') c \<and> extends w w') w"
  using assms
proof (induction ps arbitrary: w)
  case Nil
  then show ?case by (simp add: wp_simps ext.refl)
next
  case (Cons p ps)
  have nofault: "\<not> e_fault E (w_trace w) SysLstat"
    using undisturbed_now [OF Cons.prems(1)] by blast
  obtain i where i: "fs p = Some i" "i_type i = Directory"
    using Cons.prems(3) by (auto split: option.splits)
  have tail: "wp (reject_symlinks E ps) (\<lambda>r w'. r = None \<and> w_files w' = fs
      \<and> undisturbed E (w_trace w') c \<and> extends w w') (push (EvSys SysLstat True) w)"
    using Cons.prems undisturbed_Cons [OF Cons.prems(1)]
    by (intro wp_mono [OF Cons.IH]) (auto intro: ext.trans [OF ext.trace])
  show ?case
    using i nofault Cons.prems(2) tail by (simp add: wp_simps lstat_def)
qed

lemma make_dirs_existing:
  "list_all (\<lambda>q. case fs q of None \<Rightarrow> False | Some i \<Rightarrow> i_type i = Directory) (ancestors p) \<Longrightarrow> make_dirs E p fs = fs"
  by (auto simp: make_dirs_def list_all_iff fun_eq_iff)

lemma ensure_dir_ok:
  assumes "dir_ok E dir fs" and "undisturbed E (w_trace w) c" and "w_files w = fs"
  shows "wp (ensure_dir E dir) (\<lambda>r w'. r = None \<and> w_files w' = fs \<and> undisturbed E (w_trace w') c \<and> extends w w') w"
proof -
  let ?as = "ancestors (clean_path dir)"
  have all: "list_all (\<lambda>q. case fs q of None \<Rightarrow> False | Some i \<Rightarrow> i_type i = Directory) ?as"
    using assms(1) by (simp add: dir_ok_def)
  then have ex: "\<not> list_ex (\<lambda>q. case fs q of None \<Rightarrow> False | Some i \<Rightarrow> i_type i \<noteq> Directory) ?as"
    by (auto simp: list_ex_iff list_all_iff split: option.splits)
  obtain i where i: "fs (clean_path dir) = Some i" "i_type i = Directory" "i_perm i = 448" "i_uid i = e_uid E"
    using assms(1) self_in_ancestors [of "clean_path dir"]
    by (auto simp: dir_ok_def list_all_iff split: option.splits)
  have make: "wp (make_private_dir E (clean_path dir))
      (\<lambda>r w'. r = None \<and> w_files w' = fs \<and> undisturbed E (w_trace w') c \<and> extends w w') v"
    if v: "w_files v = fs" "undisturbed E (w_trace v) c" "extends w v" for v
  proof -
    let ?v = "push (EvSys SysMkdirAll True) v"
    have v': "undisturbed E (w_trace ?v) c" "undisturbed E (w_trace (push (EvSys SysLstat True) ?v)) c"
      using v(2) by (simp_all add: undisturbed_Cons)
    have "\<not> e_fault E (w_trace v) SysMkdirAll" "\<not> e_fault E (w_trace ?v) SysLstat"
      using undisturbed_now [OF v(2)] undisturbed_now [OF v'(1)] by blast+
    moreover have "extends w (push (EvSys SysLstat True) ?v)"
      using v(3) by (metis ext.trans ext.trace)
    ultimately show ?thesis
      using v(1) v'(2) ex i make_dirs_existing [OF all]
      by (simp add: make_private_dir_def mkdir_all_def lstat_def wp_simps push_def extends_def)
  qed
  show ?thesis
    using assms(1) make
    by (auto simp: ensure_dir_def Let_def dir_ok_def wp_simps
        intro!: wp_mono [OF reject_symlinks_ok [OF all assms(2,3)]])
qed

lemma load_back:
  assumes "dir_ok E dir (w_files w)" "key_ok k" "undisturbed E (w_trace w) c"
    and entry: "w_files w (entry_file dir k) = Some (new_file E payload)" "length payload \<le> max_record_bytes"
    and dec: "decode_record payload = Some r" "\<And>g. validate_record k r (e_now E (g @ w_trace w)) = None"
  shows "wp (load E dir c k) (\<lambda>res w'. res = (r, None) \<and> w_files w' = w_files w) w"
proof -
  have load_it: "wp (load_entry E k (entry_file dir k)) (\<lambda>res w'. res = (r, None) \<and> w_files w' = w_files w) v"
    if v: "w_files v = w_files w" "undisturbed E (w_trace v) c" "extends w v" for v
  proof -
    let ?v1 = "push (EvSys SysOpen True) v"
    let ?v2 = "push (EvSys SysFstat True) ?v1"
    let ?v3 = "push (EvSys SysRead True) ?v2"
    have u: "undisturbed E (w_trace ?v1) c" "undisturbed E (w_trace ?v2) c"
      using v(2) by (simp_all add: undisturbed_Cons)
    have "\<not> e_fault E (w_trace v) SysOpen" "\<not> e_fault E (w_trace ?v1) SysFstat" "\<not> e_fault E (w_trace ?v2) SysRead"
      using undisturbed_now [OF v(2)] undisturbed_now [OF u(1)] undisturbed_now [OF u(2)] by blast+
    moreover have "extends w ?v3" using v(3) by (metis ext.trans ext.trace)
    then obtain g where "w_trace ?v3 = g @ w_trace w" by (auto simp: extends_def)
    then have "validate_record k r (e_now E (w_trace ?v3)) = None" using dec(2) by simp
    ultimately show ?thesis
      using v(1) entry dec(1)
      by (simp add: load_entry_def read_private_file_def wp_simps validate_private_def private_file_def
          new_file_def)
  qed
  have path: "wp (entry_path E dir k) (\<lambda>res w'. res = Inr (entry_file dir k) \<and> w_files w' = w_files w
      \<and> undisturbed E (w_trace w') c \<and> extends w w') v"
    if v: "w_files v = w_files w" "undisturbed E (w_trace v) c" "extends w v" for v
    using assms(2) ext.trans [OF v(3)]
    by (auto simp: entry_path_def key_ok_def wp_simps entry_file_def
        intro!: wp_mono [OF ensure_dir_ok [OF assms(1) v(2,1)]])
  have start: "wp (entry_path E dir k) (\<lambda>res. wp (case res of Inl e \<Rightarrow> ret (zero_record, Some e)
      | Inr p \<Rightarrow> load_entry E k p) (\<lambda>res w'. res = (r, None) \<and> w_files w' = w_files w)) v"
    if v: "w_files v = w_files w" "undisturbed E (w_trace v) c" "extends w v" for v
    using load_it by (auto intro!: wp_mono [OF path [OF v]])
  show ?thesis
    using start [of w] start [of "push (EvCtx c CtxLive) w"] undisturbed_now [OF assms(3)] assms(3)
    by (auto simp: load_def wp_simps ext.refl ext.trace undisturbed_Cons split: ctx.splits)
qed

lemma load_after_save_wp:
  assumes "run_state (save E dir c k r) w = (None, w')"
    and "record_ints (fill_record k r)" "record_utf8 (fill_record k r)"
    and "\<And>payload. encode_for E (fill_record k r) = Some payload \<Longrightarrow> length payload \<le> max_record_bytes"
    and "undisturbed E (w_trace w') c'"
    and "\<And>g. list_all (\<lambda>ck. e_now E (g @ w_trace w') < sc_expires ck) (rec_cookies r)"
  shows "wp (load E dir c' k) (\<lambda>res w''. res = (fill_record k r, None) \<and> w_files w'' = w_files w') w'"
proof -
  have "save_spec E dir k r (w_files w) None (w_files w')"
    using wpI_run [OF save_post assms(1)] .
  then obtain payload h where dk: "dir_ok E dir (w_files w')" "key_ok k"
    and enc: "encode_for E (fill_record k r) = Some payload"
    and entry: "w_files w' (entry_file dir k) = Some (new_file E payload)"
    and valid: "validate_record k (fill_record k r) (e_now E h) = None"
    by (auto simp: save_spec_def stored_in_def Let_def)
  have "rec_cookies (fill_record k r) = rec_cookies r" by (simp add: fill_record_def)
  then have "\<And>g. validate_record k (fill_record k r) (e_now E (g @ w_trace w')) = None"
    using validate_record_later [OF valid] assms(6) by simp
  moreover have "decode_record payload = Some (fill_record k r)"
    using record_reread [OF enc [unfolded encode_for_def] assms(2)] sound_record_id [OF assms(3)] by simp
  ultimately show ?thesis
    using load_back [OF dk assms(5) entry] assms(4) [OF enc] by blast
qed

section \<open>A quiet machine\<close>

text \<open>Where no system call fails and the context does not end, a save into a usable directory
  completes.\<close>

definition reliable :: "env \<Rightarrow> ctx \<Rightarrow> bool" where
  "reliable E c = ((\<forall>h s. \<not> e_fault E h s) \<and> (\<forall>h. e_ctx E h c = CtxLive))"

lemma reliable_undisturbed: "reliable E c \<Longrightarrow> undisturbed E h c"
  by (simp add: reliable_def undisturbed_def)

definition dir_usable :: "env \<Rightarrow> string \<Rightarrow> files \<Rightarrow> bool" where
  "dir_usable E dir fs =
     (trim_space dir \<noteq> [] \<and> is_abs dir
      \<and> list_all (\<lambda>q. case fs q of None \<Rightarrow> True | Some i \<Rightarrow> i_type i = Directory) (ancestors (clean_path dir))
      \<and> (case fs (clean_path dir) of None \<Rightarrow> True | Some i \<Rightarrow> i_perm i = 448 \<and> i_uid i = e_uid E))"

lemma reject_symlinks_none:
  assumes "\<forall>h s. \<not> e_fault E h s"
  shows "list_all (\<lambda>q. case w_files w q of None \<Rightarrow> True | Some i \<Rightarrow> i_type i = Directory) ps \<Longrightarrow>
    wp (reject_symlinks E ps) (\<lambda>r w'. r = None \<and> w_files w' = w_files w) w"
proof (induction ps arbitrary: w)
  case (Cons p ps)
  then have tail: "wp (reject_symlinks E ps) (\<lambda>r w'. r = None \<and> w_files w' = w_files w) (push e w)" for e
    using Cons.IH [of "push e w"] by simp
  show ?case
    using Cons.prems assms tail
    by (auto simp: lstat_def wp_simps err_simps split: option.splits)
qed (simp add: wp_ret)

lemma ensure_dir_usable:
  assumes ok: "\<forall>h s. \<not> e_fault E h s" and "dir_usable E dir (w_files w)"
  shows "wp (ensure_dir E dir) (\<lambda>r w'. r = None) w"
proof -
  let ?p = "clean_path dir"
  have dirs: "list_all (\<lambda>q. case w_files w q of None \<Rightarrow> True | Some i \<Rightarrow> i_type i = Directory) (ancestors ?p)"
    using assms(2) by (simp add: dir_usable_def)
  then have ex: "\<not> list_ex (\<lambda>q. case w_files w q of None \<Rightarrow> False | Some i \<Rightarrow> i_type i \<noteq> Directory) (ancestors ?p)"
    by (auto simp: list_ex_iff list_all_iff split: option.splits)
  obtain i where i: "make_dirs E ?p (w_files w) ?p = Some i" "i_type i = Directory" "i_perm i = 448" "i_uid i = e_uid E"
    using assms(2) self_in_ancestors [of ?p]
    by (auto simp: dir_usable_def make_dirs_def private_dir_def list_all_iff split: option.splits)
  show ?thesis
    using assms(2) ok ex i
    by (auto simp: ensure_dir_def make_private_dir_def mkdir_all_def lstat_def Let_def dir_usable_def wp_simps
        intro!: wp_mono [OF reject_symlinks_none [OF ok dirs]])
qed

definition slot_free :: "env \<Rightarrow> string \<Rightarrow> session_key \<Rightarrow> files \<Rightarrow> bool" where
  "slot_free E dir k fs =
     ((case fs (entry_file dir k) of None \<Rightarrow> True | Some i \<Rightarrow> private_file E i)
      \<and> (\<forall>h. fs (clean_path dir @ [''.session-'' @ e_tmp E h @ ''.tmp'']) = None))"

lemma publish_completes:
  assumes "\<forall>h s. \<not> e_fault E h s" and "w_files w tmp = Some (new_file E [])"
  shows "wp (publish E tmp dst payload) (\<lambda>r w'. r = None) w"
  using assms
  by (simp add: publish_def wp_simps update_file_def write_temp_def Let_def sys_ok_def validate_temp_def
      lstat_def validate_private_def private_file_def new_file_def rename_file_def sync_directory_def)

lemma save_entry_completes:
  assumes ok: "\<forall>h s. \<not> e_fault E h s" and free: "slot_free E dir k (w_files w)"
    and valid: "\<forall>h. validate_record k (fill_record k r) (e_now E h) = None"
    and enc: "encode_for E (fill_record k r) = Some payload"
  shows "wp (save_entry E dir k r (entry_file dir k)) (\<lambda>res w'. res = None) w"
proof -
  have replace: "wp (replace_entry E (clean_path dir) (entry_file dir k) payload) (\<lambda>res w'. res = None) v"
    if "w_files v = w_files w" for v
    using free that ok
    by (auto simp: replace_entry_def create_temp_def wp_simps Let_def slot_free_def set_file_def remove_file_def
        new_file_def intro!: wp_mono [OF publish_completes [OF ok]])
  have "validate_private E i = None" if "private_file E i" for i
    using that by (simp add: validate_private_def)
  moreover have "i_type i \<noteq> Symlink" if "private_file E i" for i
    using that by (simp add: private_file_def)
  ultimately show ?thesis
    using ok free valid enc
    by (auto simp: save_entry_def wp_simps Let_def validate_existing_def lstat_def err_simps slot_free_def
        intro!: replace split: option.splits)
qed

lemma save_completes:
  assumes "reliable E c" "dir_usable E dir (w_files w)" "slot_free E dir k (w_files w)" "key_ok k"
    and "\<forall>h. validate_record k (fill_record k r) (e_now E h) = None"
    and "encode_for E (fill_record k r) = Some payload" and "c \<noteq> CtxNil"
  shows "wp (save E dir c k r) (\<lambda>res w'. res = None) w"
proof -
  have ok: "\<forall>h s. \<not> e_fault E h s" using assms(1) by (simp add: reliable_def)
  have entry: "wp (entry_path E dir k) (\<lambda>x w'. x = Inr (entry_file dir k) \<and> slot_free E dir k (w_files w')) v"
    if "w_files v = w_files w" for v
  proof -
    have "wp (ensure_dir E dir) (\<lambda>x w'. x = None \<and> dir_step dir v w') v"
      using wp_conj [OF ensure_dir_usable wp_keeps [OF ensure_dir_step]] ok assms(2) that by simp
    moreover have "slot_free E dir k (w_files w')" if "dir_step dir v w'" for w'
      using assms(3) dir_step_below [OF that] entry_unchanged [OF that] \<open>w_files v = w_files w\<close>
      by (simp add: slot_free_def)
    ultimately show ?thesis
      using assms(4)
      by (auto simp: entry_path_def key_ok_def wp_simps entry_file_def elim!: wp_mono)
  qed
  show ?thesis
    unfolding save_def wp_then_ok wp_let_err
    using assms(1,7) entry
    by (cases c)
       (auto simp: wp_context_err reliable_def intro!: wp_mono [OF entry]
         save_entry_completes [OF ok _ assms(5,6)])
qed


text \<open>A cold cache is reported as such.\<close>

lemma load_missing:
  assumes "reliable E c" "c \<noteq> CtxNil" "dir_usable E dir (w_files w)" "key_ok k" "w_files w (entry_file dir k) = None"
  shows "wp (load E dir c k) (\<lambda>res w'. snd res = Some (Sentinel ErrSessionCacheNotFound)) w"
proof -
  have ok: "\<forall>h s. \<not> e_fault E h s" using assms(1) by (simp add: reliable_def)
  have entry: "wp (entry_path E dir k) (\<lambda>x w'. x = Inr (entry_file dir k) \<and> w_files w' (entry_file dir k) = None) v"
    if "w_files v = w_files w" for v
  proof -
    have "wp (ensure_dir E dir) (\<lambda>x w'. x = None \<and> dir_step dir v w') v"
      using wp_conj [OF ensure_dir_usable wp_keeps [OF ensure_dir_step]] ok assms(3) that by simp
    then show ?thesis
      using assms(4,5) entry_unchanged that
      by (auto simp: entry_path_def key_ok_def wp_simps entry_file_def elim!: wp_mono)
  qed
  show ?thesis
    using assms(1,2) entry ok
    by (cases c)
       (auto simp: load_def wp_simps reliable_def load_entry_def read_private_file_def err_simps
         intro!: wp_mono [OF entry])
qed

lemma sample_dir: "dir_usable sample_env ''/cache'' Map.empty"
  by (simp add: dir_usable_def list_all_iff) code_simp

section \<open>Properties\<close>

text \<open>C25: A record is only ever taken from an owned 0600 regular file of the right size that decodes and
  validates for the key at the time of the read; not found means there is no file; and nothing of
  a record that failed validation comes back, unless all that failed is its age.\<close>

theorem load_trusted:
  "wp (load E dir c k) (\<lambda>(r, err) w'.
     case err of
       None \<Rightarrow> \<exists>i h. w_files w (entry_file dir k) = Some i \<and> private_file E i
         \<and> length (i_data i) \<le> max_record_bytes \<and> decode_record (i_data i) = Some r
         \<and> w_trace w' = EvNow (e_now E h) # h \<and> validate_record k r (e_now E h) = None
     | Some e \<Rightarrow> (errors_is e ErrSessionCacheNotFound \<longrightarrow> w_files w (entry_file dir k) = None)
         \<and> (\<not> errors_is e ErrSessionExpired \<longrightarrow> r = zero_record)) w"
  by (rule wp_mono [OF load_post]) (auto simp: load_spec_def split: option.splits)

definition sample_key :: session_key where
  "sample_key = \<lparr>sk_endpoint = ''https://api.example/'', sk_username = ''alice'', sk_impersonate = [],
     sk_fingerprint = ''f''\<rparr>"

lemma sample_key_ok: "validate_key sample_key = None" "key_ok sample_key"
  by code_simp+

lemma load_trusted_witness:
  "fst (run_state (load sample_env ''/cache'' (Ctx 0) sample_key) sample_world)
     = (zero_record, Some (Sentinel ErrSessionCacheNotFound))"
proof -
  obtain r w' where run: "run_state (load sample_env ''/cache'' (Ctx 0) sample_key) sample_world
      = ((r, Some (Sentinel ErrSessionCacheNotFound)), w')"
    using load_missing [of sample_env "Ctx 0" "''/cache''" sample_world sample_key] sample_key_ok(2) sample_dir
    by (auto simp: wp_def reliable_def split: prod.splits)
  have "r = zero_record"
    using wpI_run [OF load_trusted run] by (simp add: err_simps)
  then show ?thesis using run by simp
qed

text \<open>C24: A save is atomic: whatever fails, the entry holds its old contents or the complete new record,
  and no file but the entry, temporaries and missing components of the directory changes, which
  become 0700 directories, while a component that exists keeps its type, mode and owner; the record
  that was published was valid, and a save that succeeds has published it.\<close>

theorem save_atomic:
  "wp (save E dir c k r) (\<lambda>res w'.
     (\<forall>q. q = entry_file dir k \<or> is_temp dir q \<or> w_files w' q = w_files w q
        \<or> q \<in> set (ancestors (clean_path dir)) \<and> w_files w q = None
           \<and> (\<exists>i. w_files w' q = Some i \<and> i_type i = Directory \<and> i_perm i = 448))
     \<and> (w_files w' (entry_file dir k) = w_files w (entry_file dir k)
        \<or> (\<exists>payload h. encode_for E (fill_record k r) = Some payload
             \<and> w_files w' (entry_file dir k) = Some (new_file E payload)
             \<and> validate_record k (fill_record k r) (e_now E h) = None))
     \<and> (case res of Some e \<Rightarrow> True
        | None \<Rightarrow> \<exists>payload h. encode_for E (fill_record k r) = Some payload
             \<and> w_files w' (entry_file dir k) = Some (new_file E payload)
             \<and> validate_record k (fill_record k r) (e_now E h) = None)) w"
proof (rule wp_mono [OF save_post])
  fix res w'
  assume post: "save_spec E dir k r (w_files w) res (w_files w')"
  have "q = entry_file dir k \<or> is_temp dir q \<or> w_files w' q = w_files w q
      \<or> q \<in> set (ancestors (clean_path dir)) \<and> w_files w q = None
         \<and> (\<exists>i. w_files w' q = Some i \<and> i_type i = Directory \<and> i_perm i = 448)" for q
  proof (cases "q = entry_file dir k \<or> is_temp dir q")
    case False
    then have "dir_grown dir q (w_files w q) (w_files w' q)" using post by (simp add: save_spec_def Let_def)
    then show ?thesis by (auto simp: dir_grown_def split: option.splits)
  qed blast
  moreover have "w_files w' (entry_file dir k) = w_files w (entry_file dir k) \<or> stored_in E dir k r (w_files w')"
    and "res = None \<longrightarrow> stored_in E dir k r (w_files w')"
    using post by (simp_all add: save_spec_def Let_def)
  ultimately show "(\<forall>q. q = entry_file dir k \<or> is_temp dir q \<or> w_files w' q = w_files w q
        \<or> q \<in> set (ancestors (clean_path dir)) \<and> w_files w q = None
           \<and> (\<exists>i. w_files w' q = Some i \<and> i_type i = Directory \<and> i_perm i = 448))
     \<and> (w_files w' (entry_file dir k) = w_files w (entry_file dir k)
        \<or> (\<exists>payload h. encode_for E (fill_record k r) = Some payload
             \<and> w_files w' (entry_file dir k) = Some (new_file E payload)
             \<and> validate_record k (fill_record k r) (e_now E h) = None))
     \<and> (case res of Some e \<Rightarrow> True
        | None \<Rightarrow> \<exists>payload h. encode_for E (fill_record k r) = Some payload
             \<and> w_files w' (entry_file dir k) = Some (new_file E payload)
             \<and> validate_record k (fill_record k r) (e_now E h) = None)"
    unfolding stored_in_def by (cases res) simp_all
qed

text \<open>Entries of different targets never share a file, short of a collision of SHA-256.\<close>

theorem entry_files_distinct:
  assumes "validate_key k = None" "validate_key k' = None" and "entry_file dir k = entry_file dir k'"
  shows "same_target k k'
     \<or> (\<exists>a b. a \<noteq> b \<and> sha256 (bytes_of a) = sha256 (bytes_of b))"
proof (rule disjCI)
  let ?m = "\<lambda>k. join_with [nul] [''entry'', sk_endpoint k, sk_username k, sk_impersonate k]"
  assume inj: "\<not> (\<exists>a b. a \<noteq> b \<and> sha256 (bytes_of a) = sha256 (bytes_of b))"
  have "sha256_hex (?m k) = sha256_hex (?m k')"
    using assms(3) by (simp add: entry_file_def entry_name_def)
  then have "sha256 (bytes_of (?m k)) = sha256 (bytes_of (?m k'))"
    unfolding sha256_hex_eq_iff .
  then have "?m k = ?m k'" using inj by blast
  then show "same_target k k'"
    using entry_material_inj validate_key_nul_free assms(1,2) by blast
qed

lemma entry_files_distinct_witness:
  "same_target sample_key (sample_key\<lparr>sk_fingerprint := ''g''\<rparr>)
   \<or> (\<exists>a b. a \<noteq> b \<and> sha256 (bytes_of a) = sha256 (bytes_of b))"
proof (rule entry_files_distinct [of _ _ "''/cache''"])
  show "validate_key (sample_key\<lparr>sk_fingerprint := ''g''\<rparr>) = None" by code_simp
  show "validate_key sample_key = None" by (rule sample_key_ok)
qed (simp add: entry_file_def entry_name_def)

text \<open>C27: What was saved is what is loaded: on a machine where nothing fails, a save of a valid record
  into a usable directory completes, and a load that follows returns that record, completed from the
  key, as long as its cookies live.\<close>

theorem load_after_save:
  assumes "reliable E c" "c \<noteq> CtxNil" "dir_usable E dir (w_files w)" "slot_free E dir k (w_files w)" "key_ok k"
    and "\<forall>h. validate_record k (fill_record k r) (e_now E h) = None"
    and "\<forall>h. list_all (\<lambda>ck. e_now E h < sc_expires ck) (rec_cookies r)"
    and "encode_for E (fill_record k r) = Some payload" "length payload \<le> max_record_bytes"
    and "record_ints (fill_record k r)" "record_utf8 (fill_record k r)"
  shows "wp (do { saved \<leftarrow> save E dir c k r; loaded \<leftarrow> load E dir c k; ret (saved, loaded) })
           (\<lambda>res w'. res = (None, (fill_record k r, None))) w"
proof -
  obtain w' where saved: "run_state (save E dir c k r) w = (None, w')"
    using save_completes [OF assms(1,3,4,5,6,8,2)] by (auto simp: wp_def split: prod.splits)
  have "wp (load E dir c k) (\<lambda>res w''. res = (fill_record k r, None) \<and> w_files w'' = w_files w') w'"
    using load_after_save_wp [OF saved assms(10,11) _ reliable_undisturbed [OF assms(1)]] assms(7-9) by simp
  then show ?thesis
    by (simp add: wp_bind wp_def saved split: prod.splits)
qed

definition sample_record :: session_record where
  "sample_record = fill_record sample_key (zero_record\<lparr>rec_retry_not_before := 5\<rparr>)"

lemma sample_payload: "case encode_for sample_env sample_record of None \<Rightarrow> False | Some p \<Rightarrow> length p \<le> 1000"
  by code_simp

lemma load_after_save_witness:
  "fst (run_state (do { saved \<leftarrow> save sample_env ''/cache'' (Ctx 0) sample_key (zero_record\<lparr>rec_retry_not_before := 5\<rparr>);
                           loaded \<leftarrow> load sample_env ''/cache'' (Ctx 0) sample_key; ret (saved, loaded) }) sample_world)
      = (None, (sample_record, None))"
proof -
  let ?r = "zero_record\<lparr>rec_retry_not_before := 5\<rparr>"
  obtain payload where p: "encode_for sample_env (fill_record sample_key ?r) = Some payload" "length payload \<le> 1000"
    using sample_payload by (auto simp: sample_record_def split: option.splits)
  have "wp (do { saved \<leftarrow> save sample_env ''/cache'' (Ctx 0) sample_key ?r;
                 loaded \<leftarrow> load sample_env ''/cache'' (Ctx 0) sample_key; ret (saved, loaded) })
          (\<lambda>res w'. res = (None, (fill_record sample_key ?r, None))) sample_world"
  proof (rule load_after_save [OF _ _ _ _ _ _ _ p(1)])
    show "dir_usable sample_env ''/cache'' (w_files sample_world)"
      by (simp add: dir_usable_def list_all_iff) code_simp
    show "key_ok sample_key" by (rule sample_key_ok)
    show "record_utf8 (fill_record sample_key ?r)" by code_simp
    show "length payload \<le> max_record_bytes" using p(2) by (simp add: max_record_bytes_def)
  qed (simp_all add: reliable_def slot_free_def record_ints_def int64_ok_def
      validate_record_def fill_record_def zero_record_def sample_key_def current_store_version_def time_defs)
  then show ?thesis
    by (simp add: wp_def sample_record_def Let_def split: prod.splits)
qed

end
