(* ===== verification/Session_Lock.thy ===== *)
theory Session_Lock
  imports Session_Store
begin

text \<open>
  The advisory locks of session_store.go. Acquiring one polls \<^verbatim>\<open>flock\<close> until it is granted
  or the context ends; other processes may have rewritten any file by the time it is
  (\<open>e_files\<close>). A nil context never ends here; in the sources, one that finds the lock taken
  dereferences nil in its \<^verbatim>\<open>select\<close>.
\<close>

datatype lock_scope = ScopeAccount | ScopeEntry | ScopeOther string

fun scope_name :: "lock_scope \<Rightarrow> string" where
  "scope_name ScopeAccount = ''account''"
| "scope_name ScopeEntry = ''entry''"
| "scope_name (ScopeOther s) = s"

record lock_key =
  lk_endpoint :: string
  lk_username :: string
  lk_impersonate :: string
  lk_scope :: lock_scope

definition validate_lock_key :: "lock_key \<Rightarrow> go_error option" where
  "validate_lock_key k =
     (if trim_space (lk_endpoint k) = [] \<or> trim_space (lk_username k) = []
      then Some (unsafe_err ''endpoint and username are required for a lock'')
      else if lk_scope k \<noteq> ScopeAccount \<and> lk_scope k \<noteq> ScopeEntry
      then Some (unsafe_err ''unknown session lock scope'') else None)"

definition lock_name :: "lock_key \<Rightarrow> string" where
  "lock_name k =
     (let impersonate = (if lk_scope k = ScopeEntry then lk_impersonate k else [])
      in ''.lock-'' @ sha256_hex (join_with [nul]
           [scope_name (lk_scope k), lk_endpoint k, lk_username k, impersonate]) @ ''.lck'')"

definition lock_path :: "string \<Rightarrow> lock_key \<Rightarrow> path" where
  "lock_path dir k = clean_path dir @ [lock_name k]"

definition normalize_lock_key :: "lock_key \<Rightarrow> lock_key" where
  "normalize_lock_key k =
     (if lk_scope k = ScopeAccount
      then k\<lparr>lk_endpoint := normalized_auth_endpoint (lk_endpoint k),
             lk_username := normalized_username (lk_username k)\<rparr>
      else k)"

definition open_lock_file :: "env \<Rightarrow> path \<Rightarrow> (world, go_error option) state" where
  "open_lock_file E p =
     do { opened \<leftarrow> sys E SysOpen;
          node \<leftarrow> asks (\<lambda>w. w_files w p);
          if \<not> opened then ret (Some (unsafe_err ''open lock file''))
          else if (case node of Some i \<Rightarrow> i_type i = Symlink | None \<Rightarrow> False)
          then ret (Some (unsafe_err ''lock file is a symlink''))
          else do {
            let i = (case node of Some i \<Rightarrow> i | None \<Rightarrow> new_file E []);
            set_file p i;
            inspected \<leftarrow> sys E SysFstat;
            ensure (inspected \<and> private_file E i)
              (unsafe_err ''lock file must be an owned 0600 regular file'') } }"

definition lock_granted :: "env \<Rightarrow> path \<Rightarrow> (world, go_error option) state" where
  "lock_granted E p =
     do { record_ev (EvLocked p);
          modify (\<lambda>w. w\<lparr>w_files := e_files E (w_trace w) (w_files w)\<rparr>);
          ret None }"

definition lock_poll_interval :: duration where "lock_poll_interval = 20 * millisecond"

fun lock_poll :: "env \<Rightarrow> ctx \<Rightarrow> path \<Rightarrow> nat \<Rightarrow> (world, go_error option) state" where
  "lock_poll E c p 0 = ret (Some (Sentinel ContextDeadlineExceeded))"
| "lock_poll E c p (Suc n) =
     then_ok (context_err E c)
       (do { st \<leftarrow> observe (\<lambda>h. e_flock E h p) (EvFlock p);
             case st of
               FlockOk \<Rightarrow> lock_granted E p
             | FlockFail \<Rightarrow> ret (Some (unsafe_err ''acquire lock''))
             | FlockBusy \<Rightarrow>
                 do { record_ev (EvSleep lock_poll_interval);
                      then_ok (context_err E c) (lock_poll E c p n) } })"

text \<open>Giving a descriptor up: \<^verbatim>\<open>LOCK_UN\<close>, then the close, which runs in any case and drops the lock
  of the descriptor with it; the first error counts.\<close>

definition unlock_file :: "env \<Rightarrow> (world, go_error option) state" where
  "unlock_file E =
     do { unlocked \<leftarrow> sys E SysUnlock;
          closed \<leftarrow> sys E SysClose;
          ret (if \<not> unlocked then Some (Plain ''flock'') else if \<not> closed then Some (Plain ''close'') else None) }"

definition poll_or_close :: "env \<Rightarrow> ctx \<Rightarrow> path \<Rightarrow> nat \<Rightarrow> (world, go_error option) state" where
  "poll_or_close E c p n =
     do { failed \<leftarrow> lock_poll E c p n;
          case failed of
            None \<Rightarrow> ret None
          | Some e \<Rightarrow> do { _ \<leftarrow> unlock_file E; ret (Some e) } }"

definition acquire_lock :: "env \<Rightarrow> string \<Rightarrow> ctx \<Rightarrow> lock_key \<Rightarrow> (world, go_error + path) state" where
  "acquire_lock E dir c k =
     check_ok (context_err E c)
       (let k = normalize_lock_key k; p = lock_path dir k
        in check_ok (ret (validate_lock_key k))
             (check_ok (ensure_dir E dir)
               (check_ok (open_lock_file E p)
                 (do { rounds \<leftarrow> asks (\<lambda>w. e_patience E (w_trace w));
                       check_ok (poll_or_close E c p rounds) (ret (Inr p)) }))))"

definition lock_account :: "env \<Rightarrow> string \<Rightarrow> ctx \<Rightarrow> session_key \<Rightarrow> (world, go_error + path) state" where
  "lock_account E dir c k =
     acquire_lock E dir c \<lparr>lk_endpoint = sk_endpoint k, lk_username = sk_username k, lk_impersonate = [],
                           lk_scope = ScopeAccount\<rparr>"

definition lock_entry :: "env \<Rightarrow> string \<Rightarrow> ctx \<Rightarrow> session_key \<Rightarrow> (world, go_error + path) state" where
  "lock_entry E dir c k =
     acquire_lock E dir c \<lparr>lk_endpoint = sk_endpoint k, lk_username = sk_username k,
                           lk_impersonate = sk_impersonate k, lk_scope = ScopeEntry\<rparr>"

text \<open>
  \<^verbatim>\<open>SessionLock\<close>: the file is closed by the first \<^verbatim>\<open>Close\<close> only (\<^verbatim>\<open>sync.Once\<close>), whose error
  every later one returns; a nil lock and one without a file have nothing to close.
\<close>

record lock_handle =
  lh_path :: path
  lh_file :: bool
  lh_once :: bool
  lh_err :: "go_error option"

definition lock_handle_at :: "path \<Rightarrow> lock_handle" where
  "lock_handle_at p = \<lparr>lh_path = p, lh_file = True, lh_once = False, lh_err = None\<rparr>"

definition close_handle :: "env \<Rightarrow> lock_handle option \<Rightarrow> (world, lock_handle option \<times> go_error option) state" where
  "close_handle E l =
     (case l of
        None \<Rightarrow> ret (None, None)
      | Some h \<Rightarrow>
          if lh_once h then ret (Some h, lh_err h)
          else if \<not> lh_file h then ret (Some (h\<lparr>lh_once := True\<rparr>), lh_err h)
          else do { err \<leftarrow> unlock_file E;
                    record_ev (EvUnlocked (lh_path h));
                    ret (Some (h\<lparr>lh_once := True, lh_err := err\<rparr>), err) })"

text \<open>\<^verbatim>\<open>defer lock.Close()\<close>, whose error nobody reads.\<close>

definition close_lock :: "env \<Rightarrow> path \<Rightarrow> (world, unit) state" where
  "close_lock E p = do { _ \<leftarrow> close_handle E (Some (lock_handle_at p)); ret () }"

section \<open>Lemmas\<close>

text \<open>Acquiring shows exactly the lock, and only when it succeeds; memory is left alone.\<close>

definition lock_shown :: "path \<Rightarrow> world \<Rightarrow> go_error option \<Rightarrow> world \<Rightarrow> bool" where
  "lock_shown p w r w' =
     (memory w' = memory w \<and> visible w' = visible w @ (if r = None then [EvLocked p] else []))"

lemma lock_shown_calm: "calm w v \<Longrightarrow> lock_shown p v r w' \<Longrightarrow> lock_shown p w r w'"
  by (simp add: lock_shown_def calm_def)

lemma lock_shown_err: "calm w w' \<Longrightarrow> lock_shown p w (Some e) w'"
  by (simp add: lock_shown_def calm_def)

lemma memory_files [simp]: "memory (w\<lparr>w_files := fs\<rparr>) = memory w"
  and visible_files [simp]: "visible (w\<lparr>w_files := fs\<rparr>) = visible w"
  by (simp_all add: memory_def visible_def)

lemma lock_poll_shown: "wp (lock_poll E c p n) (lock_shown p w) w"
proof (induction n arbitrary: w)
  case 0
  then show ?case by (simp add: wp_simps lock_shown_def)
next
  case (Suc n)
  have again: "wp (lock_poll E c p n) (lock_shown p w) v" if "calm w v" for v w
    using wp_mono [OF Suc.IH [of v]] lock_shown_calm [OF that] by blast
  have busy: "wp (then_ok (context_err E c) (lock_poll E c p n)) (lock_shown p w) v" if "calm w v" for v w
    unfolding wp_then_ok using that
    by (intro wp_keeps_mono [OF calm.keep_context_err])
       (auto intro!: again lock_shown_err intro: calm.trans split: option.split)
  have granted: "wp (lock_granted E p) (lock_shown p w) v" if "calm w v" for v w
    using that by (simp add: wp_simps lock_granted_def lock_shown_def calm_def)
  have poll: "wp (do { st \<leftarrow> observe (\<lambda>h. e_flock E h p) (EvFlock p);
             case st of
               FlockOk \<Rightarrow> lock_granted E p
             | FlockFail \<Rightarrow> ret (Some (unsafe_err ''acquire lock''))
             | FlockBusy \<Rightarrow>
                 do { record_ev (EvSleep lock_poll_interval);
                      then_ok (context_err E c) (lock_poll E c p n) } }) (lock_shown p w) v" if "calm w v" for v w
    using that busy granted
    by (cases "e_flock E (w_trace v) p") (simp_all add: wp_bind wp_observe wp_record_ev wp_ret lock_shown_err)
  show ?case
    unfolding lock_poll.simps wp_then_ok
    by (intro wp_keeps_mono [OF calm.keep_context_err])
       (auto intro!: poll [unfolded wp_then_ok] lock_shown_err split: option.split)
qed

lemma unlock_file_calm: "state_io_rel calm (unlock_file E)"
  unfolding unlock_file_def by (intro calm.keep_rules)

lemma poll_or_close_shown: "wp (poll_or_close E c p n) (lock_shown p w) w"
  unfolding poll_or_close_def wp_bind
proof (rule wp_mono [OF lock_poll_shown])
  fix r v
  assume shown: "lock_shown p w r v"
  show "wp (case r of None \<Rightarrow> ret None | Some e \<Rightarrow> do { _ \<leftarrow> unlock_file E; ret (Some e) }) (lock_shown p w) v"
  proof (cases r)
    case None
    then show ?thesis using shown by (simp add: wp_ret)
  next
    case (Some e)
    show ?thesis
      unfolding Some option.case wp_bind
      by (rule wp_keeps_mono [OF unlock_file_calm])
         (use shown Some in \<open>simp add: wp_ret lock_shown_def calm_def\<close>)
  qed
qed

text \<open>The world between giving the descriptor up and the event that shows it.\<close>

definition closing :: "env \<Rightarrow> world \<Rightarrow> world" where
  "closing E w = snd (run_state (unlock_file E) w)"

lemma closing_push: "\<exists>a b. closing E w = push (EvSys SysClose a) (push (EvSys SysUnlock b) w)"
  by (simp add: closing_def unlock_file_def sys_def observe_def Let_def) blast

lemma closing_fields [simp]:
  "memory (closing E w) = memory w" "visible (closing E w) = visible w" "w_ref (closing E w) = w_ref w"
  "w_files (closing E w) = w_files w" "w_jars (closing E w) = w_jars w" "w_accepted (closing E w) = w_accepted w"
  using closing_push [of E w] by auto

lemma wp_close_lock [wp_simps]: "wp (close_lock E p) Q w = Q () (push (EvUnlocked p) (closing E w))"
  by (simp add: close_lock_def close_handle_def lock_handle_at_def wp_bind wp_ret wp_record_ev)
     (simp add: wp_def closing_def record_ev_def split: prod.splits)

lemma ensure_dir_calm: "state_io_rel calm (ensure_dir E dir)"
  unfolding file_ops by (intro calm.keep_rules calm.keep_modify reject_symlinks_calm) simp_all

lemma open_lock_calm: "state_io_rel calm (open_lock_file E p)"
  unfolding open_lock_file_def file_ops by (intro calm.keep_rules calm.keep_modify) simp_all

lemma acquire_lock_shown:
  "wp (acquire_lock E dir c k)
     (\<lambda>r w'. memory w' = memory w \<and>
        (case r of Inl e \<Rightarrow> visible w' = visible w
         | Inr p \<Rightarrow> p = lock_path dir (normalize_lock_key k) \<and> visible w' = visible w @ [EvLocked p])) w"
proof -
  let ?p = "lock_path dir (normalize_lock_key k)"
  have poll: "wp (poll_or_close E c' ?p n) Q v"
    if "calm w v" and "\<And>r w'. lock_shown ?p w r w' \<Longrightarrow> Q r w'" for c' n v Q
    using wp_mono [OF poll_or_close_shown [of E c' ?p n v]] that lock_shown_calm by blast
  have opened: "wp (open_lock_file E ?p) Q v"
    if "calm w v" and "\<And>r w'. calm w w' \<Longrightarrow> Q r w'" for v Q
    using wp_keeps_mono [OF open_lock_calm] that calm.trans by blast
  have dirs: "wp (ensure_dir E dir) Q v"
    if "calm w v" and "\<And>r w'. calm w w' \<Longrightarrow> Q r w'" for v Q
    using wp_keeps_mono [OF ensure_dir_calm] that calm.trans by blast
  show ?thesis
    unfolding acquire_lock_def Let_def
    by (auto simp: wp_simps calm.refl intro!: dirs opened poll split: ctx.splits option.splits)
       (auto simp: calm_def lock_shown_def split: option.splits)
qed

text \<open>Spellings of one account share one lock.\<close>

lemma account_lock_alias:
  assumes "normalized_auth_endpoint a = normalized_auth_endpoint b"
    and "normalized_username u = normalized_username v"
  shows "lock_path dir (normalize_lock_key \<lparr>lk_endpoint = a, lk_username = u, lk_impersonate = i, lk_scope = ScopeAccount\<rparr>)
       = lock_path dir (normalize_lock_key \<lparr>lk_endpoint = b, lk_username = v, lk_impersonate = j, lk_scope = ScopeAccount\<rparr>)"
  using assms by (simp add: normalize_lock_key_def lock_path_def lock_name_def)

section \<open>Properties\<close>

text \<open>A lock that is handed out is the one file of the normalized key, taken last of all; a failure
  takes no lock; and no attempt touches the memory of the process.\<close>

theorem lock_taken_exactly:
  "wp (acquire_lock E dir c k)
     (\<lambda>r w'. memory w' = memory w \<and>
        visible w' = visible w @ (case r of Inl e \<Rightarrow> [] | Inr p \<Rightarrow> [EvLocked (lock_path dir (normalize_lock_key k))])
        \<and> (case r of Inl e \<Rightarrow> True | Inr p \<Rightarrow> p = lock_path dir (normalize_lock_key k))) w"
  by (rule wp_mono [OF acquire_lock_shown]) (auto split: sum.splits)

text \<open>C35: Every impersonation target and every spelling of an endpoint and a user name that normalize to
  the same account contend for the same lock.\<close>

theorem account_lock_shared:
  assumes "normalized_auth_endpoint (sk_endpoint k) = normalized_auth_endpoint (sk_endpoint k')"
    and "normalized_username (sk_username k) = normalized_username (sk_username k')"
  shows "lock_account E dir c k = lock_account E dir c k'"
  using account_lock_alias [OF assms]
  by (simp add: lock_account_def acquire_lock_def Let_def normalize_lock_key_def validate_lock_key_def assms)

lemma account_lock_shared_witness:
  "lock_account sample_env ''/cache'' (Ctx 0) sample_key
     = lock_account sample_env ''/cache'' (Ctx 0) (sample_key\<lparr>sk_username := '' Alice'', sk_impersonate := ''x''\<rparr>)"
proof (rule account_lock_shared)
  show "normalized_username (sk_username sample_key)
      = normalized_username (sk_username (sample_key\<lparr>sk_username := '' Alice'', sk_impersonate := ''x''\<rparr>))"
    by code_simp
qed simp

text \<open>Closing a lock is idempotent: the first close gives the file up and shows it once, and every
  later one returns the first one's error and touches nothing.\<close>

theorem lock_close_idempotent:
  assumes "run_state (close_handle E l) w = ((l', err), w')"
  shows "run_state (close_handle E l') v = ((l', err), v)
     \<and> visible w' = visible w
         @ (case l of None \<Rightarrow> []
            | Some h \<Rightarrow> if lh_once h \<or> \<not> lh_file h then [] else [EvUnlocked (lh_path h)])"
proof (cases l)
  case None
  then show ?thesis using assms by (simp add: close_handle_def)
next
  case (Some h)
  obtain e u where u: "run_state (unlock_file E) w = (e, u)" by fastforce
  have "visible u = visible w" using wpI_run [OF wp_keeps [OF unlock_file_calm] u] by (simp add: calm_def)
  then show ?thesis
    using assms u
    by (auto simp: Some close_handle_def record_ev_def split: if_splits)
qed

lemma lock_close_idempotent_witness:
  "\<exists>l' w'. run_state (close_handle sample_env (Some (lock_handle_at [''l'']))) sample_world = ((l', None), w')
     \<and> run_state (close_handle sample_env l') w' = ((l', None), w') \<and> visible w' = [EvUnlocked [''l'']]"
proof -
  obtain l' err w' where run: "run_state (close_handle sample_env (Some (lock_handle_at [''l'']))) sample_world = ((l', err), w')"
    by (metis prod.exhaust)
  have "err = None"
    using run by (auto simp: close_handle_def lock_handle_at_def unlock_file_def sys_def observe_def record_ev_def Let_def)
  then show ?thesis
    using run lock_close_idempotent [OF run, of w'] by (simp add: lock_handle_at_def visible_def sample_world_def)
qed

end
