(* ===== verification/Account_Retry.thy ===== *)
theory Account_Retry
  imports Session_Lock
begin

text \<open>
  account_retry.go: the deadline and the accepted one-time code that belong to a whole
  account, stored under marker targets that no impersonation can have.
\<close>

definition account_retry_target :: string where
  "account_retry_target = [nul] @ ''cloudsigma-account-retry-v1''"

definition accepted_otp_target :: string where
  "accepted_otp_target = [nul] @ ''cloudsigma-accepted-otp-v1:''"

definition account_retry_key :: "session_key \<Rightarrow> session_key" where
  "account_retry_key k =
     \<lparr>sk_endpoint = normalized_auth_endpoint (sk_endpoint k),
      sk_username = normalized_username (sk_username k),
      sk_impersonate = account_retry_target, sk_fingerprint = ''account-retry-v1''\<rparr>"

definition legacy_account_retry_key :: "session_key \<Rightarrow> session_key" where
  "legacy_account_retry_key k =
     \<lparr>sk_endpoint = sk_endpoint k, sk_username = sk_username k,
      sk_impersonate = account_retry_target, sk_fingerprint = ''account-retry-v1''\<rparr>"

definition load_legacy_retry :: "env \<Rightarrow> string \<Rightarrow> ctx \<Rightarrow> session_key \<Rightarrow> gtime \<Rightarrow> (world, go_error + gtime) state" where
  "load_legacy_retry E dir c k deadline =
     (if sk_endpoint (legacy_account_retry_key k) = sk_endpoint (account_retry_key k)
         \<and> sk_username (legacy_account_retry_key k) = sk_username (account_retry_key k)
      then ret (Inr deadline)
      else do { (legacy, err) \<leftarrow> load E dir c (legacy_account_retry_key k);
                ret (case err of
                       None \<Rightarrow> Inr (if deadline < rec_retry_not_before legacy
                                    then rec_retry_not_before legacy else deadline)
                     | Some e \<Rightarrow> if errors_is e ErrSessionCacheNotFound then Inr deadline else Inl e) })"

definition load_account_retry :: "env \<Rightarrow> string \<Rightarrow> ctx \<Rightarrow> session_key \<Rightarrow> (world, go_error + gtime) state" where
  "load_account_retry E dir c k =
     do { (r, err) \<leftarrow> load E dir c (account_retry_key k);
          case err of
            None \<Rightarrow> load_legacy_retry E dir c k (rec_retry_not_before r)
          | Some e \<Rightarrow>
              if errors_is e ErrSessionCacheNotFound then load_legacy_retry E dir c k zero_time
              else ret (Inl e) }"

definition save_account_retry :: "env \<Rightarrow> string \<Rightarrow> ctx \<Rightarrow> session_key \<Rightarrow> gtime \<Rightarrow> (world, go_error option) state" where
  "save_account_retry E dir c k deadline =
     (if is_zero deadline then ret None
      else let_err (load_account_retry E dir c k)
        (\<lambda>previous. save E dir c (account_retry_key k)
           (zero_record\<lparr>rec_retry_not_before := (if deadline < previous then previous else deadline)\<rparr>)))"

definition accepted_otp_key :: "session_key \<Rightarrow> string \<Rightarrow> session_key" where
  "accepted_otp_key k binding =
     \<lparr>sk_endpoint = normalized_auth_endpoint (sk_endpoint k),
      sk_username = normalized_username (sk_username k),
      sk_impersonate = accepted_otp_target @ binding, sk_fingerprint = ''accepted-otp-v1''\<rparr>"

text \<open>\<open>Inr None\<close> is \<^verbatim>\<open>(0, false, nil)\<close>.\<close>

definition load_accepted_step :: "env \<Rightarrow> string \<Rightarrow> ctx \<Rightarrow> session_key \<Rightarrow> string \<Rightarrow>
    (world, go_error + int option) state" where
  "load_accepted_step E dir c k binding =
     do { (r, err) \<leftarrow> load E dir c (accepted_otp_key k binding);
          ret (case err of
                 Some e \<Rightarrow> if errors_is e ErrSessionCacheNotFound then Inr None else Inl e
               | None \<Rightarrow> if rec_otp_binding r \<noteq> binding
                         then Inl (corrupt_err ''accepted OTP binding mismatch'')
                         else Inr (Some (rec_accepted_step r))) }"

definition raised_step :: "int option \<Rightarrow> int \<Rightarrow> int" where
  "raised_step previous step = (case previous of Some p \<Rightarrow> if step < p then p else step | None \<Rightarrow> step)"

definition save_accepted_step :: "env \<Rightarrow> string \<Rightarrow> ctx \<Rightarrow> session_key \<Rightarrow> string \<Rightarrow> int \<Rightarrow>
    (world, go_error option) state" where
  "save_accepted_step E dir c k binding step =
     let_err (load_accepted_step E dir c k binding)
       (\<lambda>previous. save E dir c (accepted_otp_key k binding)
          (zero_record\<lparr>rec_accepted_step := raised_step previous step, rec_otp_binding := binding\<rparr>))"

section \<open>Lemmas\<close>

lemma load_dir_step: "state_io_rel (dir_step dir) (load E dir c k)"
  unfolding load_def load_entry_def entry_path_def read_private_file_def Let_def
  by (intro dirs.keep_rules ensure_dir_step; simp)

lemma load_wp: "wp (load E dir c k) (\<lambda>res w'. load_spec E dir k (w_files w) res w' \<and> dir_step dir w w') w"
  by (rule wp_conj [OF load_post wp_keeps [OF load_dir_step]])

text \<open>What the file of a key says, if it is there and decodes.\<close>

definition on_disk :: "string \<Rightarrow> session_key \<Rightarrow> files \<Rightarrow> session_record option" where
  "on_disk dir k fs =
     (case fs (entry_file dir k) of None \<Rightarrow> None | Some i \<Rightarrow> decode_record (i_data i))"

lemma load_on_disk:
  "load_spec E dir k fs (r, None) w \<Longrightarrow> on_disk dir k fs = Some r"
  by (auto simp: load_spec_def on_disk_def)

lemma load_not_on_disk:
  "load_spec E dir k fs (r, Some e) w \<Longrightarrow> errors_is e ErrSessionCacheNotFound \<Longrightarrow> on_disk dir k fs = None"
  by (auto simp: load_spec_def on_disk_def)

lemma on_disk_dir_step: "dir_step dir w w' \<Longrightarrow> on_disk dir k (w_files w') = on_disk dir k (w_files w)"
  by (simp add: on_disk_def entry_unchanged)

definition not_after :: "session_record option \<Rightarrow> gtime \<Rightarrow> bool" where
  "not_after r d = (case r of None \<Rightarrow> True | Some r \<Rightarrow> rec_retry_not_before r \<le> d)"

lemma not_after_simps [simp]: "not_after None d" "not_after (Some r) d \<longleftrightarrow> rec_retry_not_before r \<le> d"
  by (simp_all add: not_after_def)

lemma load_legacy_retry_post:
  assumes "not_after (on_disk dir (account_retry_key k) (w_files w)) deadline"
  shows "wp (load_legacy_retry E dir c k deadline) (\<lambda>r w'. dir_step dir w w' \<and>
     (\<forall>d. r = Inr d \<longrightarrow> deadline \<le> d
        \<and> not_after (on_disk dir (account_retry_key k) (w_files w)) d
        \<and> not_after (on_disk dir (legacy_account_retry_key k) (w_files w)) d)) w"
proof (cases "sk_endpoint (legacy_account_retry_key k) = sk_endpoint (account_retry_key k)
         \<and> sk_username (legacy_account_retry_key k) = sk_username (account_retry_key k)")
  case True
  then have "legacy_account_retry_key k = account_retry_key k"
    by (simp add: legacy_account_retry_key_def account_retry_key_def)
  then show ?thesis using assms by (simp add: load_legacy_retry_def wp_simps dirs.refl)
next
  case False
  have le: "not_after r d \<Longrightarrow> d \<le> d' \<Longrightarrow> not_after r d'" for r d d'
    by (auto simp: not_after_def split: option.splits)
  have post: "(\<forall>d. (case err of
         None \<Rightarrow> Inr (if deadline < rec_retry_not_before l then rec_retry_not_before l else deadline)
       | Some e \<Rightarrow> if errors_is e ErrSessionCacheNotFound then Inr deadline else Inl e) = Inr d \<longrightarrow>
       deadline \<le> d \<and> not_after (on_disk dir (account_retry_key k) (w_files w)) d
       \<and> not_after (on_disk dir (legacy_account_retry_key k) (w_files w)) d)"
    if "load_spec E dir (legacy_account_retry_key k) (w_files w) (l, err) w'" for l err w'
    using that le [OF assms] load_on_disk [of E dir _ _ l w'] load_not_on_disk [of E dir _ _ l _ w']
    by (cases err) auto
  show ?thesis
    using False post
    by (auto simp: load_legacy_retry_def wp_simps intro!: wp_mono [OF load_wp])
qed

lemma load_account_retry_post:
  "wp (load_account_retry E dir c k) (\<lambda>r w'. dir_step dir w w' \<and>
     (\<forall>d. r = Inr d \<longrightarrow> not_after (on_disk dir (account_retry_key k) (w_files w)) d
        \<and> not_after (on_disk dir (legacy_account_retry_key k) (w_files w)) d)) w"
proof -
  have legacy: "wp (load_legacy_retry E dir c k d) (\<lambda>r w'. dir_step dir w w' \<and>
     (\<forall>d. r = Inr d \<longrightarrow> not_after (on_disk dir (account_retry_key k) (w_files w)) d
        \<and> not_after (on_disk dir (legacy_account_retry_key k) (w_files w)) d)) v"
    if v: "dir_step dir w v" and d: "not_after (on_disk dir (account_retry_key k) (w_files w)) d" for v d
    using d on_disk_dir_step [OF v]
    by (auto intro!: wp_mono [OF load_legacy_retry_post] intro: dirs.trans [OF v])
  show ?thesis
    unfolding load_account_retry_def wp_bind
  proof (rule wp_mono [OF load_wp], clarify)
    fix r :: session_record and err w'
    assume l: "load_spec E dir (account_retry_key k) (w_files w) (r, err) w'" and d: "dir_step dir w w'"
    show "wp (case err of None \<Rightarrow> load_legacy_retry E dir c k (rec_retry_not_before r)
          | Some e \<Rightarrow> if errors_is e ErrSessionCacheNotFound then load_legacy_retry E dir c k zero_time
              else ret (Inl e)) (\<lambda>r w'. dir_step dir w w' \<and>
     (\<forall>d. r = Inr d \<longrightarrow> not_after (on_disk dir (account_retry_key k) (w_files w)) d
        \<and> not_after (on_disk dir (legacy_account_retry_key k) (w_files w)) d)) w'"
    proof (cases err)
      case None
      then have "not_after (on_disk dir (account_retry_key k) (w_files w)) (rec_retry_not_before r)"
        using l load_on_disk by simp
      from legacy [OF d this] None show ?thesis by simp
    next
      case (Some e)
      show ?thesis
      proof (cases "errors_is e ErrSessionCacheNotFound")
        case True
        then have "not_after (on_disk dir (account_retry_key k) (w_files w)) zero_time"
          using l Some load_not_on_disk by simp
        from legacy [OF d this] Some True show ?thesis by simp
      next
        case False
        then show ?thesis using Some d by (simp add: wp_ret)
      qed
    qed
  qed
qed

text \<open>The record a successful save leaves on disk.\<close>

definition saved :: "env \<Rightarrow> string \<Rightarrow> session_key \<Rightarrow> session_record \<Rightarrow> files \<Rightarrow> bool" where
  "saved E dir k r fs = (\<exists>payload now. encode_for E (fill_record k r) = Some payload
     \<and> fs (entry_file dir k) = Some (new_file E payload) \<and> validate_record k (fill_record k r) now = None)"

lemma save_spec_saved: "save_spec E dir k r fs None fs' \<Longrightarrow> saved E dir k r fs'"
  by (auto simp: save_spec_def stored_in_def saved_def Let_def)

text \<open>What any save leaves of the entry, whether it succeeds or not.\<close>

lemma save_spec_either:
  "save_spec E dir k r fs res fs' \<Longrightarrow> fs' (entry_file dir k) = fs (entry_file dir k) \<or> saved E dir k r fs'"
  by (auto simp: save_spec_def stored_in_def saved_def Let_def)

lemma save_spec_others:
  assumes "save_spec E dir k r fs res fs'" and "entry_file dir k' \<noteq> entry_file dir k"
  shows "on_disk dir k' fs' = on_disk dir k' fs"
proof -
  have "dir_grown dir (entry_file dir k') (fs (entry_file dir k')) (fs' (entry_file dir k'))"
    using assms entry_not_is_temp [of dir k'] by (simp add: save_spec_def Let_def)
  then show ?thesis using entry_not_ancestor [of dir k'] by (simp add: on_disk_def)
qed

lemma on_disk_same_file: "entry_file dir k' = entry_file dir k \<Longrightarrow> on_disk dir k' fs = on_disk dir k fs"
  by (simp add: on_disk_def)

lemma saved_on_disk:
  assumes "saved E dir k r fs" and "list_all (\<lambda>c. int64_ok (sc_same_site c)) (rec_cookies r)"
  shows "on_disk dir k fs = Some (sound_record (fill_record k r))"
proof -
  obtain payload now where p: "encode_record (e_layout E (fill_record k r)) (fill_record k r) = Some payload"
    "fs (entry_file dir k) = Some (new_file E payload)" "validate_record k (fill_record k r) now = None"
    using assms(1) by (auto simp: saved_def encode_for_def)
  have "record_ints (fill_record k r)" using validate_record_ints [OF p(3)] assms(2) by simp
  then show ?thesis using record_reread [OF p(1)] p(2) by (simp add: on_disk_def new_file_def)
qed

lemma saved_binding:
  assumes "saved E dir k r fs"
  shows "to_valid (rec_otp_binding r) = rec_otp_binding r"
proof -
  obtain now where "validate_record k (fill_record k r) now = None" using assms by (auto simp: saved_def)
  then have "list_all (\<lambda>c. byte c < 128) (rec_otp_binding r)" using validate_binding_ascii by fastforce
  then show ?thesis by (intro to_valid_id valid_utf8_ascii)
qed

text \<open>A save either publishes the new record in its entry, or fails and leaves the entry as it was;
  the other entries stay as they were.\<close>

definition others_kept :: "string \<Rightarrow> session_key \<Rightarrow> files \<Rightarrow> files \<Rightarrow> bool" where
  "others_kept dir k fs fs' =
     (\<forall>k'. entry_file dir k' \<noteq> entry_file dir k \<longrightarrow> on_disk dir k' fs' = on_disk dir k' fs)"

definition unpublished :: "string \<Rightarrow> session_key \<Rightarrow> go_error option \<Rightarrow> files \<Rightarrow> files \<Rightarrow> bool" where
  "unpublished dir k res fs fs' = (res \<noteq> None \<and> on_disk dir k fs' = on_disk dir k fs)"

lemma save_published:
  assumes "dir_step dir w v"
  shows "wp (save E dir c k r) (\<lambda>res w'.
     (saved E dir k r (w_files w') \<or> unpublished dir k res (w_files w) (w_files w'))
     \<and> others_kept dir k (w_files w) (w_files w')) v"
proof (rule wp_mono [OF save_post])
  fix res w'
  assume "save_spec E dir k r (w_files v) res (w_files w')"
  then have spec: "save_spec E dir k r (w_files w) res (w_files w')" by (rule save_spec_dir_step [OF _ assms])
  have "saved E dir k r (w_files w') \<or> unpublished dir k res (w_files w) (w_files w')"
    using save_spec_either [OF spec] spec
    by (cases res) (auto simp: on_disk_def unpublished_def dest: save_spec_saved)
  then show "(saved E dir k r (w_files w') \<or> unpublished dir k res (w_files w) (w_files w'))
     \<and> others_kept dir k (w_files w) (w_files w')"
    using save_spec_others [OF spec] by (simp add: others_kept_def)
qed

lemma failed_unpublished:
  "dir_step dir w w' \<Longrightarrow>
     unpublished dir k (Some e) (w_files w) (w_files w') \<and> others_kept dir k (w_files w) (w_files w')"
  by (simp add: unpublished_def others_kept_def on_disk_dir_step)

lemma save_account_retry_post:
  assumes "\<not> is_zero deadline"
  shows "wp (save_account_retry E dir c k deadline) (\<lambda>r w'.
     ((\<exists>d. saved E dir (account_retry_key k) (zero_record\<lparr>rec_retry_not_before := d\<rparr>) (w_files w')
        \<and> deadline \<le> d
        \<and> not_after (on_disk dir (account_retry_key k) (w_files w)) d
        \<and> not_after (on_disk dir (legacy_account_retry_key k) (w_files w)) d)
      \<or> unpublished dir (account_retry_key k) r (w_files w) (w_files w'))
     \<and> others_kept dir (account_retry_key k) (w_files w) (w_files w')) w"
proof -
  have le: "not_after r d \<Longrightarrow> \<not> deadline < d \<Longrightarrow> not_after r deadline" for r d
    by (auto simp: not_after_def split: option.splits)
  have store: "wp (save E dir c (account_retry_key k) (zero_record\<lparr>rec_retry_not_before := d\<rparr>)) (\<lambda>r w'.
     ((\<exists>d. saved E dir (account_retry_key k) (zero_record\<lparr>rec_retry_not_before := d\<rparr>) (w_files w')
        \<and> deadline \<le> d
        \<and> not_after (on_disk dir (account_retry_key k) (w_files w)) d
        \<and> not_after (on_disk dir (legacy_account_retry_key k) (w_files w)) d)
      \<or> unpublished dir (account_retry_key k) r (w_files w) (w_files w'))
     \<and> others_kept dir (account_retry_key k) (w_files w) (w_files w')) v"
    if "dir_step dir w v" "not_after (on_disk dir (account_retry_key k) (w_files w)) d" "deadline \<le> d"
       "not_after (on_disk dir (legacy_account_retry_key k) (w_files w)) d" for d v
    by (rule wp_mono [OF save_published [OF that(1)]]) (use that in blast)
  show ?thesis
    using assms
    by (auto simp: save_account_retry_def wp_simps failed_unpublished
        intro!: wp_mono [OF load_account_retry_post] store dest: le split: sum.splits)
qed

definition step_not_above :: "session_record option \<Rightarrow> int \<Rightarrow> bool" where
  "step_not_above r s = (case r of None \<Rightarrow> True | Some r \<Rightarrow> rec_accepted_step r \<le> s)"

lemma load_accepted_step_post:
  "wp (load_accepted_step E dir c k binding) (\<lambda>r w'. dir_step dir w w' \<and>
     (\<forall>s. r = Inr s \<longrightarrow> map_option rec_accepted_step (on_disk dir (accepted_otp_key k binding) (w_files w)) = s)) w"
  unfolding load_accepted_step_def wp_bind
proof (rule wp_mono [OF load_wp], clarify)
  fix r :: session_record and err w'
  assume l: "load_spec E dir (accepted_otp_key k binding) (w_files w) (r, err) w'" and d: "dir_step dir w w'"
  show "wp (ret (case err of None \<Rightarrow> if rec_otp_binding r \<noteq> binding then Inl (corrupt_err ''accepted OTP binding mismatch'')
              else Inr (Some (rec_accepted_step r))
        | Some e \<Rightarrow> if errors_is e ErrSessionCacheNotFound then Inr None else Inl e)) (\<lambda>r w'. dir_step dir w w' \<and>
     (\<forall>s. r = Inr s \<longrightarrow> map_option rec_accepted_step (on_disk dir (accepted_otp_key k binding) (w_files w)) = s)) w'"
    using l d load_on_disk load_not_on_disk
    by (cases err) (auto simp: wp_simps)
qed

lemma save_accepted_step_post:
  "wp (save_accepted_step E dir c k binding step) (\<lambda>r w'.
     (\<exists>s. saved E dir (accepted_otp_key k binding)
            (zero_record\<lparr>rec_accepted_step := s, rec_otp_binding := binding\<rparr>) (w_files w')
        \<and> step \<le> s \<and> step_not_above (on_disk dir (accepted_otp_key k binding) (w_files w)) s)
     \<or> unpublished dir (accepted_otp_key k binding) r (w_files w) (w_files w')) w"
proof -
  have store: "wp (save E dir c (accepted_otp_key k binding)
        (zero_record\<lparr>rec_accepted_step := raised_step p step, rec_otp_binding := binding\<rparr>)) (\<lambda>r w'.
     (\<exists>s. saved E dir (accepted_otp_key k binding)
            (zero_record\<lparr>rec_accepted_step := s, rec_otp_binding := binding\<rparr>) (w_files w')
        \<and> step \<le> s \<and> step_not_above (on_disk dir (accepted_otp_key k binding) (w_files w)) s)
     \<or> unpublished dir (accepted_otp_key k binding) r (w_files w) (w_files w')) v"
    if "dir_step dir w v" "map_option rec_accepted_step (on_disk dir (accepted_otp_key k binding) (w_files w)) = p"
    for p v
    by (rule wp_mono [OF save_published [OF that(1)]])
       (use that in \<open>auto intro!: exI [of _ "raised_step p step"]
          simp: raised_step_def step_not_above_def split: option.splits\<close>)
  show ?thesis
    by (auto simp: save_accepted_step_def wp_simps failed_unpublished
        intro!: wp_mono [OF load_accepted_step_post] store split: sum.splits)
qed

section \<open>Calmness\<close>

lemma load_account_retry_calm: "state_io_rel calm (load_account_retry E dir c k)"
  unfolding load_account_retry_def load_legacy_retry_def
  by (intro calm.keep_rules load_calm)

lemma save_account_retry_calm: "state_io_rel calm (save_account_retry E dir c k d)"
  unfolding save_account_retry_def
  by (intro calm.keep_rules load_account_retry_calm save_calm)

lemma load_accepted_step_calm: "state_io_rel calm (load_accepted_step E dir c k b)"
  unfolding load_accepted_step_def by (intro calm.keep_rules load_calm)

lemma save_accepted_step_calm: "state_io_rel calm (save_accepted_step E dir c k b s)"
  unfolding save_accepted_step_def by (intro calm.keep_rules load_accepted_step_calm save_calm)

section \<open>Properties\<close>

text \<open>C30: Publishing an account's retry deadline never brings a stored one forward, whether it
  succeeds or fails: whatever deadline the account's entry or the one an older version of the client
  wrote under the raw spelling held before, the same entry still holds one no earlier. After a
  success the account's entry also holds one no earlier than the new deadline and than both old ones.\<close>

theorem retry_deadline_never_lowered:
  assumes "\<not> is_zero deadline"
  shows "wp (save_account_retry E dir c k deadline) (\<lambda>r w'.
     (\<forall>key \<in> {account_retry_key k, legacy_account_retry_key k}.
        case on_disk dir key (w_files w) of None \<Rightarrow> True
        | Some old \<Rightarrow> \<exists>new. on_disk dir key (w_files w') = Some new
            \<and> rec_retry_not_before old \<le> rec_retry_not_before new)
     \<and> (r = None \<longrightarrow>
     (\<exists>new. on_disk dir (account_retry_key k) (w_files w') = Some new
        \<and> deadline \<le> rec_retry_not_before new
        \<and> (\<forall>old \<in> {account_retry_key k, legacy_account_retry_key k}.
             case on_disk dir old (w_files w) of None \<Rightarrow> True
             | Some r \<Rightarrow> rec_retry_not_before r \<le> rec_retry_not_before new)))) w" (is "wp _ ?Q _")
proof (rule wp_mono [OF save_account_retry_post [OF assms]], elim conjE disjE exE)
  fix r :: "go_error option" and w' :: world and d
  assume others: "others_kept dir (account_retry_key k) (w_files w) (w_files w')"
    and d: "saved E dir (account_retry_key k) (zero_record\<lparr>rec_retry_not_before := d\<rparr>) (w_files w')"
    "deadline \<le> d" "not_after (on_disk dir (account_retry_key k) (w_files w)) d"
    "not_after (on_disk dir (legacy_account_retry_key k) (w_files w)) d"
  have new: "on_disk dir (account_retry_key k) (w_files w')
      = Some (sound_record (fill_record (account_retry_key k) (zero_record\<lparr>rec_retry_not_before := d\<rparr>)))"
    by (rule saved_on_disk [OF d(1)]) (simp add: zero_record_def)
  have legacy: "on_disk dir (legacy_account_retry_key k) (w_files w') = on_disk dir (legacy_account_retry_key k) (w_files w)
      \<or> on_disk dir (legacy_account_retry_key k) (w_files w') = on_disk dir (account_retry_key k) (w_files w')"
    using others on_disk_same_file [of dir "legacy_account_retry_key k" "account_retry_key k"]
    unfolding others_kept_def by metis
  show "?Q r w'"
    using d(2-4) new legacy by (auto simp: not_after_def split: option.splits)
next
  fix r :: "go_error option" and w' :: world
  assume "others_kept dir (account_retry_key k) (w_files w) (w_files w')"
    and "unpublished dir (account_retry_key k) r (w_files w) (w_files w')"
  then have same: "r \<noteq> None" "on_disk dir (account_retry_key k) (w_files w') = on_disk dir (account_retry_key k) (w_files w)"
    "on_disk dir (legacy_account_retry_key k) (w_files w') = on_disk dir (legacy_account_retry_key k) (w_files w)"
    using on_disk_same_file [of dir "legacy_account_retry_key k" "account_retry_key k"]
    unfolding others_kept_def unpublished_def by metis+
  show "?Q r w'" using same by (auto split: option.splits)
qed

lemma retry_deadline_never_lowered_witness:
  "wp (save_account_retry sample_env ''/cache'' (Ctx 0) sample_key 5) (\<lambda>r w'. r = None \<longrightarrow>
     (\<exists>new. on_disk ''/cache'' (account_retry_key sample_key) (w_files w') = Some new
        \<and> 5 \<le> rec_retry_not_before new)) sample_world"
proof -
  have "\<not> is_zero 5" by (simp add: time_defs)
  from retry_deadline_never_lowered [OF this] show ?thesis
    by (rule wp_mono) blast
qed

text \<open>C29: An accepted one-time code on disk never moves back, whether publishing it succeeds or fails:
  the entry either holds what it held, or a record bound to the same secret whose step is no earlier
  than the new one and than the one that was stored; after a success it holds the latter.\<close>

theorem accepted_step_never_lowered:
  "wp (save_accepted_step E dir c k binding step) (\<lambda>r w'.
     (case r of
        Some e \<Rightarrow> on_disk dir (accepted_otp_key k binding) (w_files w')
                 = on_disk dir (accepted_otp_key k binding) (w_files w)
      | None \<Rightarrow> False)
     \<or> (\<exists>new. on_disk dir (accepted_otp_key k binding) (w_files w') = Some new
        \<and> rec_otp_binding new = binding \<and> step \<le> rec_accepted_step new
        \<and> (case on_disk dir (accepted_otp_key k binding) (w_files w) of
             None \<Rightarrow> True | Some old \<Rightarrow> rec_accepted_step old \<le> rec_accepted_step new))) w"
proof (rule wp_mono [OF save_accepted_step_post])
  fix r w'
  let ?new = "\<exists>new. on_disk dir (accepted_otp_key k binding) (w_files w') = Some new
        \<and> rec_otp_binding new = binding \<and> step \<le> rec_accepted_step new
        \<and> (case on_disk dir (accepted_otp_key k binding) (w_files w) of
             None \<Rightarrow> True | Some old \<Rightarrow> rec_accepted_step old \<le> rec_accepted_step new)"
  have "?new" if "saved E dir (accepted_otp_key k binding)
            (zero_record\<lparr>rec_accepted_step := s, rec_otp_binding := binding\<rparr>) (w_files w')"
      "step \<le> s" "step_not_above (on_disk dir (accepted_otp_key k binding) (w_files w)) s" for s
    using saved_on_disk [OF that(1)] saved_binding [OF that(1)] that(2,3)
    by (auto simp: step_not_above_def zero_record_def split: option.splits)
  moreover assume "(\<exists>s. saved E dir (accepted_otp_key k binding)
            (zero_record\<lparr>rec_accepted_step := s, rec_otp_binding := binding\<rparr>) (w_files w')
        \<and> step \<le> s \<and> step_not_above (on_disk dir (accepted_otp_key k binding) (w_files w)) s)
     \<or> unpublished dir (accepted_otp_key k binding) r (w_files w) (w_files w')"
  ultimately show "(case r of
        Some e \<Rightarrow> on_disk dir (accepted_otp_key k binding) (w_files w')
                 = on_disk dir (accepted_otp_key k binding) (w_files w)
      | None \<Rightarrow> False) \<or> ?new"
    by (auto simp: unpublished_def)
qed

end
