(* ===== verification/Otp_Coordination.thy ===== *)
theory Otp_Coordination
  imports Account_Retry
begin

text \<open>
  otp_coordination.go: the register of accepted one-time codes, the wait for a window whose
  code has not been spent, and one account's turn at the semaphore. The semaphores as
  goroutines see them are a step relation of their own (theory \<open>Otp_Semaphore\<close>).
\<close>

section \<open>A register that only goes up\<close>

text \<open>What the accepted codes and the account deadlines have in common.\<close>

locale max_register =
  fixes read :: "'s \<Rightarrow> 'k \<Rightarrow> int option"
    and raise_to :: "'k \<Rightarrow> int \<Rightarrow> 's \<Rightarrow> 's"
  assumes read_raise: "read (raise_to k v s) k = Some (case read s k of None \<Rightarrow> v | Some u \<Rightarrow> max u v)"
    and read_other: "k \<noteq> k' \<Longrightarrow> read (raise_to k v s) k' = read s k'"
begin

lemma reaches: "\<exists>u. read (raise_to k v s) k = Some u \<and> v \<le> u"
  by (auto simp: read_raise split: option.splits)

lemma never_lowers: "read s k = Some u \<Longrightarrow> \<exists>u'. read (raise_to k' v s) k = Some u' \<and> u \<le> u'"
  by (cases "k = k'") (auto simp: read_raise read_other)

lemma commutes: "read (raise_to k v (raise_to k' v' s)) i = read (raise_to k' v' (raise_to k v s)) i"
  by (cases "k = k'"; cases "i = k"; cases "i = k'")
     (auto simp: read_raise read_other max.commute max.left_commute split: option.splits)

lemma absorbs: "read (raise_to k v (raise_to k v s)) i = read (raise_to k v s) i"
  by (cases "i = k") (auto simp: read_raise read_other split: option.splits)

lemma after_many: "vs \<noteq> [] \<Longrightarrow> read s k = None \<Longrightarrow> read (fold (raise_to k) vs s) k = Some (Max (set vs))"
proof (induction vs rule: rev_induct)
  case Nil
  then show ?case by simp
next
  case (snoc v vs)
  then show ?case by (cases "vs = []") (auto simp: read_raise max.commute)
qed

end

text \<open>\<open>rememberAcceptedOTPStep\<close> on the map of accepted steps.\<close>

definition remember_step :: "string \<Rightarrow> int \<Rightarrow> (string \<rightharpoonup> int) \<Rightarrow> (string \<rightharpoonup> int)" where
  "remember_step identity step accepted =
     (case accepted identity of
        Some previous \<Rightarrow> if previous < step then accepted(identity \<mapsto> step) else accepted
      | None \<Rightarrow> accepted(identity \<mapsto> step))"

interpretation accepted: max_register "\<lambda>m i. m i" remember_step
  by unfold_locales (auto simp: remember_step_def split: option.splits)

definition accepted_otp_step :: "string \<Rightarrow> (world, int option) state" where
  "accepted_otp_step identity = asks (\<lambda>w. w_accepted w identity)"

definition remember_accepted :: "string \<Rightarrow> int \<Rightarrow> (world, unit) state" where
  "remember_accepted identity step = modify (\<lambda>w. w\<lparr>w_accepted := remember_step identity step (w_accepted w)\<rparr>)"

section \<open>Waiting for a fresh window\<close>

definition step_deadline :: "int \<Rightarrow> gtime" where
  "step_deadline accepted = time_unix (wrap64 ((accepted + 1) * 30 + 1))"

fun wait_for_step :: "env \<Rightarrow> ctx \<Rightarrow> int \<Rightarrow> nat \<Rightarrow> (world, go_error option) state" where
  "wait_for_step E c accepted 0 = ret (Some (Sentinel ContextDeadlineExceeded))"
| "wait_for_step E c accepted (Suc n) =
     then_ok (context_err E c)
       (do { start \<leftarrow> now_op E;
             if accepted < otp_step start then ret None
             else (let delay = time_sub (step_deadline accepted) start
                   in if delay \<le> 0
                      then ret (Some (Plain ''cloudsigma: clock did not advance past accepted OTP step''))
                      else then_ok (real_sleep E c delay)
                        (do { later \<leftarrow> now_op E;
                              if \<not> start < later
                              then ret (Some (Plain ''cloudsigma: clock did not advance during accepted OTP wait''))
                              else wait_for_step E c accepted n })) })"

definition wait_for_accepted :: "env \<Rightarrow> ctx \<Rightarrow> int \<Rightarrow> (world, go_error option) state" where
  "wait_for_accepted E c accepted =
     do { rounds \<leftarrow> asks (\<lambda>w. e_patience E (w_trace w)); wait_for_step E c accepted rounds }"

section \<open>The account's turn\<close>

definition merge_accepted :: "(string \<rightharpoonup> int) \<Rightarrow> (string \<rightharpoonup> int) \<Rightarrow> (string \<rightharpoonup> int)" where
  "merge_accepted m others = (\<lambda>i. case others i of None \<Rightarrow> m i | Some s \<Rightarrow> remember_step i s m i)"

definition acquire_otp_account :: "env \<Rightarrow> ctx \<Rightarrow> string \<Rightarrow> (world, go_error option) state" where
  "acquire_otp_account E c identity =
     then_ok (context_err E c)
       (then_ok (context_err E c)
         (do { record_ev (EvSemaphore identity);
               modify (\<lambda>w. w\<lparr>w_accepted := merge_accepted (w_accepted w) (e_accepted E (w_trace w))\<rparr>);
               ended \<leftarrow> context_err E c;
               case ended of
                 Some e \<Rightarrow> do { record_ev (EvRelease identity); ret (Some e) }
               | None \<Rightarrow> ret None }))"

definition release_otp_account :: "string \<Rightarrow> (world, unit) state" where
  "release_otp_account identity = record_ev (EvRelease identity)"

section \<open>Lemmas\<close>

definition steps_grow :: "world \<Rightarrow> world \<Rightarrow> bool" where
  "steps_grow w w' = (\<forall>i u. w_accepted w i = Some u \<longrightarrow> (\<exists>u'. w_accepted w' i = Some u' \<and> u \<le> u'))"

interpretation grow: world_preorder steps_grow
proof unfold_locales
  show "steps_grow w w" for w by (simp add: steps_grow_def)
  show "steps_grow u v \<Longrightarrow> steps_grow v w \<Longrightarrow> steps_grow u w" for u v w
    unfolding steps_grow_def by (meson order_trans)
qed (simp_all add: steps_grow_def)

lemma remember_accepted_grow: "state_io_rel steps_grow (remember_accepted i s)"
  unfolding remember_accepted_def
  by (rule grow.keep_modify) (simp add: steps_grow_def accepted.never_lowers)

lemma merge_accepted_grow: "m i = Some u \<Longrightarrow> \<exists>u'. merge_accepted m n i = Some u' \<and> u \<le> u'"
  using accepted.never_lowers [of m i u i] by (auto simp: merge_accepted_def split: option.splits)

lemma calm_grow: "calm w w' \<Longrightarrow> steps_grow w w'"
  by (auto simp: calm_def memory_def steps_grow_def)

lemma step_lt_deadline:
  assumes "0 \<le> accepted" "accepted \<le> max_accepted_step" "otp_step t \<le> accepted"
  shows "t < step_deadline accepted"
proof -
  have fit: "wrap64 ((accepted + 1) * 30 + 1) = (accepted + 1) * 30 + 1"
    using assms(1,2) by (intro wrap64_id) (simp_all add: max_accepted_step_def)
  show ?thesis
  proof (cases "0 \<le> t")
    case True
    then have "unix t div 30 \<le> accepted" using assms(3) by (simp add: otp_step_nonneg)
    then have "unix t div 30 < accepted + 1" by simp
    then have "unix t < (accepted + 1) * 30" by (simp add: div_less_iff_less_mult)
    then have "unix t < (accepted + 1) * 30 + 1" by simp
    then show ?thesis using fit by (simp add: step_deadline_def time_defs)
  next
    case False
    then show ?thesis using fit assms(1) by (simp add: step_deadline_def time_defs)
  qed
qed

text \<open>The wait ends well only past the accepted window.\<close>

lemma wait_for_step_post:
  "wp (wait_for_step E c accepted n) (\<lambda>r w'. r = None \<longrightarrow>
     (\<exists>h. w_trace w' = EvNow (e_now E h) # h \<and> accepted < otp_step (e_now E h))) w"
proof (induction n arbitrary: w)
  case 0
  then show ?case by (simp add: wp_simps)
next
  case (Suc n)
  show ?case
    unfolding wait_for_step.simps wp_then_ok
    by (rule wp_keeps_mono [OF calm.keep_context_err])
       (auto simp: wp_simps Let_def intro!: wp_keeps_mono [OF calm.keep_sleep] Suc.IH split: option.split)
qed

text \<open>For every step the store can hold, the branch that blames the clock before sleeping is dead.\<close>

definition blames_start :: "go_error option \<Rightarrow> bool" where
  "blames_start r = (r = Some (Plain ''cloudsigma: clock did not advance past accepted OTP step''))"

lemma context_err_not_blame: "wp (context_err E c) (\<lambda>r w'. \<not> blames_start r) w"
  by (auto simp: wp_simps blames_start_def split: ctx.splits)
     (metis ctx_error_Some go_error.distinct(1) option.inject)

lemma sleep_not_blame: "wp (real_sleep E c d) (\<lambda>r w'. \<not> blames_start r) w"
proof (cases "d \<le> 0")
  case True
  then show ?thesis by (simp add: real_sleep_def wp_ret blames_start_def)
next
  case False
  then show ?thesis
    unfolding real_sleep_def by (simp add: wp_bind wp_record_ev context_err_not_blame)
qed

lemma wait_for_step_no_blame:
  assumes "0 \<le> accepted" "accepted \<le> max_accepted_step"
  shows "wp (wait_for_step E c accepted n) (\<lambda>r w'. \<not> blames_start r) w"
proof (induction n arbitrary: w)
  case 0
  then show ?case by (simp add: wp_simps blames_start_def)
next
  case (Suc n)
  have pos: "0 < time_sub (step_deadline accepted) t" if "\<not> accepted < otp_step t" for t
    using step_lt_deadline [OF assms] that by (simp add: time_sub_pos_iff)
  show ?case
    unfolding wait_for_step.simps wp_then_ok
    by (rule wp_mono [OF context_err_not_blame])
       (auto simp: wp_simps Let_def blames_start_def dest: pos
         intro!: wp_mono [OF sleep_not_blame] Suc.IH [unfolded blames_start_def] split: option.split)
qed

text \<open>With a clock that never runs backwards, a round per nanosecond left is always enough.\<close>

definition clock_monotone :: "env \<Rightarrow> bool" where
  "clock_monotone E = (\<forall>h e. e_now E h \<le> e_now E (e # h))"

lemma clock_monotone_append: "clock_monotone E \<Longrightarrow> e_now E h \<le> e_now E (g @ h)"
  by (induction g) (auto simp: clock_monotone_def intro: order_trans)

lemma clock_monotone_extends: "clock_monotone E \<Longrightarrow> extends w w' \<Longrightarrow> e_now E (w_trace w) \<le> e_now E (w_trace w')"
  by (auto simp: extends_def clock_monotone_append)

lemma run_then_ok_cong:
  assumes "\<And>w'. run_state m w = (None, w') \<Longrightarrow> run_state k w' = run_state k' w'"
  shows "run_state (then_ok m k) w = run_state (then_ok m k') w"
  using assms by (cases "run_state m w") (auto simp: then_ok_def split: option.split)

lemma run_now_bind: "run_state (State_Monad.bind (now_op E) f) w =
    run_state (f (e_now E (w_trace w))) (push (EvNow (e_now E (w_trace w))) w)"
  by (simp add: now_op_def observe_def Let_def)

lemma run_now: "run_state (now_op E) w = (e_now E (w_trace w), push (EvNow (e_now E (w_trace w))) w)"
  by (simp add: now_op_def observe_def Let_def)

lemma ext_run: "state_io_rel extends m \<Longrightarrow> run_state m w = (r, w') \<Longrightarrow> extends w w'"
  by (auto simp: state_io_rel_def dest: spec [of _ w])

lemma wait_for_step_enough:
  assumes acc: "0 \<le> accepted" "accepted \<le> max_accepted_step" and mono: "clock_monotone E"
  shows "nat (step_deadline accepted - e_now E (w_trace w)) < n \<Longrightarrow>
     run_state (wait_for_step E c accepted (Suc n)) w = run_state (wait_for_step E c accepted n) w"
proof (induction n arbitrary: w)
  case 0
  then show ?case by simp
next
  case (Suc n)
  let ?D = "step_deadline accepted"
  let ?body = "\<lambda>m. do { start \<leftarrow> now_op E;
            if accepted < otp_step start then ret None
            else (let delay = time_sub ?D start
                  in if delay \<le> 0
                     then ret (Some (Plain ''cloudsigma: clock did not advance past accepted OTP step''))
                     else then_ok (real_sleep E c delay)
                       (do { later \<leftarrow> now_op E;
                             if \<not> start < later
                             then ret (Some (Plain ''cloudsigma: clock did not advance during accepted OTP wait''))
                             else wait_for_step E c accepted m })) }"
  have "run_state (then_ok (context_err E c) (?body (Suc n))) w = run_state (then_ok (context_err E c) (?body n)) w"
  proof (rule run_then_ok_cong)
    fix v assume "run_state (context_err E c) w = (None, v)"
    then have wv: "e_now E (w_trace w) \<le> e_now E (w_trace v)"
      using ext_run [OF ext.keep_context_err] clock_monotone_extends [OF mono] by blast
    let ?t = "e_now E (w_trace v)" and ?v = "push (EvNow (e_now E (w_trace v))) v"
    have again: "run_state (wait_for_step E c accepted (Suc n)) u = run_state (wait_for_step E c accepted n) u"
      if "\<not> accepted < otp_step ?t" "?t < e_now E (w_trace u)" for u
    proof -
      have "?t < ?D" using step_lt_deadline [OF acc] that(1) by simp
      then have "nat (?D - e_now E (w_trace u)) < n" using Suc.prems wv that(2) by linarith
      then show ?thesis by (rule Suc.IH)
    qed
    have slept: "run_state (do { later \<leftarrow> now_op E;
            if \<not> ?t < later
            then ret (Some (Plain ''cloudsigma: clock did not advance during accepted OTP wait''))
            else wait_for_step E c accepted (Suc n) }) u =
          run_state (do { later \<leftarrow> now_op E;
            if \<not> ?t < later
            then ret (Some (Plain ''cloudsigma: clock did not advance during accepted OTP wait''))
            else wait_for_step E c accepted n }) u" if "\<not> accepted < otp_step ?t" for u
    proof -
      have "e_now E (w_trace u) \<le> e_now E (w_trace (push (EvNow (e_now E (w_trace u))) u))"
        using mono by (simp add: clock_monotone_def)
      then show ?thesis using again [OF that] by (simp only: run_now_bind) auto
    qed
    show "run_state (?body (Suc n)) v = run_state (?body n) v"
    proof (cases "accepted < otp_step ?t \<or> time_sub ?D ?t \<le> 0")
      case True
      then show ?thesis by (auto simp: run_now Let_def simp del: wait_for_step.simps)
    next
      case False
      then have "\<not> accepted < otp_step ?t" by simp
      from run_then_ok_cong [OF slept [OF this]] False show ?thesis
        by (simp only: run_now_bind Let_def if_False de_Morgan_disj)
    qed
  qed
  then show ?case by (simp only: wait_for_step.simps(2))
qed

section \<open>Properties\<close>

text \<open>However many codes are remembered and in whatever order, the register of an account holds the
  latest accepted one, and the registers of other accounts are untouched.\<close>

theorem remembered_is_latest:
  assumes "steps \<noteq> []" and "accepted identity = None"
  shows "fold (remember_step identity) steps accepted = accepted(identity \<mapsto> Max (set steps))"
proof
  fix i
  have "fold (remember_step identity) vs m i = m i" if "i \<noteq> identity" for vs m
    using that by (induction vs arbitrary: m) (simp_all add: accepted.read_other)
  then show "fold (remember_step identity) steps accepted i = (accepted(identity \<mapsto> Max (set steps))) i"
    using accepted.after_many [of steps accepted identity] assms by (cases "i = identity") simp_all
qed

lemma remembered_is_latest_witness:
  "fold (remember_step ''a'') [7, 9, 8] Map.empty = [''a'' \<mapsto> 9]"
  using remembered_is_latest [of "[7, 9, 8]" Map.empty "''a''"] by simp

text \<open>C28: The wait for a fresh code ends without an error only when the clock shows a window after the
  accepted one, and for every step the store can hold it never blames the clock for a deadline it
  has already passed.\<close>

theorem wait_ends_past_window:
  assumes "0 \<le> accepted" "accepted \<le> max_accepted_step"
  shows "wp (wait_for_step E c accepted n) (\<lambda>r w'.
     \<not> blames_start r
     \<and> (r = None \<longrightarrow> (\<exists>h. w_trace w' = EvNow (e_now E h) # h \<and> accepted < otp_step (e_now E h)))) w"
  using wp_conj [OF wait_for_step_no_blame [OF assms] wait_for_step_post] by (rule wp_mono) simp

lemma wait_ends_past_window_witness:
  "wp (wait_for_step sample_env (Ctx 0) 7 3) (\<lambda>r w'. r = None \<and> \<not> blames_start r
     \<and> (\<exists>h. w_trace w' = EvNow (e_now sample_env h) # h \<and> 7 < otp_step (e_now sample_env h))) sample_world"
proof -
  have ends: "wp (wait_for_step sample_env (Ctx 0) 7 3) (\<lambda>r w'. r = None) sample_world"
    by (simp add: numeral_3_eq_3 wp_simps otp_step_def unix_def go_div_def second_def)
  have "wp (wait_for_step sample_env (Ctx 0) 7 3) (\<lambda>r w'. \<not> blames_start r
     \<and> (r = None \<longrightarrow> (\<exists>h. w_trace w' = EvNow (e_now sample_env h) # h \<and> 7 < otp_step (e_now sample_env h)))) sample_world"
    by (rule wait_ends_past_window) (simp_all add: max_accepted_step_def)
  from wp_conj [OF ends this] show ?thesis by (rule wp_mono) blast
qed

text \<open>C37: The rounds a wait is given are no restriction: with a clock that never runs backwards, one round
  per nanosecond up to the deadline gives the result of any larger number of rounds.\<close>

theorem wait_rounds_enough:
  assumes "0 \<le> accepted" "accepted \<le> max_accepted_step" "clock_monotone E"
    and "nat (step_deadline accepted - e_now E (w_trace w)) < n" "n \<le> m"
  shows "run_state (wait_for_step E c accepted m) w = run_state (wait_for_step E c accepted n) w"
  using assms(5)
proof (induction m rule: dec_induct)
  case (step m)
  then show ?case using wait_for_step_enough [OF assms(1-3), of w m c] assms(4) by simp
qed simp

lemma sample_clock: "clock_monotone sample_env"
  by (simp add: clock_monotone_def second_def)

lemma wait_rounds_enough_witness:
  "run_state (wait_for_step sample_env (Ctx 0) 7 100) sample_world
     = run_state (wait_for_step sample_env (Ctx 0) 7 3) sample_world"
  by (rule wait_rounds_enough)
     (simp_all add: max_accepted_step_def sample_clock step_deadline_def time_unix_def second_def wrap64_def)

end
