(* ===== verification/Handshake.thy ===== *)
theory Handshake
  imports Otp_Coordination
begin

text \<open>
  session.go: the authenticator and its handshake. A handshake logs in, presents a one-time
  code (a second one when the first is rejected as a replay) and switches to the
  impersonated user, each over a bare client with the candidate jar.
\<close>

section \<open>The authenticator\<close>

record auth =
  au_root :: string
  au_origin :: string
  au_api_url :: url
  au_timeout :: duration
  au_username :: string
  au_password :: string
  au_otp :: string
  au_impersonate :: string
  au_user_agent :: string
  au_on_event :: bool

definition default_timeout :: duration where "default_timeout = 60 * second"

definition new_authenticator ::
  "string \<Rightarrow> string \<Rightarrow> string \<Rightarrow> string \<Rightarrow> string \<Rightarrow> string \<Rightarrow> duration \<Rightarrow> bool \<Rightarrow> go_error + auth" where
  "new_authenticator base username password otp_secret impersonate user_agent timeout on_event =
     (case auth_urls base of
        Inl e \<Rightarrow> Inl e
      | Inr (root, u, origin) \<Rightarrow>
          Inr \<lparr>au_root = root, au_origin = origin, au_api_url = u,
               au_timeout = (if timeout \<le> 0 then default_timeout else timeout),
               au_username = username, au_password = password, au_otp = otp_secret,
               au_impersonate = impersonate, au_user_agent = user_agent, au_on_event = on_event\<rparr>)"

section \<open>Requests\<close>

definition login_body :: "auth \<Rightarrow> string" where
  "login_body a =
     ''{'' @ json_string ''password'' @ '':'' @ json_string (au_password a) @ '',''
       @ json_string ''username'' @ '':'' @ json_string (au_username a) @ ''}''"

text \<open>\<open>newRequest\<close>, with what \<^verbatim>\<open>http.NewRequestWithContext\<close> refuses: a nil context, a bad URL.\<close>

definition new_request ::
  "auth \<Rightarrow> ctx \<Rightarrow> string \<Rightarrow> string \<Rightarrow> string option \<Rightarrow> (string \<times> string) list \<Rightarrow> go_error + (http_request \<times> url)" where
  "new_request a c meth url body headers =
     (if c = CtxNil then Inl (Plain ''net/http: nil Context'')
      else case url_parse url of
             None \<Rightarrow> Inl (Plain ''parse'')
           | Some u \<Rightarrow>
               let base = (if body = None then [] else [(''Content-Type'', ''application/json'')])
               in Inr (\<lparr>rq_method = meth, rq_url = url,
                        rq_headers = fold (\<lambda>(k, v). header_set k v) headers
                          (header_set ''User-Agent'' (au_user_agent a)
                            (header_set ''Referer'' (au_origin a) base)),
                        rq_cookies = [], rq_body = body\<rparr>,
                       u\<lparr>u_host := trim_suffix (u_host u) '':''\<rparr>))"

definition csrf_op :: "env \<Rightarrow> nat \<Rightarrow> url \<Rightarrow> (world, string) state" where
  "csrf_op E j u = do { wall \<leftarrow> now_op E; asks (\<lambda>w. csrf wall (jar_at w j) u) }"

definition body_of :: "http_response \<Rightarrow> body" where
  "body_of r = (case rs_body r of Some b \<Rightarrow> b | None \<Rightarrow> \<lparr>content = [], read_error = None\<rparr>)"

definition status_ok :: "int \<Rightarrow> bool" where
  "status_ok s = (200 \<le> s \<and> s \<le> 299)"

definition auth_api_err :: "env \<Rightarrow> http_response \<Rightarrow> string \<Rightarrow> string \<Rightarrow> string \<Rightarrow> gtime \<Rightarrow> go_error" where
  "auth_api_err E r payload meth url now =
     AuthApiErr \<lparr>ae_status = rs_status r, ae_body = trim_space payload, ae_method = meth, ae_url = url\<rparr>
       (parse_retry_after (e_zones E) (rs_retry_after r) now)"

section \<open>One attempt\<close>

type_synonym hook = "(world, go_error option) state"

text \<open>
  \<open>doJSON\<close>. \<open>accept\<close> is the \<open>acceptOTPStep\<close> callback, called when a one-time code was
  accepted.
\<close>

definition do_json ::
  "env \<Rightarrow> auth \<Rightarrow> nat \<Rightarrow> (int \<Rightarrow> hook) option \<Rightarrow> ctx \<Rightarrow> string \<Rightarrow> string \<Rightarrow> string option \<Rightarrow>
   (string \<times> string) list \<Rightarrow> auth_stage \<Rightarrow> int \<Rightarrow> (world, go_error + string) state" where
  "do_json E a j accept c meth url body headers stage step =
     (case new_request a c meth url body headers of
        Inl e \<Rightarrow> ret (Inl e)
      | Inr (rq, u) \<Rightarrow>
          do { out \<leftarrow> client_do E j u rq;
               case out of
                 HttpFail f status _ \<Rightarrow>
                   do { emit (au_on_event a) (attempt_event stage (case status of Some s \<Rightarrow> s | None \<Rightarrow> 0) (Some (net_error f)));
                        ret (Inl (net_error f)) }
               | HttpOk r _ \<Rightarrow>
                   (case read_capped (body_of r) login_response_bytes of
                      Inl e \<Rightarrow> do { emit (au_on_event a) (attempt_event stage (rs_status r) (Some e)); ret (Inl e) }
                    | Inr payload \<Rightarrow>
                        if \<not> status_ok (rs_status r)
                        then do { now \<leftarrow> now_op E;
                                  let err = auth_api_err E r payload meth url now;
                                  emit (au_on_event a) (attempt_event stage (rs_status r) (Some err));
                                  ret (Inl err) }
                        else do { refused \<leftarrow> (case accept of
                                     Some f \<Rightarrow> if stage = AuthStageOTPVerification then f step else ret None
                                   | None \<Rightarrow> ret None);
                                  emit (au_on_event a) (attempt_event stage (rs_status r) None);
                                  ret (case refused of Some e \<Rightarrow> Inl e | None \<Rightarrow> Inr payload) }) })"

section \<open>The handshake\<close>

definition finish_handshake :: "auth \<Rightarrow> auth_stage \<Rightarrow> go_error option \<Rightarrow> (world, go_error option) state" where
  "finish_handshake a stage err =
     (case err of
        Some e \<Rightarrow>
          let failure = classify_auth_error stage e
          in do { emit (au_on_event a)
                    (case failure of
                       AuthErr st k cause d \<Rightarrow>
                         (new_event AuthEventHandshakeResult st (kind_name k) outcome_failure)\<lparr>ev_retry_after := d\<rparr>
                     | _ \<Rightarrow> new_event AuthEventHandshakeResult stage [] outcome_failure);
                  ret (Some failure) }
      | None \<Rightarrow>
          do { emit (au_on_event a) (new_event AuthEventHandshakeResult stage reason_authentication outcome_success);
               ret None })"

definition wait_for_next_window :: "env \<Rightarrow> ctx \<Rightarrow> (world, go_error option) state" where
  "wait_for_next_window E c =
     do { t \<leftarrow> now_op E;
          let next = time_unix (wrap64 ((otp_step t + 1) * 30 + 1));
          t' \<leftarrow> now_op E;
          real_sleep E c (time_sub next t') }"

definition login_url :: "auth \<Rightarrow> string" where
  "login_url a = au_root a @ ''accounts/action/?do=login''"

definition otp_url :: "auth \<Rightarrow> string" where
  "otp_url a = au_root a @ ''accounts/action/?do=verify_otp''"

definition impersonate_url :: "auth \<Rightarrow> string" where
  "impersonate_url a = au_root a @ ''impersonate/'' @ au_impersonate a @ ''/''"

definition verify_otp :: "env \<Rightarrow> auth \<Rightarrow> nat \<Rightarrow> (int \<Rightarrow> hook) option \<Rightarrow> ctx \<Rightarrow> (world, go_error option) state" where
  "verify_otp E a j accept c =
     do { used_at \<leftarrow> now_op E;
          case totp (au_otp a) used_at of
            Inl e \<Rightarrow> ret (Some e)
          | Inr None \<Rightarrow> ret (Some (Plain ''slice bounds out of range''))
          | Inr (Some code) \<Rightarrow>
              do { token \<leftarrow> csrf_op E j (au_api_url a);
                   r \<leftarrow> do_json E a j accept c ''POST'' (otp_url a) (Some ''{}'')
                          [(''Otp'', code), (''X-Csrftoken'', token)] AuthStageOTPVerification (otp_step used_at);
                   ret (case r of Inl e \<Rightarrow> Some e | Inr _ \<Rightarrow> None) } }"

text \<open>A 401 that is not a rate limit: the code was spent, by a process that ran just before.\<close>

definition replayed :: "go_error \<Rightarrow> bool" where
  "replayed e = (\<not> is_rate_limited e \<and> (case as_api_error e of Some a \<Rightarrow> ae_status a = 401 | None \<Rightarrow> False))"

definition verify_twice :: "env \<Rightarrow> auth \<Rightarrow> nat \<Rightarrow> (int \<Rightarrow> hook) option \<Rightarrow> ctx \<Rightarrow> (world, go_error option) state" where
  "verify_twice E a j accept c =
     do { first \<leftarrow> verify_otp E a j accept c;
          case first of
            None \<Rightarrow> ret None
          | Some e \<Rightarrow>
              if replayed e
              then then_ok (wait_for_next_window E c) (verify_otp E a j accept c)
              else ret (Some e) }"

definition impersonate :: "env \<Rightarrow> auth \<Rightarrow> nat \<Rightarrow> ctx \<Rightarrow> (world, go_error option) state" where
  "impersonate E a j c =
     do { token \<leftarrow> csrf_op E j (au_api_url a);
          case new_request a c ''GET'' (impersonate_url a) None [(''X-Csrftoken'', token)] of
            Inl e \<Rightarrow> ret (Some e)
          | Inr (rq, u) \<Rightarrow>
              do { out \<leftarrow> client_do E j u rq;
                   case out of
                     HttpFail f _ _ \<Rightarrow> ret (Some (net_error f))
                   | HttpOk r _ \<Rightarrow>
                       (case read_capped (body_of r) login_response_bytes of
                          Inl e \<Rightarrow> ret (Some e)
                        | Inr payload \<Rightarrow>
                            if \<not> status_ok (rs_status r)
                            then do { now \<leftarrow> now_op E;
                                      ret (Some (auth_api_err E r payload ''GET'' (url_string u) now)) }
                            else ret None) } }"

text \<open>The three stages, each entered when the one before succeeded.\<close>

definition enter_target :: "env \<Rightarrow> auth \<Rightarrow> nat \<Rightarrow> ctx \<Rightarrow> (world, go_error option) state" where
  "enter_target E a j c =
     (if au_impersonate a = [] then finish_handshake a AuthStageOTPVerification None
      else do { r \<leftarrow> impersonate E a j c; finish_handshake a AuthStageImpersonation r })"

definition prove_identity :: "env \<Rightarrow> auth \<Rightarrow> nat \<Rightarrow> (int \<Rightarrow> hook) option \<Rightarrow> ctx \<Rightarrow> (world, go_error option) state" where
  "prove_identity E a j accept c =
     do { verified \<leftarrow> verify_twice E a j accept c;
          case verified of
            Some e \<Rightarrow> finish_handshake a AuthStageOTPVerification (Some e)
          | None \<Rightarrow> enter_target E a j c }"

definition log_in :: "env \<Rightarrow> auth \<Rightarrow> nat \<Rightarrow> (int \<Rightarrow> hook) option \<Rightarrow> ctx \<Rightarrow> (world, go_error option) state" where
  "log_in E a j accept c =
     do { entered \<leftarrow> do_json E a j accept c ''POST'' (login_url a) (Some (login_body a)) [] AuthStageLogin 0;
          case entered of
            Inl e \<Rightarrow> finish_handshake a AuthStageLogin (Some e)
          | Inr _ \<Rightarrow> prove_identity E a j accept c }"

definition handshake ::
  "env \<Rightarrow> auth \<Rightarrow> nat \<Rightarrow> (ctx \<Rightarrow> hook) option \<Rightarrow> (int \<Rightarrow> hook) option \<Rightarrow> ctx \<Rightarrow> (world, go_error option) state" where
  "handshake E a j before_handshake accept c =
     do { emit (au_on_event a) (new_event AuthEventHandshakeStart AuthStageLogin reason_initial outcome_started);
          early \<leftarrow> (case before_handshake of Some f \<Rightarrow> f c | None \<Rightarrow> ret None);
          case early of
            Some e \<Rightarrow> finish_handshake a AuthStageLogin (Some e)
          | None \<Rightarrow> log_in E a j accept c }"


section \<open>What a request changes\<close>

text \<open>Everything but one jar.\<close>

definition jar_frame :: "nat \<Rightarrow> world \<Rightarrow> world \<Rightarrow> bool" where
  "jar_frame j w w' =
     (w_accepted w' = w_accepted w \<and> w_ref w' = w_ref w \<and> w_files w' = w_files w
      \<and> length (w_jars w') = length (w_jars w) \<and> (\<forall>i. i \<noteq> j \<longrightarrow> w_jars w' ! i = w_jars w ! i))"

interpretation jar: world_preorder "jar_frame j" for j
  by unfold_locales (auto simp: jar_frame_def)

definition jar_quiet :: "nat \<Rightarrow> world \<Rightarrow> world \<Rightarrow> bool" where
  "jar_quiet j w w' = (jar_frame j w w' \<and> visible w' = visible w)"

interpretation jarq: quiet_preorder "jar_quiet j" for j
  by unfold_locales (auto simp: jar_quiet_def intro: jar.refl jar.trans jar.trace)

lemma set_cookies_calls_quiet: "state_io_rel (jar_quiet j) (set_cookies_calls E j calls)"
proof (induction calls rule: list.induct)
  case Nil
  then show ?case by (simp add: jarq.keep_ret)
next
  case (Cons call calls)
  have "jar_quiet j w (put_jar j x w)" for w x
    by (simp add: jar_quiet_def jar_frame_def put_jar_def visible_def)
  then show ?case
    using Cons by (cases call) (auto simp: set_cookies_op_def intro!: jarq.keep_rules jarq.keep_modify)
qed

lemma client_do_post:
  "wp (client_do E j u rq) (\<lambda>out w'. jar_frame j w w'
      \<and> (\<exists>cs. visible w' = visible w @ [EvHttp (rq\<lparr>rq_cookies := cs\<rparr>) out])) w"
  unfolding client_do_def Let_def
  by (auto simp: wp_simps intro!: wp_keeps_mono [OF set_cookies_calls_quiet])
     (auto simp: jar_quiet_def jar_frame_def)

section \<open>The protocol\<close>

type_synonym exchange = "http_request \<times> http_outcome"

fun sent_of :: "event list \<Rightarrow> exchange list" where
  "sent_of [] = []"
| "sent_of (EvHttp rq out # es) = (rq, out) # sent_of es"
| "sent_of (e # es) = sent_of es"

lemma sent_of_append [simp]: "sent_of (xs @ ys) = sent_of xs @ sent_of ys"
  by (induction xs rule: sent_of.induct) auto

definition sent :: "world \<Rightarrow> exchange list" where
  "sent w = sent_of (visible w)"

datatype phase = Fresh | LoggedIn | Replayed | Verified | Impersonated | Failed

text \<open>An answer counts when its status is 2xx and its body can be read within the limit.\<close>

definition answered :: "http_outcome \<Rightarrow> bool" where
  "answered out =
     (case out of HttpFail _ _ _ \<Rightarrow> False
      | HttpOk r _ \<Rightarrow> status_ok (rs_status r) \<and> is_ok (read_capped (body_of r) login_response_bytes))"

definition spent :: "http_outcome \<Rightarrow> bool" where
  "spent out =
     (case out of HttpFail _ _ _ \<Rightarrow> False
      | HttpOk r _ \<Rightarrow> rs_status r = 401 \<and> is_ok (read_capped (body_of r) login_response_bytes))"

fun protocol_step :: "auth \<Rightarrow> phase \<Rightarrow> exchange \<Rightarrow> phase option" where
  "protocol_step a Fresh (rq, out) =
     (if rq_method rq = ''POST'' \<and> rq_url rq = login_url a \<and> rq_body rq = Some (login_body a)
      then Some (if answered out then LoggedIn else Failed) else None)"
| "protocol_step a LoggedIn (rq, out) =
     (if rq_method rq = ''POST'' \<and> rq_url rq = otp_url a \<and> rq_body rq = Some ''{}''
      then Some (if answered out then Verified else if spent out then Replayed else Failed) else None)"
| "protocol_step a Replayed (rq, out) =
     (if rq_method rq = ''POST'' \<and> rq_url rq = otp_url a \<and> rq_body rq = Some ''{}''
      then Some (if answered out then Verified else Failed) else None)"
| "protocol_step a Verified (rq, out) =
     (if au_impersonate a \<noteq> [] \<and> rq_method rq = ''GET'' \<and> rq_url rq = impersonate_url a
      then Some (if answered out then Impersonated else Failed) else None)"
| "protocol_step a _ _ = None"

fun protocol :: "auth \<Rightarrow> phase \<Rightarrow> exchange list \<Rightarrow> phase option" where
  "protocol a p [] = Some p"
| "protocol a p (x # xs) = (case protocol_step a p x of None \<Rightarrow> None | Some q \<Rightarrow> protocol a q xs)"

lemma protocol_append:
  "protocol a p (xs @ ys) = (case protocol a p xs of None \<Rightarrow> None | Some q \<Rightarrow> protocol a q ys)"
  by (induction xs arbitrary: p) (auto split: option.splits)

definition final_phase :: "auth \<Rightarrow> phase" where
  "final_phase a = (if au_impersonate a = [] then Verified else Impersonated)"

text \<open>A hook that sends nothing: the callbacks of a login, which read and write the store.\<close>

definition silent :: "(world, 'a) state \<Rightarrow> bool" where
  "silent m = state_io_rel (\<lambda>w w'. sent w' = sent w) m"

interpretation sil: quiet_preorder "\<lambda>w w'. sent w' = sent w"
  by unfold_locales (simp_all add: sent_def)

lemma sent_emit [simp]: "sent (push (EvEmit e) w) = sent w"
  by (simp add: sent_def)

lemma silent_emit: "state_io_rel (\<lambda>w w'. sent w' = sent w) (emit b e)"
  by (auto simp: emit_def state_io_rel_def record_ev_def)

lemma calm_silent: "state_io_rel calm m \<Longrightarrow> silent m"
  by (auto simp: silent_def state_io_rel_def calm_def sent_def)

text \<open>A stretch of the run moves the protocol from phase \<open>p\<close> to a phase that \<open>Q\<close> accepts.\<close>

definition moves :: "auth \<Rightarrow> phase \<Rightarrow> world \<Rightarrow> phase \<Rightarrow> world \<Rightarrow> bool" where
  "moves a p w q w' = (\<exists>xs. sent w' = sent w @ xs \<and> protocol a p xs = Some q)"

lemma moves_refl: "sent w' = sent w \<Longrightarrow> moves a p w p w'"
  by (simp add: moves_def)

lemma moves_trans: "moves a p w q v \<Longrightarrow> moves a q v r u \<Longrightarrow> moves a p w r u"
  by (auto simp: moves_def protocol_append)

lemma moves_sent: "moves a p w q v \<Longrightarrow> sent u = sent v \<Longrightarrow> moves a p w q u"
  by (simp add: moves_def)

lemma new_request_fields:
  "new_request a c m url body hs = Inr (rq, u) \<Longrightarrow> rq_method rq = m \<and> rq_url rq = url \<and> rq_body rq = body"
  by (auto simp: new_request_def Let_def split: if_splits option.splits)

text \<open>What a callback must promise: it sends nothing, and its errors are not answers of the server.\<close>

definition tame :: "hook \<Rightarrow> bool" where
  "tame m = (\<forall>w. wp m (\<lambda>r w'. sent w' = sent w \<and> (\<forall>e. r = Some e \<longrightarrow> as_api_error e = None)) w)"

lemma tame_wp: "tame m \<Longrightarrow> wp m (\<lambda>r w'. sent w' = sent w \<and> (\<forall>e. r = Some e \<longrightarrow> as_api_error e = None)) w"
  by (simp add: tame_def)

lemma wp_emit: "wp (emit b e) Q w = Q () (if b then push (EvEmit e) w else w)"
  by (simp add: emit_def wp_ret wp_record_ev)

lemma not_replayed: "as_api_error e = None \<Longrightarrow> \<not> replayed e"
  by (simp add: replayed_def)

lemma read_capped_no_api: "read_capped b n = Inl e \<Longrightarrow> as_api_error e = None"
  by (auto simp: read_capped_def read_all_limited_def err_simps split: option.splits if_splits)

lemma replayed_auth_api: "replayed (auth_api_err E r p m u t) \<Longrightarrow> rs_status r = 401"
  by (auto simp: replayed_def auth_api_err_def err_simps)

definition json_post :: "auth \<Rightarrow> phase \<Rightarrow> phase \<Rightarrow> phase \<Rightarrow> world \<Rightarrow> go_error + string \<Rightarrow> world \<Rightarrow> bool" where
  "json_post a p good again w r w' =
     (\<exists>q. moves a p w q w' \<and>
        (case r of Inr _ \<Rightarrow> q = good | Inl e \<Rightarrow> replayed e \<longrightarrow> q = again))"

lemma do_json_moves:
  assumes hook: "\<And>f. accept = Some f \<Longrightarrow> tame (f step)"
    and phases: "\<And>rq out. rq_method rq = meth \<Longrightarrow> rq_url rq = url \<Longrightarrow> rq_body rq = body \<Longrightarrow>
           \<exists>q. protocol_step a p (rq, out) = Some q \<and> (answered out \<longrightarrow> q = good)
             \<and> (\<not> answered out \<and> spent out \<longrightarrow> q = again)"
  shows "wp (do_json E a j accept c meth url body headers stage step) (json_post a p good again w) w"
proof (cases "new_request a c meth url body headers")
  case (Inl e)
  then have "as_api_error e = None"
    by (auto simp: new_request_def err_simps split: if_splits option.splits)
  then show ?thesis using Inl
    by (auto simp: do_json_def wp_simps json_post_def not_replayed intro: moves_refl)
next
  case (Inr x)
  obtain rq u where x: "x = (rq, u)" by (cases x)
  note f = new_request_fields [OF Inr [unfolded x]]
  have sent: "\<exists>q. protocol_step a p (rq\<lparr>rq_cookies := cs\<rparr>, out) = Some q \<and> (answered out \<longrightarrow> q = good)
             \<and> (\<not> answered out \<and> spent out \<longrightarrow> q = again)" for cs out
    using f by (intro phases) simp_all
  show ?thesis
    unfolding do_json_def Inr x sum.case prod.case wp_bind
  proof (rule wp_mono [OF client_do_post], clarify)
    fix out w' cs assume vis: "visible w' = visible w @ [EvHttp (rq\<lparr>rq_cookies := cs\<rparr>) out]"
    obtain q where q: "protocol_step a p (rq\<lparr>rq_cookies := cs\<rparr>, out) = Some q"
      "answered out \<longrightarrow> q = good" "\<not> answered out \<and> spent out \<longrightarrow> q = again"
      using sent by blast
    have moved: "moves a p w q v" if "sent v = sent w'" for v
      using vis q(1) that by (auto simp: moves_def sent_def)
    show "wp (case out of
         HttpFail f status calls \<Rightarrow>
           do { emit (au_on_event a) (attempt_event stage (case status of Some s \<Rightarrow> s | None \<Rightarrow> 0) (Some (net_error f)));
                ret (Inl (net_error f)) }
       | HttpOk r calls \<Rightarrow>
           (case read_capped (body_of r) login_response_bytes of
              Inl e \<Rightarrow> do { emit (au_on_event a) (attempt_event stage (rs_status r) (Some e)); ret (Inl e) }
            | Inr payload \<Rightarrow>
                if \<not> status_ok (rs_status r)
                then do { now \<leftarrow> now_op E;
                          let err = auth_api_err E r payload meth url now;
                          emit (au_on_event a) (attempt_event stage (rs_status r) (Some err));
                          ret (Inl err) }
                else do { refused \<leftarrow> (case accept of
                             Some f \<Rightarrow> if stage = AuthStageOTPVerification then f step else ret None
                           | None \<Rightarrow> ret None);
                          emit (au_on_event a) (attempt_event stage (rs_status r) None);
                          ret (case refused of Some e \<Rightarrow> Inl e | None \<Rightarrow> Inr payload) }))
       (json_post a p good again w) w'"
    proof (cases out)
      case (HttpFail f status calls)
      then show ?thesis
        by (auto simp: wp_simps wp_emit json_post_def not_replayed err_simps intro!: exI [of _ q] moved)
    next
      case (HttpOk r calls)
      show ?thesis
      proof (cases "read_capped (body_of r) login_response_bytes")
        case (Inl e)
        then show ?thesis using HttpOk read_capped_no_api [OF Inl]
          by (auto simp: wp_simps wp_emit json_post_def not_replayed intro!: exI [of _ q] moved)
      next
        case (Inr payload)
        show ?thesis
        proof (cases "status_ok (rs_status r)")
          case True
          then have "q = good" using q(2) HttpOk Inr by (simp add: answered_def)
          then have fin: "json_post a p good again w (case res of Some e \<Rightarrow> Inl e | None \<Rightarrow> Inr payload) v"
            if "sent v = sent w'" "\<And>e. res = Some e \<Longrightarrow> as_api_error e = None" for res v
            using moved [OF that(1)] that(2) not_replayed
            by (cases res) (auto simp: json_post_def)
          have "wp (case accept of Some f \<Rightarrow> if stage = AuthStageOTPVerification then f step else ret None
                           | None \<Rightarrow> ret None)
              (\<lambda>r w''. sent w'' = sent w' \<and> (\<forall>e. r = Some e \<longrightarrow> as_api_error e = None)) w'"
            using hook by (auto simp: wp_ret split: option.split intro: tame_wp)
          then have "wp (do { refused \<leftarrow> (case accept of
                             Some f \<Rightarrow> if stage = AuthStageOTPVerification then f step else ret None
                           | None \<Rightarrow> ret None);
                          emit (au_on_event a) (attempt_event stage (rs_status r) None);
                          ret (case refused of Some e \<Rightarrow> Inl e | None \<Rightarrow> Inr payload) })
              (json_post a p good again w) w'"
            unfolding wp_bind by (rule wp_mono) (auto simp: wp_emit wp_ret intro!: fin)
          then show ?thesis using HttpOk Inr True by simp
        next
          case False
          then have "rs_status r = 401 \<Longrightarrow> q = again"
            using q(3) HttpOk Inr by (simp add: answered_def spent_def)
          then show ?thesis using HttpOk Inr False
            by (auto simp: wp_simps wp_emit json_post_def Let_def sent_def dest!: replayed_auth_api
                intro!: exI [of _ q] moved)
        qed
      qed
    qed
  qed
qed

definition opt_post :: "auth \<Rightarrow> phase \<Rightarrow> phase \<Rightarrow> phase \<Rightarrow> world \<Rightarrow> go_error option \<Rightarrow> world \<Rightarrow> bool" where
  "opt_post a p good again w r w' =
     (\<exists>q. moves a p w q w' \<and>
        (case r of None \<Rightarrow> q = good | Some e \<Rightarrow> replayed e \<longrightarrow> q = again \<or> q = p))"

lemma totp_error_no_api: "totp s t = Inl e \<Longrightarrow> as_api_error e = None"
  by (auto simp: totp_def Let_def err_simps split: sum.splits option.splits)

lemma verify_otp_moves:
  assumes "\<And>f step. accept = Some f \<Longrightarrow> tame (f step)"
    and "p = LoggedIn \<and> again = Replayed \<or> p = Replayed \<and> again = Failed"
  shows "wp (verify_otp E a j accept c)
    (\<lambda>r w'. \<exists>q. moves a p w q w' \<and> (case r of None \<Rightarrow> q = Verified | Some e \<Rightarrow> replayed e \<longrightarrow> q = again)) w"
proof -
  have json: "wp (do_json E a j accept c ''POST'' (otp_url a) (Some ''{}'') hs AuthStageOTPVerification st)
      (\<lambda>r w'. json_post a p Verified again w r w') v" if "sent v = sent w" for hs st v
    using that assms
    by (intro wp_mono [OF do_json_moves [where p = p and good = Verified and again = again]])
       (auto simp: json_post_def moves_def)
  have stay: "moves a p w p (push (EvNow t) w)" for t
    by (rule moves_refl) (simp add: sent_def)
  have early: "\<not> replayed e" if "totp s t = Inl e" for s t e
    using totp_error_no_api [OF that] by (rule not_replayed)
  show ?thesis
    unfolding verify_otp_def csrf_op_def
  proof (simp add: wp_simps, cases "totp (au_otp a) (e_now E (w_trace w))", goal_cases)
    case (1 e)
    then show ?case using stay early by (auto simp: wp_simps)
  next
    case (2 code)
    then show ?case
      using stay by (cases code) (auto simp: wp_simps sent_def json_post_def not_replayed err_simps
          intro!: wp_mono [OF json] split: sum.splits, blast+)
  qed
qed

lemma next_window_silent: "state_io_rel (\<lambda>w w'. sent w' = sent w) (wait_for_next_window E c)"
  unfolding wait_for_next_window_def Let_def by (intro sil.keep_rules)

lemma next_window_no_api: "wp (wait_for_next_window E c) (\<lambda>r w'. \<forall>e. r = Some e \<longrightarrow> as_api_error e = None) w"
  by (auto simp: wait_for_next_window_def real_sleep_def wp_simps Let_def err_simps
      dest!: ctx_error_Some split: ctx.splits)

lemma verify_twice_moves:
  assumes "\<And>f step. accept = Some f \<Longrightarrow> tame (f step)"
  shows "wp (verify_twice E a j accept c) (\<lambda>r w'. \<exists>q. moves a LoggedIn w q w' \<and> (r = None \<longrightarrow> q = Verified)) w"
proof -
  have second: "wp (verify_otp E a j accept c) (\<lambda>r w'. \<exists>q. moves a LoggedIn w q w' \<and> (r = None \<longrightarrow> q = Verified)) v"
    if "moves a LoggedIn w Replayed v" for v
    by (rule wp_mono [OF verify_otp_moves [where p = Replayed and again = Failed]])
       (use assms that in \<open>auto intro: moves_trans\<close>)
  have wait: "wp (then_ok (wait_for_next_window E c) (verify_otp E a j accept c))
      (\<lambda>r w'. \<exists>q. moves a LoggedIn w q w' \<and> (r = None \<longrightarrow> q = Verified)) v"
    if "moves a LoggedIn w Replayed v" for v
    unfolding wp_then_ok
    by (rule wp_keeps_mono [OF next_window_silent])
       (use that in \<open>auto intro!: second intro: moves_sent split: option.split\<close>)
  show ?thesis
    unfolding verify_twice_def wp_bind
    by (rule wp_mono [OF verify_otp_moves [where p = LoggedIn and again = Replayed]])
       (use assms in \<open>auto simp: wp_ret intro!: wait split: option.splits\<close>)
qed

lemma impersonate_moves:
  assumes "au_impersonate a \<noteq> []"
  shows "wp (impersonate E a j c) (\<lambda>r w'. \<exists>q. moves a Verified w q w' \<and> (r = None \<longrightarrow> q = Impersonated)) w"
proof -
  have stay: "moves a Verified w Verified (push (EvNow t) w)" for t
    by (rule moves_refl) (simp add: sent_def)
  have go: "wp (client_do E j u rq) (\<lambda>out w'. \<exists>q. moves a Verified w q w' \<and> (answered out \<longrightarrow> q = Impersonated)) (push (EvNow t) w)"
    if "new_request a c ''GET'' (impersonate_url a) None hs = Inr (rq, u)" for rq u hs t
    by (rule wp_mono [OF client_do_post])
       (use new_request_fields [OF that] assms in \<open>auto simp: moves_def sent_def\<close>)
  have later: "moves a Verified w q (push (EvNow t) v)" if "moves a Verified w q v" for q t v
    using that by (simp add: moves_def sent_def)
  show ?thesis
    unfolding impersonate_def csrf_op_def
    by (auto simp: wp_simps answered_def Let_def intro: stay later intro!: wp_mono [OF go] split: sum.splits http_outcome.splits, (blast intro: stay later)+)
qed

definition handshake_post :: "auth \<Rightarrow> world \<Rightarrow> go_error option \<Rightarrow> world \<Rightarrow> bool" where
  "handshake_post a w r w' =
     ((\<exists>q. moves a Fresh w q w' \<and> (r = None \<longrightarrow> q = final_phase a))
      \<and> (\<forall>e. r = Some e \<longrightarrow> (\<exists>st k c d. e = AuthErr st k c d)))"

lemma finish_moves: "moves a p w q v \<Longrightarrow>
  wp (finish_handshake b st r) (\<lambda>r' w'. moves a p w q w' \<and> (r' = None \<longleftrightarrow> r = None)
     \<and> (\<forall>e. r' = Some e \<longrightarrow> (\<exists>st k c d. e = AuthErr st k c d))) v"
  using classify_is_auth_error
  by (auto simp: finish_handshake_def Let_def wp_simps wp_emit moves_def split: option.split)

lemma finish_post:
  assumes "moves a Fresh w q v" "r = None \<longrightarrow> q = final_phase a"
  shows "wp (finish_handshake a st r) (handshake_post a w) v"
  by (rule wp_mono [OF finish_moves [OF assms(1)]]) (use assms(2) in \<open>auto simp: handshake_post_def\<close>)

lemma enter_target_post:
  assumes "moves a Fresh w Verified v"
  shows "wp (enter_target E a j c) (handshake_post a w) v"
proof (cases "au_impersonate a = []")
  case True
  then show ?thesis
    using finish_post [OF assms] by (simp add: enter_target_def final_phase_def)
next
  case False
  have "wp (finish_handshake a AuthStageImpersonation r) (handshake_post a w) v'"
    if "moves a Verified v q v'" "r = None \<longrightarrow> q = Impersonated" for r q v'
    using moves_trans [OF assms that(1)] that(2) False
    by (intro finish_post) (simp_all add: final_phase_def)
  then show ?thesis
    using False unfolding enter_target_def
    by (auto simp: wp_bind intro!: wp_mono [OF impersonate_moves [OF False]])
qed

lemma prove_identity_post:
  assumes "\<And>f step. accept = Some f \<Longrightarrow> tame (f step)" and "moves a Fresh w LoggedIn v"
  shows "wp (prove_identity E a j accept c) (handshake_post a w) v"
  unfolding prove_identity_def wp_bind
  by (rule wp_mono [OF verify_twice_moves])
     (use assms in \<open>auto intro!: finish_post enter_target_post intro: moves_trans split: option.split\<close>)

lemma log_in_post:
  assumes "\<And>f step. accept = Some f \<Longrightarrow> tame (f step)" and "sent v = sent w"
  shows "wp (log_in E a j accept c) (handshake_post a w) v"
proof -
  have json: "wp (do_json E a j accept c ''POST'' (login_url a) (Some (login_body a)) [] AuthStageLogin 0)
      (json_post a Fresh LoggedIn Failed v) v"
    by (rule do_json_moves) (use assms(1) in auto)
  show ?thesis
    unfolding log_in_def wp_bind
  proof (rule wp_mono [OF json])
    fix r w' assume "json_post a Fresh LoggedIn Failed v r w'"
    then obtain q where "moves a Fresh w q w'" and "\<forall>x. r = Inr x \<longrightarrow> q = LoggedIn"
      using assms(2) by (cases r) (auto simp: json_post_def moves_def)
    then show "wp (case r of Inl e \<Rightarrow> finish_handshake a AuthStageLogin (Some e)
          | Inr _ \<Rightarrow> prove_identity E a j accept c) (handshake_post a w) w'"
      using assms(1) by (cases r) (auto intro: finish_post prove_identity_post)
  qed
qed

lemma handshake_run:
  assumes "\<And>f. before_handshake = Some f \<Longrightarrow> tame (f c)" and "\<And>f step. accept = Some f \<Longrightarrow> tame (f step)"
  shows "wp (handshake E a j before_handshake accept c) (handshake_post a w) w"
proof -
  have before: "wp (case before_handshake of Some f \<Rightarrow> f c | None \<Rightarrow> ret None)
      (\<lambda>r w'. sent w' = sent w) v" if "sent v = sent w" for v
    using assms(1) that by (auto simp: wp_ret split: option.split intro!: wp_mono [OF tame_wp])
  show ?thesis
    unfolding handshake_def wp_bind wp_emit
    by (rule wp_mono [OF before])
       (use assms(2) in \<open>auto intro!: log_in_post intro: finish_post moves_refl split: option.split\<close>)
qed

text \<open>What the protocol allows in all.\<close>

definition is_otp_request :: "auth \<Rightarrow> exchange \<Rightarrow> bool" where
  "is_otp_request a x = (rq_url (fst x) = otp_url a)"

lemma otp_not_login: "otp_url a \<noteq> login_url a"
  by (simp add: otp_url_def login_url_def)

lemma otp_not_impersonate: "impersonate_url a \<noteq> otp_url a"
  by (simp add: otp_url_def impersonate_url_def)

definition budget :: "phase \<Rightarrow> nat" where
  "budget p = (case p of Fresh \<Rightarrow> 4 | LoggedIn \<Rightarrow> 3 | Replayed \<Rightarrow> 2 | Verified \<Rightarrow> 1 | _ \<Rightarrow> 0)"

definition otp_budget :: "phase \<Rightarrow> nat" where
  "otp_budget p = (case p of Fresh \<Rightarrow> 2 | LoggedIn \<Rightarrow> 2 | Replayed \<Rightarrow> 1 | _ \<Rightarrow> 0)"

lemma protocol_step_budget:
  "protocol_step a p x = Some q \<Longrightarrow> budget q < budget p
     \<and> otp_budget q + (if is_otp_request a x then 1 else 0) \<le> otp_budget p"
  using otp_not_login [of a] otp_not_impersonate [of a]
  by (cases "(a, p, x)" rule: protocol_step.cases)
     (auto simp: budget_def otp_budget_def is_otp_request_def split: if_splits)

lemma protocol_budget:
  "protocol a p xs = Some q \<Longrightarrow> length xs + budget q \<le> budget p
     \<and> length (filter (is_otp_request a) xs) + otp_budget q \<le> otp_budget p"
proof (induction xs arbitrary: p)
  case (Cons x xs)
  then obtain r where r: "protocol_step a p x = Some r" "protocol a r xs = Some q"
    by (auto split: option.splits)
  from Cons.IH [OF r(2)] protocol_step_budget [OF r(1)] show ?case by (auto split: if_splits)
qed simp

section \<open>Frames\<close>

text \<open>A preorder that also allows one jar to change.\<close>

locale jar_preorder = open_preorder +
  fixes j :: nat
  assumes jar: "R w (put_jar j x w)"
begin

lemma keep_set_cookies: "state_io_rel R (set_cookies_calls E j calls)"
proof (induction calls)
  case Nil
  then show ?case by (simp add: keep_ret)
next
  case (Cons call calls)
  then show ?case
    by (cases call) (auto simp: set_cookies_op_def jar intro!: keep_flow keep_modify)
qed

lemma keep_client_do: "state_io_rel R (client_do E j u rq)"
  unfolding client_do_def Let_def by (intro keep_open keep_set_cookies) simp_all

lemma keep_finish: "state_io_rel R (finish_handshake a st r)"
proof (cases r)
  case None
  show ?thesis unfolding finish_handshake_def None option.case by (intro keep_open) simp_all
next
  case (Some e)
  obtain st' k c d where failure: "classify_auth_error st e = AuthErr st' k c d"
    using classify_is_auth_error by blast
  show ?thesis
    unfolding finish_handshake_def Some option.case Let_def failure go_error.case
    by (intro keep_open) simp_all
qed

lemma keep_http_case:
  "(\<And>f s cs. state_io_rel R (k f s cs)) \<Longrightarrow> (\<And>r cs. state_io_rel R (k' r cs)) \<Longrightarrow>
     state_io_rel R (case out of HttpFail f s cs \<Rightarrow> k f s cs | HttpOk r cs \<Rightarrow> k' r cs)"
  by (cases out) auto

lemma keep_do_json:
  assumes "\<And>f s. accept = Some f \<Longrightarrow> state_io_rel R (f s)"
  shows "state_io_rel R (do_json E a j accept c m url body hs st step)"
  unfolding do_json_def Let_def
  by (intro keep_open keep_client_do keep_http_case) (use assms in auto)

lemma keep_handshake:
  assumes "\<And>f. before_handshake = Some f \<Longrightarrow> state_io_rel R (f c)"
    and "\<And>f s. accept = Some f \<Longrightarrow> state_io_rel R (f s)"
  shows "state_io_rel R (handshake E a j before_handshake accept c)"
proof -
  have before: "state_io_rel R (case before_handshake of Some f \<Rightarrow> f c | None \<Rightarrow> ret None)"
    using assms(1) by (auto split: option.split intro!: keep_ret)
  have json: "state_io_rel R (do_json E a j accept c m url body hs st step)" for m url body hs st step
    using assms(2) by (rule keep_do_json)
  show ?thesis
    unfolding handshake_def log_in_def prove_identity_def enter_target_def verify_twice_def verify_otp_def
      impersonate_def csrf_op_def wait_for_next_window_def Let_def
    by (intro keep_open keep_client_do keep_finish before json keep_http_case) simp_all
qed

end

text \<open>The session in use: the refresher's fields and every jar but the candidate's.\<close>

definition session_frame :: "nat \<Rightarrow> world \<Rightarrow> world \<Rightarrow> bool" where
  "session_frame j w w' =
     (w_ref w' = w_ref w \<and> length (w_jars w') = length (w_jars w)
      \<and> (\<forall>i. i \<noteq> j \<longrightarrow> w_jars w' ! i = w_jars w ! i))"

interpretation frame: jar_preorder "session_frame j" j for j
  by unfold_locales (auto simp: session_frame_def put_jar_def)

interpretation growj: jar_preorder steps_grow j for j
  by unfold_locales (simp add: steps_grow_def put_jar_def)

section \<open>Properties\<close>

text \<open>C22: A handshake sends only what its protocol allows: the login, after a 2xx answer the one-time
  code, a second code only after the first was answered 401, and the impersonation last; each step
  after the first only when the one before was answered well. It succeeds only when the protocol is
  complete, and fails otherwise with a classified error.\<close>

theorem handshake_follows_protocol:
  assumes "\<And>f. before_handshake = Some f \<Longrightarrow> tame (f c)" and "\<And>f step. accept = Some f \<Longrightarrow> tame (f step)"
  shows "wp (handshake E a j before_handshake accept c) (\<lambda>r w'.
     \<exists>xs q. sent w' = sent w @ xs \<and> protocol a Fresh xs = Some q
       \<and> (case r of None \<Rightarrow> q = final_phase a | Some e \<Rightarrow> \<exists>st k c d. e = AuthErr st k c d)) w"
proof (rule wp_mono)
  show "wp (handshake E a j before_handshake accept c) (handshake_post a w) w"
    by (rule handshake_run) (fact assms)+
qed (auto simp: handshake_post_def moves_def split: option.splits)

definition sample_auth :: auth where
  "sample_auth = \<lparr>au_root = ''https://api.example/'', au_origin = ''https://api.example'', au_api_url = sample_url,
     au_timeout = default_timeout, au_username = ''alice'', au_password = ''secret'', au_otp = ''JBSWY3DP'',
     au_impersonate = [], au_user_agent = ''ua'', au_on_event = False\<rparr>"

lemma handshake_follows_protocol_witness:
  "wp (handshake sample_env sample_auth 0 (Some (\<lambda>_. ret None)) (Some (\<lambda>_. ret None)) (Ctx 0)) (\<lambda>r w'.
     \<exists>xs q. sent w' = xs \<and> protocol sample_auth Fresh xs = Some q
       \<and> (case r of None \<Rightarrow> q = final_phase sample_auth | Some e \<Rightarrow> \<exists>st k c d. e = AuthErr st k c d)) sample_world"
proof -
  have "tame (ret None)" by (simp add: tame_def wp_ret)
  then have "wp (handshake sample_env sample_auth 0 (Some (\<lambda>_. ret None)) (Some (\<lambda>_. ret None)) (Ctx 0)) (\<lambda>r w'.
     \<exists>xs q. sent w' = sent sample_world @ xs \<and> protocol sample_auth Fresh xs = Some q
       \<and> (case r of None \<Rightarrow> q = final_phase sample_auth | Some e \<Rightarrow> \<exists>st k c d. e = AuthErr st k c d)) sample_world"
    by (intro handshake_follows_protocol) auto
  moreover have "sent sample_world = []" by (simp add: sent_def visible_def)
  ultimately show ?thesis by simp
qed

text \<open>One handshake spends at most four requests and presents at most two one-time codes, whatever
  the server answers.\<close>

theorem handshake_budget:
  assumes "protocol a Fresh xs = Some q"
  shows "length xs \<le> 4 \<and> length (filter (is_otp_request a) xs) \<le> 2"
  using protocol_budget [OF assms] by (simp add: budget_def otp_budget_def)

lemma handshake_budget_witness:
  "length [(plain_request\<lparr>rq_method := ''POST'', rq_url := login_url sample_auth, rq_body := Some (login_body sample_auth)\<rparr>,
      HttpOk (plain_response 400) [])] \<le> 4"
proof -
  have "protocol sample_auth Fresh
      [(plain_request\<lparr>rq_method := ''POST'', rq_url := login_url sample_auth, rq_body := Some (login_body sample_auth)\<rparr>,
        HttpOk (plain_response 400) [])] = Some Failed"
    by (simp add: answered_def status_ok_def plain_response_def)
  from handshake_budget [OF this] show ?thesis by blast
qed

end
