(* ===== verification/Login_Cycle.thy ===== *)
theory Login_Cycle
  imports Handshake
begin

text \<open>
  session.go: the refresher's configuration and one login cycle. A cycle takes the account's
  semaphore, then tries handshakes with fresh candidate jars; only a rate limit is retried,
  after the delay the server asked for or an exponential backoff, at most
  \<open>r_max_attempts\<close> times in all.
\<close>

section \<open>The refresher\<close>

record refresher =
  r_auth :: auth
  r_max_attempts :: nat
  r_base_delay :: duration
  r_max_delay :: duration
  r_cooldown :: duration
  r_store :: "string option"
  r_key :: session_key

definition new_refresher :: "auth \<Rightarrow> refresher" where
  "new_refresher a =
     \<lparr>r_auth = a, r_max_attempts = 4, r_base_delay = second, r_max_delay = 10 * second,
      r_cooldown = 30 * second, r_store = None,
      r_key = \<lparr>sk_endpoint = [], sk_username = [], sk_impersonate = [], sk_fingerprint = []\<rparr>\<rparr>"

definition configure_store :: "env \<Rightarrow> refresher \<Rightarrow> string \<Rightarrow> (world, go_error + refresher) state" where
  "configure_store E r dir =
     (if dir = [] then ret (Inr r)
      else let_ok (new_file_session_store E dir)
        (\<lambda>store. let a = r_auth r
         in ret (Inr (r\<lparr>r_store := Some store,
              r_key := \<lparr>sk_endpoint = au_root a, sk_username = au_username a,
                        sk_impersonate = au_impersonate a,
                        sk_fingerprint = credential_fingerprint (au_root a) (au_username a)
                                           (au_password a) (au_otp a)\<rparr>\<rparr>))))"

definition update_ref :: "(refresher_state \<Rightarrow> refresher_state) \<Rightarrow> (world, unit) state" where
  "update_ref f = modify (\<lambda>w. w\<lparr>w_ref := f (w_ref w)\<rparr>)"

definition set_not_before :: "gtime \<Rightarrow> (world, unit) state" where
  "set_not_before t = update_ref (\<lambda>s. s\<lparr>rf_not_before := t\<rparr>)"

section \<open>Backoff\<close>

text \<open>\<^verbatim>\<open>baseDelay << attempt\<close> on \<^verbatim>\<open>int64\<close>, capped; then up to a quarter is taken off at random.\<close>

definition backoff_delay :: "refresher \<Rightarrow> nat \<Rightarrow> duration" where
  "backoff_delay r attempt =
     (let delay = wrap64 (r_base_delay r * 2 ^ attempt)
      in if delay \<le> 0 \<or> r_max_delay r < delay then r_max_delay r else delay)"

definition jitter :: "int \<Rightarrow> duration \<Rightarrow> duration" where
  "jitter n d = d - n mod (go_div d 4 + 1)"

definition backoff :: "env \<Rightarrow> refresher \<Rightarrow> nat \<Rightarrow> (world, duration) state" where
  "backoff E r attempt =
     do { n \<leftarrow> observe (e_rand E) EvRand; ret (jitter n (backoff_delay r attempt)) }"

definition retry_delay :: "env \<Rightarrow> refresher \<Rightarrow> nat \<Rightarrow> go_error \<Rightarrow> (world, duration) state" where
  "retry_delay E r attempt err =
     (if auth_retry_after err \<le> 0 then backoff E r attempt else ret (auth_retry_after err))"

section \<open>The callbacks of a login\<close>

definition otp_identity :: "refresher \<Rightarrow> string" where
  "otp_identity r =
     otp_state_identity (au_root (r_auth r)) (au_username (r_auth r)) (otp_secret_binding (au_otp (r_auth r)))"

definition storage_failure :: "go_error \<Rightarrow> go_error" where
  "storage_failure e =
     (if is_context_error e then e else Wrapped ''OTP state storage'' [Sentinel ErrOTPStateStorage, e])"

text \<open>The latest accepted step this process or the store knows of.\<close>

definition known_step :: "env \<Rightarrow> refresher \<Rightarrow> ctx \<Rightarrow> (world, go_error + int option) state" where
  "known_step E r c =
     do { accepted \<leftarrow> accepted_otp_step (otp_identity r);
          case r_store r of
            None \<Rightarrow> ret (Inr accepted)
          | Some dir \<Rightarrow>
              do { stored \<leftarrow> load_accepted_step E dir c (r_key r) (otp_secret_binding (au_otp (r_auth r)));
                   case stored of
                     Inl e \<Rightarrow> ret (Inl (storage_failure e))
                   | Inr None \<Rightarrow> ret (Inr accepted)
                   | Inr (Some s) \<Rightarrow>
                       if (case accepted of None \<Rightarrow> True | Some a \<Rightarrow> a < s)
                       then do { remember_accepted (otp_identity r) s; ret (Inr (Some s)) }
                       else ret (Inr accepted) } }"

definition before_hook :: "env \<Rightarrow> refresher \<Rightarrow> ctx \<Rightarrow> hook" where
  "before_hook E r c =
     then_ok (context_err E c)
       (let_err (known_step E r c)
         (\<lambda>known. case known of
            None \<Rightarrow> context_err E c
          | Some accepted \<Rightarrow>
              do { t \<leftarrow> now_op E;
                   if otp_step t \<le> accepted then wait_for_accepted E c accepted else context_err E c }))"

definition accept_hook :: "env \<Rightarrow> refresher \<Rightarrow> ctx \<Rightarrow> int \<Rightarrow> hook" where
  "accept_hook E r c step =
     do { remember_accepted (otp_identity r) step;
          case r_store r of
            None \<Rightarrow> ret None
          | Some dir \<Rightarrow>
              do { saved \<leftarrow> save_accepted_step E dir c (r_key r) (otp_secret_binding (au_otp (r_auth r))) step;
                   ret (map_option storage_failure saved) } }"

section \<open>The cycle\<close>

definition limited_err :: "go_error \<Rightarrow> go_error \<Rightarrow> duration \<Rightarrow> go_error" where
  "limited_err err cause d =
     AuthErr (auth_error_stage err AuthStageLogin) AuthKindRateLimited (Some cause) d"

text \<open>Wait out a rate limit; \<open>None\<close> when its deadline has been reached.\<close>

definition sit_out :: "env \<Rightarrow> refresher \<Rightarrow> ctx \<Rightarrow> nat \<Rightarrow> go_error \<Rightarrow> (world, go_error option) state" where
  "sit_out E r c attempt err =
     do { emit (au_on_event (r_auth r))
            ((new_event AuthEventRateLimited (auth_error_stage err AuthStageSessionRecovery)
                reason_rate_limit outcome_retrying)\<lparr>ev_retry_after := auth_retry_after err\<rparr>);
          delay \<leftarrow> retry_delay E r attempt err;
          t \<leftarrow> now_op E;
          let not_before = t + delay;
          set_not_before not_before;
          slept \<leftarrow> real_sleep E c delay;
          case slept of
            Some e \<Rightarrow> ret (Some (limited_err err (Wrapped ''joined'' [err, e]) delay))
          | None \<Rightarrow>
              do { t' \<leftarrow> now_op E;
                   let remaining = time_sub not_before t';
                   ret (if 0 < remaining then Some (limited_err err err remaining) else None) } }"

text \<open>\<open>attempts E r c k n\<close>: attempts number \<open>k\<close> to \<open>k + n - 1\<close>. \<open>Inr None\<close> is a nil jar.\<close>

fun attempts :: "env \<Rightarrow> refresher \<Rightarrow> ctx \<Rightarrow> nat \<Rightarrow> nat \<Rightarrow> (world, go_error + nat option) state" where
  "attempts E r c k 0 = ret (Inr None)"
| "attempts E r c k (Suc n) =
     do { j \<leftarrow> new_jar;
          result \<leftarrow> handshake E (r_auth r) j (Some (before_hook E r)) (Some (accept_hook E r c)) c;
          case result of
            None \<Rightarrow> do { set_not_before zero_time; ret (Inr (Some j)) }
          | Some err \<Rightarrow>
              if \<not> is_rate_limited err then ret (Inl err)
              else if n = 0
              then do { delay \<leftarrow> retry_delay E r k err;
                        t \<leftarrow> now_op E;
                        set_not_before (t + delay);
                        ret (Inl err) }
              else do { stopped \<leftarrow> sit_out E r c k err;
                        case stopped of
                          Some e \<Rightarrow> ret (Inl e)
                        | None \<Rightarrow> attempts E r c (Suc k) n } }"

definition login :: "env \<Rightarrow> refresher \<Rightarrow> ctx \<Rightarrow> (world, go_error + nat option) state" where
  "login E r c =
     (let account = otp_account_identity (au_root (r_auth r)) (au_username (r_auth r))
      in check_ok (acquire_otp_account E c account)
           (do { result \<leftarrow> attempts E r c 0 (r_max_attempts r);
                 release_otp_account account;
                 ret result }))"

section \<open>Backoff bounds\<close>

lemma backoff_delay_bounds:
  assumes "0 < r_max_delay r"
  shows "0 < backoff_delay r k \<and> backoff_delay r k \<le> r_max_delay r"
  using assms by (simp add: backoff_delay_def Let_def)

lemma jitter_bounds: "0 < d \<Longrightarrow> 3 * d \<le> 4 * jitter n d \<and> jitter n d \<le> d \<and> 0 < jitter n d"
proof -
  assume d: "0 < d"
  let ?m = "n mod (d div 4 + 1)"
  have pos: "0 < d div 4 + 1" using d by (simp add: pos_imp_zdiv_nonneg_iff add_nonneg_pos)
  have "0 \<le> ?m" "?m < d div 4 + 1" using pos_mod_sign [OF pos] pos_mod_bound [OF pos] by blast+
  then have "0 \<le> ?m" "4 * ?m \<le> d" by linarith+
  then show ?thesis using d by (simp add: jitter_def go_div_nonneg)
qed

lemma backoff_exact:
  assumes "0 < r_base_delay r" "r_base_delay r * 2 ^ k \<le> r_max_delay r" "r_max_delay r < 2 ^ 63"
  shows "backoff_delay r k = r_base_delay r * 2 ^ k"
proof -
  have pos: "0 < r_base_delay r * 2 ^ k" using assms(1) by simp
  then have "wrap64 (r_base_delay r * 2 ^ k) = r_base_delay r * 2 ^ k"
    using assms by (intro wrap64_id) linarith+
  then show ?thesis using assms(2) pos by (simp add: backoff_delay_def Let_def)
qed

lemma retry_delay_post:
  assumes "0 < r_max_delay r"
  shows "wp (retry_delay E r k err) (\<lambda>d w'. 0 < d \<and> calm w w'
     \<and> (if 0 < auth_retry_after err then d = auth_retry_after err
        else d \<le> backoff_delay r k \<and> 3 * backoff_delay r k \<le> 4 * d)) w"
  using jitter_bounds [OF conjunct1 [OF backoff_delay_bounds [OF assms]], of k]
  by (auto simp: retry_delay_def backoff_def wp_simps calm.refl)

section \<open>The callbacks are tame\<close>

text \<open>Errors of the local machine are never answers of the server.\<close>

definition local_err :: "go_error option \<Rightarrow> bool" where
  "local_err r = (case r of None \<Rightarrow> True | Some e \<Rightarrow> as_api_error e = None)"

lemma local_err_simps [simp]:
  "local_err None" "local_err (Some (Sentinel s))" "local_err (Some (Plain m))"
  "local_err (Some (unsafe_err m))" "local_err (Some (corrupt_err m))"
  "local_err (Some (wrap_sentinel s m))" "local_err (ctx_error st)"
  by (cases st; simp add: local_err_def err_simps unsafe_err_def corrupt_err_def)+

lemma local_storage_failure: "local_err (Some e) \<Longrightarrow> local_err (Some (storage_failure e))"
  by (simp add: local_err_def storage_failure_def err_simps)

definition left_opt :: "'e + 'a \<Rightarrow> 'e option" where
  "left_opt r = (case r of Inl e \<Rightarrow> Some e | Inr _ \<Rightarrow> None)"

lemma left_opt_simps [simp]: "left_opt (Inl e) = Some e" "left_opt (Inr v) = None"
  by (simp_all add: left_opt_def)

lemma context_err_local: "wp (context_err E c) (\<lambda>r w'. local_err r) w"
  by (simp add: wp_simps split: ctx.split)

lemma only_unsafe_local: "only_unsafe r \<Longrightarrow> local_err r"
  by (auto simp: only_unsafe_def split: option.splits)

lemma entry_path_local: "wp (entry_path E dir k) (\<lambda>r w'. local_err (left_opt r)) w"
  by (auto simp: entry_path_def wp_simps validate_key_def intro!: wp_mono [OF ensure_dir_unsafe]
      dest: only_unsafe_local split: option.splits)

lemma validate_record_local: "local_err (validate_record k r now)"
proof -
  have "local_err (validate_session_cookie c now)" for c
    by (simp add: validate_session_cookie_def)
  then have "local_err (first_some (\<lambda>c. validate_session_cookie c now) cs)" for cs
    by (induction cs) (auto split: option.splits, metis)
  then show ?thesis by (simp add: validate_record_def)
qed

lemma read_private_local: "wp (read_private_file E p) (\<lambda>r w'. local_err (left_opt r)) w"
  by (auto simp: read_private_file_def wp_simps validate_private_def Let_def split: option.splits)

lemma load_entry_local: "wp (load_entry E k p) (\<lambda>r w'. local_err (snd r)) w"
proof -
  have "local_err (Some e)" if "validate_record k r now = Some e" for r now e
    using validate_record_local [of k r now] that by simp
  then show ?thesis
    by (auto simp: load_entry_def wp_simps left_opt_def
        intro!: wp_mono [OF read_private_local] split: sum.splits option.splits)
qed

lemma load_local: "wp (load E dir c k) (\<lambda>r w'. local_err (snd r)) w"
proof -
  have tail: "wp (entry_path E dir k) (\<lambda>r. wp (case r of Inl e \<Rightarrow> ret (zero_record, Some e)
      | Inr p \<Rightarrow> load_entry E k p) (\<lambda>r w'. local_err (snd r))) v" for v
    by (rule wp_mono [OF entry_path_local])
       (auto simp: wp_ret left_opt_def intro: load_entry_local split: sum.splits)
  show ?thesis
    unfolding load_def wp_bind
    by (rule wp_mono [OF context_err_local]) (auto simp: wp_ret wp_bind tail split: option.splits)
qed

lemma lstat_local: "wp (lstat E p) (\<lambda>r w'. local_err (left_opt r)) w"
  by (simp add: lstat_def wp_simps split: option.split)

lemma sys_ok_local: "local_err (Some e) \<Longrightarrow> wp (sys_ok E s e) (\<lambda>r w'. local_err r) w"
  by (simp add: sys_ok_def wp_simps)

lemma then_ok_local:
  assumes "\<And>w. wp m (\<lambda>r w'. local_err r) w" and "\<And>w. wp k (\<lambda>r w'. local_err r) w"
  shows "wp (then_ok m k) (\<lambda>r w'. local_err r) w"
  unfolding wp_then_ok by (rule wp_mono [OF assms(1)]) (auto simp: assms(2) split: option.split)

lemma validate_private_local: "local_err (validate_private E i)"
  by (simp add: validate_private_def)

lemma publish_local: "wp (publish E tmp dst payload) (\<lambda>r w'. local_err r) w"
  unfolding publish_def sync_directory_def
  by (intro then_ok_local sys_ok_local)
     (auto simp: write_temp_def rename_file_def validate_temp_def update_file_def wp_simps Let_def
        lstat_def validate_private_local split: option.split)

lemma create_temp_local: "wp (create_temp E d) (\<lambda>r w'. local_err (left_opt r)) w"
  by (simp add: create_temp_def wp_simps Let_def set_file_def)

lemma replace_entry_local: "wp (replace_entry E d p payload) (\<lambda>r w'. local_err r) w"
proof -
  have publish: "wp (do { result \<leftarrow> publish E tmp p payload; remove_file E tmp; ret result }) (\<lambda>r w'. local_err r) v" for tmp v
    unfolding wp_bind by (rule wp_mono [OF publish_local]) (simp add: remove_file_def wp_simps)
  show ?thesis
    unfolding replace_entry_def wp_let_err
    by (rule wp_mono [OF create_temp_local]) (auto simp: left_opt_def publish split: sum.splits)
qed

lemma save_entry_local: "wp (save_entry E dir k r p) (\<lambda>r w'. local_err r) w"
proof -
  have rec: "local_err (Some e)" if "validate_record k r now = Some e" for r now e
    using validate_record_local [of k r now] that by simp
  have priv: "local_err (Some e)" if "validate_private E i = Some e" for i e
    using validate_private_local [of E i] that by simp
  show ?thesis
    by (auto simp: save_entry_def wp_simps Let_def validate_existing_def lstat_def
        intro: rec priv replace_entry_local split: option.splits)
qed

lemma save_local: "wp (save E dir c k r) (\<lambda>r w'. local_err r) w"
  unfolding save_def
proof (rule then_ok_local)
  show "wp (context_err E c) (\<lambda>r w'. local_err r) w" for w by (rule context_err_local)
  show "wp (let_err (entry_path E dir k) (save_entry E dir k r)) (\<lambda>r w'. local_err r) w" for w
    unfolding wp_let_err
    by (rule wp_mono [OF entry_path_local]) (auto simp: left_opt_def intro: save_entry_local split: sum.splits)
qed

lemma load_accepted_local: "wp (load_accepted_step E dir c k b) (\<lambda>r w'. local_err (left_opt r)) w"
  unfolding load_accepted_step_def wp_bind
  by (rule wp_mono [OF load_local]) (auto simp: wp_ret split: option.splits)

lemma save_accepted_local: "wp (save_accepted_step E dir c k b s) (\<lambda>r w'. local_err r) w"
  unfolding save_accepted_step_def wp_let_err
  by (rule wp_mono [OF load_accepted_local]) (auto simp: left_opt_def intro: save_local split: sum.splits)

lemma wait_local: "wp (wait_for_step E c a n) (\<lambda>r w'. local_err r) w"
proof (induction n arbitrary: w)
  case 0
  then show ?case by (simp add: wp_ret)
next
  case (Suc n)
  have sleep: "wp (real_sleep E c d) (\<lambda>r w'. local_err r) w" for d w
    by (cases "d \<le> 0") (simp_all add: real_sleep_def wp_ret wp_bind wp_record_ev context_err_local)
  show ?case
    unfolding wait_for_step.simps Let_def
    by (rule then_ok_local [OF context_err_local])
       (auto simp: wp_bind wp_now wp_ret wp_If intro!: then_ok_local sleep Suc.IH)
qed

lemma wait_calm: "state_io_rel calm (wait_for_step E c a n)"
  by (induction n) (auto simp: Let_def intro!: calm.keep_rules)

text \<open>The callbacks change nothing but the accepted codes (and the files).\<close>

definition hushed :: "world \<Rightarrow> world \<Rightarrow> bool" where
  "hushed w w' = (w_ref w' = w_ref w \<and> w_jars w' = w_jars w \<and> visible w' = visible w \<and> steps_grow w w')"

interpretation hush: quiet_preorder hushed
proof unfold_locales
  show "hushed w w" for w by (simp add: hushed_def grow.refl)
  show "hushed u v \<Longrightarrow> hushed v w \<Longrightarrow> hushed u w" for u v w
    by (auto simp: hushed_def intro: grow.trans)
  show "quiet e \<Longrightarrow> hushed w (push e w)" for e w
    by (simp add: hushed_def grow.trace)
qed

lemma calm_hushed: "calm w w' \<Longrightarrow> hushed w w'"
  by (auto simp: hushed_def calm_grow) (auto simp: calm_def memory_def)

lemma calm_hush: "state_io_rel calm m \<Longrightarrow> state_io_rel hushed m"
  by (auto simp: state_io_rel_def intro: calm_hushed)

lemma remember_hush: "state_io_rel hushed (remember_accepted i s)"
  unfolding remember_accepted_def
  by (rule hush.keep_modify) (simp add: hushed_def visible_def steps_grow_def accepted.never_lowers)

lemma known_step_hush: "state_io_rel hushed (known_step E r c)"
  unfolding known_step_def accepted_otp_step_def
  by (intro hush.keep_rules remember_hush calm_hush [OF load_accepted_step_calm])

lemma before_hook_hush: "state_io_rel hushed (before_hook E r c)"
  unfolding before_hook_def wait_for_accepted_def
  by (intro hush.keep_rules known_step_hush calm_hush [OF wait_calm])

lemma accept_hook_hush: "state_io_rel hushed (accept_hook E r c s)"
  unfolding accept_hook_def
  by (intro hush.keep_rules remember_hush calm_hush [OF save_accepted_step_calm])

lemma known_step_local: "wp (known_step E r c) (\<lambda>x w'. local_err (left_opt x)) w"
  by (auto simp: known_step_def accepted_otp_step_def remember_accepted_def wp_simps
      intro!: wp_mono [OF load_accepted_local] local_storage_failure split: option.split sum.splits)

lemma before_hook_local: "wp (before_hook E r c) (\<lambda>x w'. local_err x) w"
  unfolding before_hook_def
proof (rule then_ok_local [OF context_err_local])
  show "wp (let_err (known_step E r c) (\<lambda>known. case known of
            None \<Rightarrow> context_err E c
          | Some accepted \<Rightarrow>
              do { t \<leftarrow> now_op E;
                   if otp_step t \<le> accepted then wait_for_accepted E c accepted else context_err E c })) (\<lambda>x w'. local_err x) w" for w
    unfolding wp_let_err
    by (rule wp_mono [OF known_step_local])
       (auto simp: left_opt_def wait_for_accepted_def wp_bind wp_now wp_asks
          intro!: context_err_local wait_local split: sum.splits option.split)
qed

lemma accept_hook_local: "wp (accept_hook E r c s) (\<lambda>x w'. local_err x) w"
  by (auto simp: accept_hook_def remember_accepted_def wp_simps
      intro!: wp_mono [OF save_accepted_local] split: option.split)
     (auto simp: local_err_def intro: local_storage_failure [unfolded local_err_def, simplified] split: option.splits)

lemma tameI:
  assumes "state_io_rel hushed m" and "\<And>w. wp m (\<lambda>r w'. local_err r) w"
  shows "tame m"
  unfolding tame_def
proof
  fix w
  show "wp m (\<lambda>r w'. sent w' = sent w \<and> (\<forall>e. r = Some e \<longrightarrow> as_api_error e = None)) w"
    using wp_conj [OF wp_keeps [OF assms(1)] assms(2), of w]
    by (rule wp_mono) (auto simp: hushed_def sent_def local_err_def split: option.splits)
qed

lemma tame_hooks: "tame (before_hook E r c)" "tame (accept_hook E r c' s)"
  by (rule tameI; rule before_hook_hush accept_hook_hush before_hook_local accept_hook_local)+

section \<open>What a cycle sends and what it leaves alone\<close>

text \<open>A list of complete stretches of the protocol, one per handshake.\<close>

definition cycle_post :: "refresher \<Rightarrow> nat \<Rightarrow> world \<Rightarrow> go_error + nat option \<Rightarrow> world \<Rightarrow> bool" where
  "cycle_post r n w res w' =
     (\<exists>runs. sent w' = sent w @ concat runs \<and> length runs \<le> n
        \<and> list_all (\<lambda>xs. protocol (r_auth r) Fresh xs \<noteq> None) runs
        \<and> (\<forall>j. res = Inr (Some j) \<longrightarrow> runs \<noteq> []
             \<and> protocol (r_auth r) Fresh (last runs) = Some (final_phase (r_auth r))))"

lemma cycle_post_Cons:
  assumes "sent v = sent w @ xs" "protocol (r_auth r) Fresh xs \<noteq> None" "cycle_post r n v res w'"
  shows "cycle_post r (Suc n) w res w'"
proof -
  obtain runs where "sent w' = sent v @ concat runs" "length runs \<le> n"
    "list_all (\<lambda>xs. protocol (r_auth r) Fresh xs \<noteq> None) runs"
    "\<forall>j. res = Inr (Some j) \<longrightarrow> runs \<noteq> [] \<and> protocol (r_auth r) Fresh (last runs) = Some (final_phase (r_auth r))"
    using assms(3) by (auto simp: cycle_post_def)
  then show ?thesis
    using assms(1,2) unfolding cycle_post_def by (intro exI [of _ "xs # runs"]) auto
qed

lemma retry_delay_silent: "state_io_rel (\<lambda>w w'. sent w' = sent w) (retry_delay E r k err)"
  unfolding retry_delay_def backoff_def by (intro sil.keep_rules) simp

lemma set_not_before_silent: "state_io_rel (\<lambda>w w'. sent w' = sent w) (set_not_before t)"
  unfolding set_not_before_def update_ref_def
  by (rule sil.keep_modify) (simp add: sent_def visible_def)

lemma sit_out_silent: "state_io_rel (\<lambda>w w'. sent w' = sent w) (sit_out E r c k err)"
  unfolding sit_out_def Let_def
  by (intro sil.keep_rules silent_emit retry_delay_silent set_not_before_silent)

lemma silent_wp: "state_io_rel (\<lambda>w w'. sent w' = sent w) m \<Longrightarrow> (\<And>r w'. sent w' = sent w \<Longrightarrow> Q r w') \<Longrightarrow> wp m Q w"
  by (rule wp_keeps_mono)

lemma attempts_sent: "wp (attempts E r c k n) (cycle_post r n w) w"
proof (induction n arbitrary: k w)
  case 0
  then show ?case by (auto simp: wp_ret cycle_post_def intro: exI [of _ "[]"])
next
  case (Suc n)
  have one: "cycle_post r (Suc n) w (Inl e) v'" if "sent v' = sent w @ xs" "protocol (r_auth r) Fresh xs \<noteq> None" for v' xs e
    using that unfolding cycle_post_def by (intro exI [of _ "[xs]"]) auto
  have good: "cycle_post r (Suc n) w (Inr (Some j)) v'"
    if "sent v' = sent w @ xs" "protocol (r_auth r) Fresh xs = Some (final_phase (r_auth r))" for v' xs j
    using that unfolding cycle_post_def by (intro exI [of _ "[xs]"]) auto
  have limited: "wp (if n = 0
              then do { delay \<leftarrow> retry_delay E r k err; t \<leftarrow> now_op E; set_not_before (t + delay); ret (Inl err) }
              else do { stopped \<leftarrow> sit_out E r c k err;
                        case stopped of Some e \<Rightarrow> ret (Inl e) | None \<Rightarrow> attempts E r c (Suc k) n })
          (cycle_post r (Suc n) w) v"
    if sx: "sent v = sent w @ xs" "protocol (r_auth r) Fresh xs \<noteq> None" for err v xs
  proof (cases "n = 0")
    case True
    have "wp (do { delay \<leftarrow> retry_delay E r k err; t \<leftarrow> now_op E; set_not_before (t + delay); ret (Inl err) })
        (cycle_post r (Suc n) w) v"
      unfolding wp_bind
      by (rule silent_wp [OF retry_delay_silent])
         (use sx one in \<open>simp add: wp_now wp_ret set_not_before_def update_ref_def wp_modify sent_def visible_def\<close>)
    then show ?thesis using True by simp
  next
    case False
    have "wp (do { stopped \<leftarrow> sit_out E r c k err;
                 case stopped of Some e \<Rightarrow> ret (Inl e) | None \<Rightarrow> attempts E r c (Suc k) n })
        (cycle_post r (Suc n) w) v"
      unfolding wp_bind
    proof (rule silent_wp [OF sit_out_silent])
      fix stopped v' assume v': "sent v' = sent v"
      have "wp (attempts E r c (Suc k) n) (cycle_post r (Suc n) w) v'"
        by (rule wp_mono [OF Suc.IH]) (rule cycle_post_Cons [OF _ sx(2)], simp_all add: v' sx(1))
      then show "wp (case stopped of Some e \<Rightarrow> ret (Inl e) | None \<Rightarrow> attempts E r c (Suc k) n)
          (cycle_post r (Suc n) w) v'"
        using one v' sx by (cases stopped) (simp_all add: wp_ret)
    qed
    then show ?thesis using False by simp
  qed
  have hs: "wp (handshake E (r_auth r) j (Some (before_hook E r)) (Some (accept_hook E r c)) c)
      (handshake_post (r_auth r) v) v" for j v
    by (rule handshake_run) (auto simp: tame_hooks)
  let ?v = "snd (run_state new_jar w)"
  have new: "wp new_jar Q w = Q (length (w_jars w)) ?v" and v: "sent ?v = sent w" for Q
    by (simp_all add: wp_def new_jar_def sent_def visible_def)
  show ?case
    unfolding attempts.simps wp_bind [of new_jar] new wp_bind [of "handshake _ _ _ _ _ _"]
  proof (rule wp_mono [OF hs])
    fix result v' assume "handshake_post (r_auth r) ?v result v'"
    then obtain xs q where xs: "sent v' = sent w @ xs" "protocol (r_auth r) Fresh xs = Some q"
      "result = None \<longrightarrow> q = final_phase (r_auth r)"
      using v by (auto simp: handshake_post_def moves_def)
    show "wp (case result of
            None \<Rightarrow> do { set_not_before zero_time; ret (Inr (Some (length (w_jars w)))) }
          | Some err \<Rightarrow>
              if \<not> is_rate_limited err then ret (Inl err)
              else if n = 0
              then do { delay \<leftarrow> retry_delay E r k err; t \<leftarrow> now_op E; set_not_before (t + delay); ret (Inl err) }
              else do { stopped \<leftarrow> sit_out E r c k err;
                        case stopped of Some e \<Rightarrow> ret (Inl e) | None \<Rightarrow> attempts E r c (Suc k) n })
        (cycle_post r (Suc n) w) v'"
    proof (cases result)
      case None
      then show ?thesis using xs good
        by (simp add: wp_bind wp_ret set_not_before_def update_ref_def wp_modify sent_def visible_def)
    next
      case (Some err)
      then show ?thesis using xs one limited by (cases "is_rate_limited err") (simp_all add: wp_ret)
    qed
  qed
qed

lemma login_sent: "wp (login E r c) (cycle_post r (r_max_attempts r) w) w"
proof -
  have acquire: "state_io_rel (\<lambda>w w'. sent w' = sent w) (acquire_otp_account E c i)" for i
  proof -
    have sem: "state_io_rel (\<lambda>w w'. sent w' = sent w) (record_ev (EvSemaphore i))"
      "state_io_rel (\<lambda>w w'. sent w' = sent w) (record_ev (EvRelease i))" for i
      by (auto simp: state_io_rel_def record_ev_def sent_def)
    then show ?thesis
      unfolding acquire_otp_account_def
      by (intro sil.keep_then_ok sil.keep_bind sil.keep_context_err sil.keep_option sil.keep_ret
          sil.keep_modify sem) (simp add: sent_def visible_def)
  qed
  have err: "cycle_post r m w (Inl e) v" if "sent v = sent w" for m v e
    using that unfolding cycle_post_def by (intro exI [of _ "[]"]) auto
  have release: "cycle_post r m w x (push (EvRelease i) v')" if "cycle_post r m v x v'" "sent v = sent w" for m v x v' i
    using that by (simp add: cycle_post_def sent_def)
  show ?thesis
    unfolding login_def Let_def wp_check_ok
    by (rule silent_wp [OF acquire])
       (auto simp: wp_bind wp_ret release_otp_account_def wp_record_ev
         intro!: err release wp_mono [OF attempts_sent] split: option.split)
qed

text \<open>Neither the jar in use nor the generation is touched; a jar that comes out is new.\<close>

definition isolated :: "nat \<Rightarrow> world \<Rightarrow> world \<Rightarrow> bool" where
  "isolated m w w' =
     ((\<exists>t. w_ref w' = (w_ref w)\<lparr>rf_not_before := t\<rparr>)
      \<and> length (w_jars w) \<le> length (w_jars w')
      \<and> (\<forall>i. i < m \<longrightarrow> w_jars w' ! i = w_jars w ! i))"

lemma ref_same: "\<exists>t. (s :: refresher_state) = s\<lparr>rf_not_before := t\<rparr>"
  by (rule exI [of _ "rf_not_before s"]) simp

interpretation iso: world_preorder "isolated m" for m
  by unfold_locales (auto simp: isolated_def intro: ref_same)

lemma retry_delay_calm: "state_io_rel calm (retry_delay E r k err)"
  unfolding retry_delay_def backoff_def by (intro calm.keep_rules) simp

lemma set_not_before_iso: "state_io_rel (isolated m) (set_not_before t)"
  unfolding set_not_before_def update_ref_def by (rule iso.keep_modify) (auto simp: isolated_def)

lemma calm_iso: "calm w w' \<Longrightarrow> isolated m w w'"
  by (auto simp: calm_def memory_def isolated_def intro: ref_same)

lemma retry_delay_iso: "state_io_rel (isolated m) (retry_delay E r k err)"
  using retry_delay_calm by (auto simp: state_io_rel_def intro: calm_iso)

lemma sit_out_iso: "state_io_rel (isolated m) (sit_out E r c k err)"
  unfolding sit_out_def Let_def
  by (intro iso.keep_rules iso.keep_any retry_delay_iso set_not_before_iso)

lemma hushed_frame: "hushed w w' \<Longrightarrow> session_frame j w w'"
  by (simp add: hushed_def session_frame_def)

lemma handshake_frame:
  "state_io_rel (session_frame j) (handshake E a j (Some (before_hook E r)) (Some (accept_hook E r c)) c')"
  using before_hook_hush accept_hook_hush
  by (intro frame.keep_handshake) (auto simp: state_io_rel_def intro: hushed_frame)

lemma handshake_iso:
  assumes "m \<le> j"
  shows "state_io_rel (isolated m) (handshake E a j (Some (before_hook E r)) (Some (accept_hook E r c)) c')"
  using handshake_frame assms
  by (fastforce simp: state_io_rel_def session_frame_def isolated_def intro: ref_same)

definition cycle_iso :: "world \<Rightarrow> go_error + nat option \<Rightarrow> world \<Rightarrow> bool" where
  "cycle_iso w res w' = (isolated (length (w_jars w)) w w'
     \<and> (\<forall>j. res = Inr (Some j) \<longrightarrow> length (w_jars w) \<le> j))"

lemma isolated_mono: "isolated m w w' \<Longrightarrow> n \<le> m \<Longrightarrow> isolated n w w'"
  by (simp add: isolated_def)

lemma iso_step:
  assumes "\<And>m. m \<le> length (w_jars v) \<Longrightarrow> state_io_rel (isolated m) k"
    and "isolated (length (w_jars w)) w v"
    and "\<And>r w'. isolated (length (w_jars w)) w w' \<Longrightarrow> Q r w'"
  shows "wp k Q v"
proof (rule wp_keeps_mono)
  show "state_io_rel (isolated (length (w_jars w))) k"
    using assms(1,2) by (simp add: isolated_def)
  show "Q r w'" if "isolated (length (w_jars w)) v w'" for r w'
    using assms(3) iso.trans [OF assms(2) that] by blast
qed

lemma attempts_iso: "wp (attempts E r c k n) (cycle_iso w) w"
proof (induction n arbitrary: k w)
  case 0
  then show ?case by (simp add: wp_ret cycle_iso_def iso.refl)
next
  case (Suc n)
  let ?m = "length (w_jars w)" and ?v = "snd (run_state new_jar w)"
  have new: "wp new_jar Q w = Q ?m ?v" and v: "isolated ?m w ?v" for Q
    by (auto simp: wp_def new_jar_def isolated_def nth_append intro: ref_same)
  have last: "wp (do { delay \<leftarrow> retry_delay E r k err; t \<leftarrow> now_op E; set_not_before (t + delay); ret (Inl err) })
        (cycle_iso w) u" if "isolated ?m w u" for err u
  proof -
    have "state_io_rel (isolated m) (do { delay \<leftarrow> retry_delay E r k err; t \<leftarrow> now_op E; set_not_before (t + delay); ret (Inl err) })" for m
      by (intro iso.keep_rules retry_delay_iso set_not_before_iso)
    then have "wp (do { delay \<leftarrow> retry_delay E r k err; t \<leftarrow> now_op E; set_not_before (t + delay); ret (Inl err) })
        (\<lambda>x w'. isolated ?m w w') u" using that by (rule iso_step)
    moreover have "wp (do { delay \<leftarrow> retry_delay E r k err; t \<leftarrow> now_op E; set_not_before (t + delay); ret (Inl err) })
        (\<lambda>x w'. \<forall>j. x \<noteq> Inr (Some j)) u" by (simp add: wp_def split: prod.split)
    ultimately show ?thesis by (rule wp_mono [OF wp_conj]) (simp add: cycle_iso_def)
  qed
  have again: "wp (attempts E r c (Suc k) n) (cycle_iso w) u" if "isolated ?m w u" for u
    by (rule wp_mono [OF Suc.IH])
       (use that in \<open>auto simp: cycle_iso_def isolated_def intro: iso.trans dest: order_trans\<close>)
  have retry: "wp (do { stopped \<leftarrow> sit_out E r c k err;
                 case stopped of Some e \<Rightarrow> ret (Inl e) | None \<Rightarrow> attempts E r c (Suc k) n })
        (cycle_iso w) u" if "isolated ?m w u" for err u
    unfolding wp_bind
    by (rule iso_step [OF sit_out_iso that])
       (auto simp: wp_ret cycle_iso_def [of w "Inl _"] intro: again split: option.split)
  show ?case
    unfolding attempts.simps wp_bind [of new_jar] new wp_bind [of "handshake _ _ _ _ _ _"]
  proof (rule wp_keeps_mono [OF handshake_iso [of ?m ?m, OF order_refl]])
    fix result w' assume "isolated ?m ?v w'"
    then have w': "isolated ?m w w'" using v iso.trans by blast
    show "wp (case result of
            None \<Rightarrow> do { set_not_before zero_time; ret (Inr (Some ?m)) }
          | Some err \<Rightarrow>
              if \<not> is_rate_limited err then ret (Inl err)
              else if n = 0
              then do { delay \<leftarrow> retry_delay E r k err; t \<leftarrow> now_op E; set_not_before (t + delay); ret (Inl err) }
              else do { stopped \<leftarrow> sit_out E r c k err;
                        case stopped of Some e \<Rightarrow> ret (Inl e) | None \<Rightarrow> attempts E r c (Suc k) n })
        (cycle_iso w) w'"
    proof (cases result)
      case None
      have "wp (set_not_before zero_time) (\<lambda>x w'. isolated ?m w w') w'"
        by (rule iso_step [OF set_not_before_iso w'])
      then have "wp (do { set_not_before zero_time; ret (Inr (Some ?m)) }) (cycle_iso w) w'"
        unfolding wp_bind by (rule wp_mono) (simp add: wp_ret cycle_iso_def)
      then show ?thesis using None by simp
    next
      case (Some err)
      then show ?thesis using last [OF w'] retry [OF w'] w'
        by (simp add: wp_ret cycle_iso_def)
    qed
  qed
qed

lemma acquire_iso: "state_io_rel (isolated m) (acquire_otp_account E c i)"
  unfolding acquire_otp_account_def
  by (intro iso.keep_rules iso.keep_any iso.keep_modify) (auto simp: isolated_def intro: ref_same)

lemma cycle_iso_release: "cycle_iso v x v' \<Longrightarrow> isolated (length (w_jars w)) w v \<Longrightarrow> cycle_iso w x (push (EvRelease i) v')"
  by (auto simp: cycle_iso_def isolated_def intro: order_trans)

lemma login_iso: "wp (login E r c) (cycle_iso w) w"
  unfolding login_def Let_def wp_check_ok
  by (rule iso_step [OF acquire_iso iso.refl])
     (auto simp: wp_bind wp_ret release_otp_account_def wp_record_ev cycle_iso_def [of w "Inl _"]
       intro!: wp_mono [OF attempts_iso] intro: cycle_iso_release split: option.split)

section \<open>Preorders a login keeps\<close>

text \<open>A relation that allows what the callbacks do, every event but those of locks, new candidate
  jars and their cookies, other goroutines' accepted codes and a new retry deadline.\<close>

locale cycle_preorder = open_preorder +
  assumes hushed: "hushed w w' \<Longrightarrow> R w w'"
    and jar: "R w (put_jar j x w)"
    and new: "R w (w\<lparr>w_jars := w_jars w @ [x]\<rparr>)"
    and not_before: "R w (w\<lparr>w_ref := (w_ref w)\<lparr>rf_not_before := t\<rparr>\<rparr>)"
    and merged: "R w (w\<lparr>w_accepted := merge_accepted (w_accepted w) others\<rparr>)"
begin

lemma keep_hushed: "state_io_rel hushed m \<Longrightarrow> state_io_rel R m"
  by (auto simp: state_io_rel_def intro: hushed)

lemma keep_calm: "state_io_rel calm m \<Longrightarrow> state_io_rel R m"
  by (rule keep_hushed) (rule calm_hush)

sublocale any_jar: jar_preorder R j for j
  by unfold_locales (rule jar)

lemma keep_new_jar: "state_io_rel R new_jar"
  by (auto simp: state_io_rel_def new_jar_def new)

lemma keep_not_before: "state_io_rel R (set_not_before t)"
  by (simp add: set_not_before_def update_ref_def keep_modify not_before)

lemma keep_retry_delay: "state_io_rel R (retry_delay E r k err)"
  by (rule keep_calm) (rule retry_delay_calm)

lemma keep_attempts: "state_io_rel R (attempts E r c k n)"
proof (induction n arbitrary: k)
  case 0
  then show ?case by (simp add: keep_ret)
next
  case (Suc n)
  have hs: "state_io_rel R (handshake E (r_auth r) j (Some (before_hook E r)) (Some (accept_hook E r c)) c)" for j
    by (rule any_jar.keep_handshake) (auto intro: keep_hushed before_hook_hush accept_hook_hush)
  show ?case
    unfolding attempts.simps sit_out_def Let_def
    by (intro keep_open keep_new_jar hs Suc.IH keep_retry_delay keep_not_before) simp_all
qed

lemma keep_acquire: "state_io_rel R (acquire_otp_account E c i)"
  unfolding acquire_otp_account_def
  by (intro keep_open keep_modify merged) simp_all

lemma keep_login: "state_io_rel R (login E r c)"
  unfolding login_def release_otp_account_def Let_def
  by (intro keep_open keep_attempts keep_acquire) simp_all

end

interpretation cyc_grow: cycle_preorder steps_grow
proof unfold_locales
  show "hushed w w' \<Longrightarrow> steps_grow w w'" for w w' by (simp add: hushed_def)
qed (simp_all add: steps_grow_def put_jar_def merge_accepted_grow)

section \<open>Properties\<close>

text \<open>C21: A login cycle is a sequence of at most \<open>r_max_attempts\<close> handshakes, each of which follows the
  protocol; it yields a session only when the last of them completed it.\<close>

theorem login_is_handshakes:
  "wp (login E r c) (\<lambda>res w'. \<exists>runs.
      sent w' = sent w @ concat runs \<and> length runs \<le> r_max_attempts r
      \<and> list_all (\<lambda>xs. protocol (r_auth r) Fresh xs \<noteq> None) runs
      \<and> (case res of Inr (Some j) \<Rightarrow> runs \<noteq> []
             \<and> protocol (r_auth r) Fresh (last runs) = Some (final_phase (r_auth r))
         | _ \<Rightarrow> True)) w"
  by (rule wp_mono [OF login_sent]) (auto simp: cycle_post_def split: sum.splits option.splits)

text \<open>C23: A login leaves the session in use alone: no jar that existed before changes, nor the
  generation, the current jar or the failure record, and the jar it yields is a new one.\<close>

theorem login_isolated:
  "wp (login E r c) (\<lambda>res w'.
      (\<exists>t. w_ref w' = (w_ref w)\<lparr>rf_not_before := t\<rparr>)
      \<and> take (length (w_jars w)) (w_jars w') = w_jars w
      \<and> (case res of Inr (Some j) \<Rightarrow> length (w_jars w) \<le> j | _ \<Rightarrow> True)) w"
proof (rule wp_mono [OF login_iso])
  fix res w'
  assume "cycle_iso w res w'"
  then have iso: "isolated (length (w_jars w)) w w'" and new: "\<forall>j. res = Inr (Some j) \<longrightarrow> length (w_jars w) \<le> j"
    by (simp_all add: cycle_iso_def)
  have "take (length (w_jars w)) (w_jars w') = w_jars w"
    using iso by (intro nth_equalityI) (simp_all add: isolated_def)
  then show "(\<exists>t. w_ref w' = (w_ref w)\<lparr>rf_not_before := t\<rparr>)
      \<and> take (length (w_jars w)) (w_jars w') = w_jars w
      \<and> (case res of Inr (Some j) \<Rightarrow> length (w_jars w) \<le> j | _ \<Rightarrow> True)"
    using iso new by (auto simp: isolated_def split: sum.split option.split)
qed

text \<open>A login never forgets that a one-time code was accepted: the step remembered for any account
  only grows, whatever fails on the way.\<close>

theorem login_keeps_accepted_steps:
  "wp (login E r c) (\<lambda>res w'. \<forall>i. case w_accepted w i of None \<Rightarrow> True
      | Some u \<Rightarrow> (\<exists>u'. w_accepted w' i = Some u' \<and> u \<le> u')) w"
  by (rule wp_keeps_mono [OF cyc_grow.keep_login]) (auto simp: steps_grow_def split: option.splits)

text \<open>C38: The delay before a retry is positive. When the server named one it is exactly that, however long:
  the maximal delay does not bound it. Otherwise it is a jittered exponential backoff, at most the maximal
  delay and at least three quarters of the doubled base delay while that lies below the maximum,
  whatever the overflow of the shift.\<close>

theorem retry_delay_bounds:
  assumes "0 < r_max_delay r" "r_max_delay r < 2 ^ 63" "0 < r_base_delay r"
  shows "wp (retry_delay E r k err) (\<lambda>d w'. 0 < d
     \<and> (if 0 < auth_retry_after err then d = auth_retry_after err
        else d \<le> r_max_delay r
          \<and> (r_base_delay r * 2 ^ k \<le> r_max_delay r \<longrightarrow>
               d \<le> r_base_delay r * 2 ^ k \<and> 3 * (r_base_delay r * 2 ^ k) \<le> 4 * d))) w"
  by (rule wp_mono [OF retry_delay_post [OF assms(1)]])
     (use backoff_delay_bounds [OF assms(1), of k] backoff_exact [OF assms(3) _ assms(2), of k] in auto)

lemma retry_delay_bounds_witness:
  "wp (retry_delay sample_env (new_refresher sample_auth) 2 (Plain ''x'')) (\<lambda>d w'. 0 < d
     \<and> d \<le> 4 * second \<and> 3 * second \<le> d) sample_world"
proof -
  have "0 < r_max_delay (new_refresher sample_auth)" "r_max_delay (new_refresher sample_auth) < 2 ^ 63"
    "0 < r_base_delay (new_refresher sample_auth)" by (simp_all add: new_refresher_def second_def)
  from retry_delay_bounds [OF this, of sample_env 2 "Plain ''x''" sample_world] show ?thesis
    by (rule wp_mono) (simp add: new_refresher_def auth_retry_after_def err_simps second_def)
qed

end
