(* ===== verification/Session_Cycle.thy ===== *)
theory Session_Cycle
  imports Login_Cycle
begin

text \<open>
  session.go: how a session is obtained. \<open>initialize\<close> restores one from the store or logs
  in, \<open>recover\<close> replaces a lost one, \<open>persist_ineffective\<close> records that a recovered session
  was refused again. With a store, all three work under the lock of the account.

  A context the client derives for itself (a deadline of its own) is \<open>detached\<close>; how long
  it lives is decided by the environment, like that of every other context.
\<close>

section \<open>Records and jars\<close>

definition detached :: ctx where "detached = Ctx 0"

definition restore_record :: "env \<Rightarrow> session_record \<Rightarrow> (world, go_error + nat) state" where
  "restore_record E stored =
     do { j \<leftarrow> new_jar;
          now \<leftarrow> now_op E;
          jar \<leftarrow> asks (\<lambda>w. jar_at w j);
          case tracked_restore now now (rec_cookies stored) jar of
            Inl e \<Rightarrow> ret (Inl e)
          | Inr jar' \<Rightarrow> do { modify (put_jar j jar'); ret (Inr j) } }"

definition session_of :: "refresher \<Rightarrow> session_cookie list \<Rightarrow> 64 word \<Rightarrow> gtime \<Rightarrow> session_record" where
  "session_of r cookies generation not_before =
     zero_record\<lparr>rec_version := current_store_version, rec_endpoint := sk_endpoint (r_key r),
       rec_username := sk_username (r_key r), rec_fingerprint := sk_fingerprint (r_key r),
       rec_impersonate := sk_impersonate (r_key r), rec_cookies := cookies,
       rec_generation := generation, rec_retry_not_before := not_before\<rparr>"

definition save_record ::
  "env \<Rightarrow> refresher \<Rightarrow> string \<Rightarrow> ctx \<Rightarrow> nat option \<Rightarrow> 64 word \<Rightarrow> (world, go_error option) state" where
  "save_record E r dir c j generation =
     (case j of
        None \<Rightarrow> ret (Some (Plain ''cloudsigma: session cookie tracking unavailable''))
      | Some a \<Rightarrow>
          do { now \<leftarrow> now_op E;
               (cookies, jar) \<leftarrow> asks (\<lambda>w. persistent_cookies now now (jar_at w a));
               modify (put_jar a jar);
               case cookies of
                 Inl e \<Rightarrow> ret (Some e)
               | Inr cs \<Rightarrow>
                   do { not_before \<leftarrow> asks (\<lambda>w. rf_not_before (w_ref w));
                        save E dir c (r_key r) (session_of r cs generation not_before) } })"

definition save_rate_limit :: "env \<Rightarrow> refresher \<Rightarrow> (world, go_error option) state" where
  "save_rate_limit E r =
     do { not_before \<leftarrow> asks (\<lambda>w. rf_not_before (w_ref w));
          case r_store r of
            None \<Rightarrow> ret None
          | Some dir \<Rightarrow>
              do { now \<leftarrow> now_op E;
                   if \<not> now < not_before then ret None
                   else save_account_retry E dir detached (r_key r) not_before } }"

section \<open>The probe of a restored session\<close>

definition session_probe_path :: string where
  "session_probe_path = ''drives/?limit=1''"

definition still_valid :: "env \<Rightarrow> refresher \<Rightarrow> ctx \<Rightarrow> nat \<Rightarrow> (world, bool) state" where
  "still_valid E r c j =
     (case new_request (r_auth r) c ''GET'' (au_root (r_auth r) @ session_probe_path) None [] of
        Inl _ \<Rightarrow> ret True
      | Inr (rq, u) \<Rightarrow>
          do { out \<leftarrow> client_do E j u rq;
               ret (case out of
                      HttpFail _ _ _ \<Rightarrow> True
                    | HttpOk response _ \<Rightarrow>
                        \<not> fst (is_session_loss_for response (au_impersonate (r_auth r) \<noteq> []))) })"

section \<open>A new session under the account lock\<close>

text \<open>Load errors after which the client logs in; every other one fails the call.\<close>

definition no_usable_entry :: "go_error \<Rightarrow> bool" where
  "no_usable_entry e =
     (errors_is e ErrSessionCacheNotFound \<or> errors_is e ErrSessionExpired
      \<or> errors_is e ErrSessionCacheCredentialMismatch)"

text \<open>
  The common end of \<^verbatim>\<open>initialize\<close> and \<^verbatim>\<open>recover\<close>: respect the deadlines of the entry and of
  the account, log in, publish the session under generation \<open>next\<close>.
\<close>

definition publish_session ::
  "env \<Rightarrow> refresher \<Rightarrow> string \<Rightarrow> ctx \<Rightarrow> 64 word \<Rightarrow> go_error + nat option \<Rightarrow>
   (world, go_error + (nat option \<times> 64 word)) state" where
  "publish_session E r dir c next result =
     (case result of
        Inl e \<Rightarrow> do { unsaved \<leftarrow> save_rate_limit E r;
                       ret (Inl (case unsaved of Some e' \<Rightarrow> e' | None \<Rightarrow> e)) }
      | Inr j \<Rightarrow> check_ok (save_record E r dir c j next) (ret (Inr (j, next))))"

definition sign_in ::
  "env \<Rightarrow> refresher \<Rightarrow> string \<Rightarrow> ctx \<Rightarrow> auth_stage \<Rightarrow> gtime \<Rightarrow> 64 word \<Rightarrow>
   (world, go_error + (nat option \<times> 64 word)) state" where
  "sign_in E r dir c stage entry_deadline next =
     do { now \<leftarrow> now_op E;
          let remaining = time_sub entry_deadline now;
          if 0 < remaining
          then ret (Inl (AuthErr AuthStageSessionRecovery AuthKindPersistentSessionLoss None remaining))
          else let_ok (load_account_retry E dir c (r_key r))
            (\<lambda>account_deadline.
               do { now' \<leftarrow> now_op E;
                    let remaining = time_sub account_deadline now';
                    if 0 < remaining
                    then ret (Inl (AuthErr stage AuthKindRateLimited None remaining))
                    else do { result \<leftarrow> login E r c; publish_session E r dir c next result } }) }"

section \<open>initialize\<close>

definition adopt :: "nat option \<Rightarrow> 64 word \<Rightarrow> (world, unit) state" where
  "adopt j generation = update_ref (\<lambda>s. s\<lparr>rf_jar := j, rf_generation := generation\<rparr>)"

definition first_generation :: "64 word \<Rightarrow> 64 word" where
  "first_generation stored = (if stored + 1 = 0 then 1 else stored + 1)"

definition start_session ::
  "env \<Rightarrow> refresher \<Rightarrow> string \<Rightarrow> ctx \<Rightarrow> session_record \<Rightarrow> (world, go_error option) state" where
  "start_session E r dir c stored =
     let_err (sign_in E r dir c AuthStageLogin (rec_retry_not_before stored)
                (first_generation (rec_generation stored)))
       (\<lambda>(j, generation). do { adopt j generation; ret None })"

definition initialize_locked :: "env \<Rightarrow> refresher \<Rightarrow> string \<Rightarrow> ctx \<Rightarrow> (world, go_error option) state" where
  "initialize_locked E r dir c =
     do { (stored, err) \<leftarrow> load E dir c (r_key r);
          case err of
            Some e \<Rightarrow> if no_usable_entry e then start_session E r dir c stored else ret (Some e)
          | None \<Rightarrow>
              if rec_cookies stored = [] then start_session E r dir c stored
              else let_err (restore_record E stored)
                (\<lambda>j. do { valid \<leftarrow> still_valid E r c j;
                          if valid
                          then do { update_ref (\<lambda>s. s\<lparr>rf_jar := Some j, rf_generation := rec_generation stored,
                                                 rf_not_before := rec_retry_not_before stored\<rparr>);
                                    ret None }
                          else start_session E r dir c (stored\<lparr>rec_cookies := []\<rparr>) }) }"

definition initialize :: "env \<Rightarrow> refresher \<Rightarrow> ctx \<Rightarrow> (world, go_error option) state" where
  "initialize E r c =
     (case r_store r of
        None \<Rightarrow> let_err (login E r c) (\<lambda>j. do { adopt j 1; ret None })
      | Some dir \<Rightarrow>
          let_err (lock_account E dir c (r_key r))
            (\<lambda>p. do { result \<leftarrow> initialize_locked E r dir c; close_lock E p; ret result }))"

section \<open>recover\<close>

definition next_generation :: "64 word \<Rightarrow> 64 word \<Rightarrow> 64 word" where
  "next_generation seen stored = (let next = seen + 1 in if next \<le> stored then stored + 1 else next)"

definition recover_locked ::
  "env \<Rightarrow> refresher \<Rightarrow> string \<Rightarrow> ctx \<Rightarrow> 64 word \<Rightarrow> (world, go_error + (nat option \<times> 64 word)) state" where
  "recover_locked E r dir c seen =
     do { (stored, err) \<leftarrow> load E dir c (r_key r);
          if err = None \<and> rec_cookies stored \<noteq> [] \<and> seen < rec_generation stored
          then let_ok (restore_record E stored) (\<lambda>j. ret (Inr (Some j, rec_generation stored)))
          else case err of
            Some e \<Rightarrow>
              if no_usable_entry e
              then sign_in E r dir c AuthStageSessionRecovery (rec_retry_not_before stored)
                     (next_generation seen (rec_generation stored))
              else ret (Inl e)
          | None \<Rightarrow>
              sign_in E r dir c AuthStageSessionRecovery (rec_retry_not_before stored)
                (next_generation seen (rec_generation stored)) }"

definition recover ::
  "env \<Rightarrow> refresher \<Rightarrow> ctx \<Rightarrow> 64 word \<Rightarrow> (world, go_error + (nat option \<times> 64 word)) state" where
  "recover E r c seen =
     (case r_store r of
        None \<Rightarrow> let_ok (login E r c) (\<lambda>j. ret (Inr (j, seen + 1)))
      | Some dir \<Rightarrow>
          let_ok (lock_account E dir c (r_key r))
            (\<lambda>p. do { result \<leftarrow> recover_locked E r dir c seen; close_lock E p; ret result }))"

section \<open>persistIneffective\<close>

text \<open>The stored marker; the result says whether the cooldown applies to this process.\<close>

definition mark_entry ::
  "env \<Rightarrow> refresher \<Rightarrow> string \<Rightarrow> 64 word \<Rightarrow> gtime \<Rightarrow> (world, go_error option \<times> bool) state" where
  "mark_entry E r dir generation deadline =
     do { (stored, err) \<leftarrow> load E dir detached (r_key r);
          case err of
            Some e \<Rightarrow> ret (if no_usable_entry e then (None, True) else (Some e, False))
          | None \<Rightarrow>
              if rec_generation stored \<noteq> generation then ret (None, False)
              else do { unsaved \<leftarrow> save E dir detached (r_key r)
                          (stored\<lparr>rec_cookies := [], rec_retry_not_before := deadline\<rparr>);
                        ret (unsaved, unsaved = None) } }"

definition mark_ineffective ::
  "env \<Rightarrow> refresher \<Rightarrow> 64 word \<Rightarrow> gtime \<Rightarrow> (world, go_error option \<times> bool) state" where
  "mark_ineffective E r generation deadline =
     (case r_store r of
        None \<Rightarrow> ret (None, True)
      | Some dir \<Rightarrow>
          do { lock \<leftarrow> lock_account E dir detached (r_key r);
               case lock of
                 Inl e \<Rightarrow> ret (Some e, False)
               | Inr p \<Rightarrow> do { result \<leftarrow> mark_entry E r dir generation deadline;
                                close_lock E p; ret result } })"

definition persist_ineffective ::
  "env \<Rightarrow> refresher \<Rightarrow> 64 word \<Rightarrow> go_error \<Rightarrow> (world, go_error option) state" where
  "persist_ineffective E r generation failure =
     do { now \<leftarrow> now_op E;
          let deadline = now + r_cooldown r;
          (result, apply_cooldown) \<leftarrow> mark_ineffective E r generation deadline;
          update_ref (\<lambda>s.
            (if apply_cooldown
             then s\<lparr>rf_last_err := Some failure, rf_last_failure_at := now, rf_not_before := deadline\<rparr>
             else s\<lparr>rf_last_err := result\<rparr>)\<lparr>rf_in_flight := None\<rparr>);
          ret result }"

section \<open>What is shown\<close>

text \<open>What a relation that a login keeps needs no more for: everything under the account's lock.\<close>

context cycle_preorder
begin

lemma keep_save_record: "state_io_rel R (save_record E r dir c j g)"
  unfolding save_record_def
  by (intro keep_open keep_modify jar keep_calm [OF save_calm])

lemma keep_save_rate_limit: "state_io_rel R (save_rate_limit E r)"
  unfolding save_rate_limit_def
  by (intro keep_open keep_calm [OF save_account_retry_calm])

lemma keep_sign_in: "state_io_rel R (sign_in E r dir c st d g)"
  unfolding sign_in_def publish_session_def Let_def
  by (intro keep_open keep_login keep_save_record keep_save_rate_limit keep_calm [OF load_account_retry_calm])

lemma keep_restore_record: "state_io_rel R (restore_record E stored)"
  unfolding restore_record_def
  by (intro keep_open keep_new_jar keep_modify jar)

lemma keep_still_valid: "state_io_rel R (still_valid E r c j)"
  unfolding still_valid_def
  by (intro keep_open any_jar.keep_client_do)

lemma keep_recover_locked: "state_io_rel R (recover_locked E r dir c seen)"
  unfolding recover_locked_def
  by (intro keep_open keep_sign_in keep_restore_record keep_calm [OF load_calm])

lemma keep_mark_entry: "state_io_rel R (mark_entry E r dir g d)"
  unfolding mark_entry_def
  by (intro keep_open keep_calm [OF load_calm] keep_calm [OF save_calm])

end

text \<open>A relation that also allows a new session to be adopted.\<close>

locale session_preorder = cycle_preorder +
  assumes refresher: "R w (w\<lparr>w_ref := s\<rparr>)"
begin

lemma keep_update_ref: "state_io_rel R (update_ref f)"
  by (simp add: update_ref_def keep_modify refresher)

lemma keep_start_session: "state_io_rel R (start_session E r dir c stored)"
  unfolding start_session_def adopt_def
  by (intro keep_open keep_sign_in keep_update_ref)

lemma keep_initialize_locked: "state_io_rel R (initialize_locked E r dir c)"
  unfolding initialize_locked_def
  by (intro keep_open keep_start_session keep_restore_record keep_still_valid keep_update_ref keep_calm [OF load_calm])

end

text \<open>The lock of a refresher's account.\<close>

definition account_lock :: "refresher \<Rightarrow> string \<Rightarrow> path" where
  "account_lock r dir = lock_path dir (normalize_lock_key \<lparr>lk_endpoint = sk_endpoint (r_key r),
     lk_username = sk_username (r_key r), lk_impersonate = [], lk_scope = ScopeAccount\<rparr>)"

section \<open>What is kept of the session in use\<close>

definition session_kept :: "world \<Rightarrow> world \<Rightarrow> bool" where
  "session_kept w w' = (\<exists>t. w_ref w' = (w_ref w)\<lparr>rf_not_before := t\<rparr>)"

interpretation kept: cycle_preorder session_kept
  by unfold_locales (auto simp: session_kept_def hushed_def put_jar_def intro: ref_same)

lemma shown_kept: "memory w' = memory w \<Longrightarrow> session_kept w w'"
  by (auto simp: memory_def session_kept_def intro: ref_same)

lemma lock_account_kept: "state_io_rel session_kept (lock_account E dir c k)"
  unfolding lock_account_def
  by (rule keeps_wpI, rule wp_mono [OF acquire_lock_shown]) (simp add: shown_kept)

lemma close_lock_kept: "state_io_rel session_kept (close_lock E p)"
  by (rule keeps_wpI) (simp add: wp_close_lock session_kept_def ref_same)

lemma recover_kept: "state_io_rel session_kept (recover E r c seen)"
  unfolding recover_def
  by (intro kept.keep_flow kept.keep_login kept.keep_recover_locked lock_account_kept close_lock_kept)

text \<open>\<open>initialize\<close> adopts a session in its last step, or not at all.\<close>

definition adopted :: "world \<Rightarrow> go_error option \<Rightarrow> world \<Rightarrow> bool" where
  "adopted w res w' =
     (case res of Some e \<Rightarrow> session_kept w w'
      | None \<Rightarrow> (\<exists>j g t. w_ref w' = (w_ref w)\<lparr>rf_jar := j, rf_generation := g, rf_not_before := t\<rparr>))"

lemma adoptedI: "w_ref v = (w_ref w)\<lparr>rf_jar := j, rf_generation := g, rf_not_before := t\<rparr> \<Longrightarrow> adopted w None v"
  unfolding adopted_def option.case by blast

lemma adopt_adopted:
  assumes "session_kept w v"
  shows "wp (do { adopt j g; ret None }) (adopted w) v"
    and "wp (do { update_ref (\<lambda>s. s\<lparr>rf_jar := j, rf_generation := g, rf_not_before := t\<rparr>); ret None }) (adopted w) v"
proof -
  obtain u where u: "w_ref v = (w_ref w)\<lparr>rf_not_before := u\<rparr>"
    using assms by (auto simp: session_kept_def)
  show "wp (do { adopt j g; ret None }) (adopted w) v"
    unfolding adopt_def update_ref_def wp_bind wp_modify wp_ret
    by (rule adoptedI [where j = j and g = g and t = u]) (simp add: u)
  show "wp (do { update_ref (\<lambda>s. s\<lparr>rf_jar := j, rf_generation := g, rf_not_before := t\<rparr>); ret None }) (adopted w) v"
    unfolding update_ref_def wp_bind wp_modify wp_ret
    by (rule adoptedI [where j = j and g = g and t = t]) (simp add: u)
qed

lemma adopted_err: "session_kept w v \<Longrightarrow> adopted w (Some e) v"
  by (simp add: adopted_def)

lemma let_err_adopted:
  assumes "state_io_rel session_kept m" "session_kept w v"
    and "\<And>x u. session_kept w u \<Longrightarrow> wp (f x) (adopted w) u"
  shows "wp (let_err m f) (adopted w) v"
  unfolding wp_let_err
proof (rule wp_keeps_mono [OF assms(1)])
  fix x u
  assume "session_kept v u"
  then have u: "session_kept w u" by (rule kept.trans [OF assms(2)])
  show "case x of Inl e \<Rightarrow> adopted w (Some e) u | Inr y \<Rightarrow> wp (f y) (adopted w) u"
    using adopted_err [OF u] assms(3) [OF u] by (simp split: sum.split)
qed

lemma start_session_adopted:
  "session_kept w v \<Longrightarrow> wp (start_session E r dir c stored) (adopted w) v"
  unfolding start_session_def
  by (rule let_err_adopted [OF kept.keep_sign_in]) (auto intro: adopt_adopted split: prod.split)

lemma initialize_locked_adopted:
  assumes "session_kept w v"
  shows "wp (initialize_locked E r dir c) (adopted w) v"
proof -
  have probe: "wp (do { valid \<leftarrow> still_valid E r c j;
                 if valid
                 then do { update_ref (\<lambda>s. s\<lparr>rf_jar := Some j, rf_generation := rec_generation stored,
                                        rf_not_before := rec_retry_not_before stored\<rparr>); ret None }
                 else start_session E r dir c (stored\<lparr>rec_cookies := []\<rparr>) }) (adopted w) u"
    if "session_kept w u" for j stored u
    unfolding wp_bind [of "still_valid _ _ _ _"]
  proof (rule wp_keeps_mono [OF kept.keep_still_valid])
    fix valid u'
    assume "session_kept u u'"
    then have u': "session_kept w u'" by (rule kept.trans [OF that])
    show "wp (if valid
                 then do { update_ref (\<lambda>s. s\<lparr>rf_jar := Some j, rf_generation := rec_generation stored,
                                        rf_not_before := rec_retry_not_before stored\<rparr>); ret None }
                 else start_session E r dir c (stored\<lparr>rec_cookies := []\<rparr>)) (adopted w) u'"
      using start_session_adopted [OF u'] adopt_adopted(2) [OF u'] by simp
  qed
  have after: "wp (case res of (stored, err) \<Rightarrow> case err of
            Some e \<Rightarrow> if no_usable_entry e then start_session E r dir c stored else ret (Some e)
          | None \<Rightarrow> if rec_cookies stored = [] then start_session E r dir c stored
              else let_err (restore_record E stored)
                (\<lambda>j. do { valid \<leftarrow> still_valid E r c j;
                          if valid
                          then do { update_ref (\<lambda>s. s\<lparr>rf_jar := Some j, rf_generation := rec_generation stored,
                                                 rf_not_before := rec_retry_not_before stored\<rparr>);
                                    ret None }
                          else start_session E r dir c (stored\<lparr>rec_cookies := []\<rparr>) })) (adopted w) u"
    if "session_kept w u" for res u
  proof (cases res)
    case (Pair stored err)
    show ?thesis
      unfolding Pair prod.case
      using start_session_adopted [OF that] let_err_adopted [OF kept.keep_restore_record that probe] adopted_err [OF that]
      by (cases err) (simp_all only: option.case wp_ret split: if_split, blast+)
  qed
  show ?thesis
    unfolding initialize_locked_def wp_bind [of "load _ _ _ _"]
    by (rule wp_keeps_mono [OF kept.keep_calm [OF load_calm]]) (rule after, use assms kept.trans in blast)
qed

lemma adopted_push: "adopted w res v \<Longrightarrow> adopted w res (push e v)"
  by (auto simp: adopted_def session_kept_def split: option.splits)

lemma adopted_closing: "adopted w res v \<Longrightarrow> adopted w res (closing E v)"
proof -
  assume "adopted w res v"
  moreover obtain a b where "closing E v = push (EvSys SysClose a) (push (EvSys SysUnlock b) v)"
    using closing_push by blast
  ultimately show ?thesis by (simp add: adopted_def session_kept_def split: option.splits)
qed

lemma initialize_adopted: "wp (initialize E r c) (adopted w) w"
proof (cases "r_store r")
  case None
  then show ?thesis
    unfolding initialize_def None option.case
    by (intro let_err_adopted [OF kept.keep_login kept.refl]) (rule adopt_adopted)
next
  case (Some dir)
  show ?thesis
    unfolding initialize_def Some option.case
    by (rule let_err_adopted [OF lock_account_kept kept.refl])
       (auto simp: wp_bind wp_close_lock wp_record_ev wp_ret
         intro!: wp_mono [OF initialize_locked_adopted] adopted_push adopted_closing)
qed

section \<open>Generations\<close>

lemma word_inc: "x \<noteq> - 1 \<Longrightarrow> x < x + 1" for x :: "64 word"
  by (meson inc_less_eq_triv_imp verit_comp_simplify1(3))

lemma next_generation_newer:
  "next_generation seen stored = 0 \<or> seen < next_generation seen stored \<or> seen = - 1"
proof (cases "seen = - 1 \<or> stored = - 1")
  case True
  then show ?thesis using word_inc [of seen] by (auto simp: next_generation_def Let_def)
next
  case False
  then have "seen < seen + 1" "stored < stored + 1" by (simp_all add: word_inc)
  then show ?thesis by (auto simp: next_generation_def Let_def)
qed

definition newer :: "64 word \<Rightarrow> go_error + (nat option \<times> 64 word) \<Rightarrow> bool" where
  "newer seen res = (case res of Inl e \<Rightarrow> True | Inr (j, g) \<Rightarrow> seen < g \<or> g = 0 \<or> seen = - 1)"

lemma publish_generation:
  "wp (publish_session E r dir c g res) (\<lambda>res w'. case res of Inl e \<Rightarrow> True | Inr (j, g') \<Rightarrow> g' = g) w"
proof (cases res)
  case (Inl e)
  show ?thesis
    unfolding publish_session_def Inl sum.case wp_bind by (rule wp_any) (simp add: wp_ret)
next
  case (Inr j)
  show ?thesis
    unfolding publish_session_def Inr sum.case wp_check_ok
    by (rule wp_any) (simp add: wp_ret split: option.split)
qed

lemma sign_in_generation:
  "wp (sign_in E r dir c st d g) (\<lambda>res w'. case res of Inl e \<Rightarrow> True | Inr (j, g') \<Rightarrow> g' = g) w"
proof -
  have signed: "wp (login E r c) (\<lambda>x. wp (publish_session E r dir c g x)
      (\<lambda>res w'. case res of Inl e \<Rightarrow> True | Inr (j, g') \<Rightarrow> g' = g)) v" for v
    by (rule wp_any) (rule publish_generation)
  show ?thesis
    unfolding sign_in_def Let_def
    by (auto simp: wp_simps intro!: wp_any [where m = "load_account_retry E dir c (r_key r)"] signed split: sum.split)
qed

lemma sign_in_newer: "wp (sign_in E r dir c st d (next_generation seen stored)) (\<lambda>res w'. newer seen res) w"
  by (rule wp_mono [OF sign_in_generation])
     (use next_generation_newer in \<open>auto simp: newer_def split: sum.splits\<close>)

lemma newer_Inl [simp]: "newer seen (Inl e)"
  by (simp add: newer_def)

lemma recover_newer: "wp (recover E r c seen) (\<lambda>res w'. newer seen res) w"
proof -
  have restored: "wp (let_ok (restore_record E stored) (\<lambda>j. ret (Inr (Some j, rec_generation stored))))
      (\<lambda>res w'. newer seen res) v" if "seen < rec_generation stored" for stored v
    unfolding wp_let_ok by (rule wp_any) (simp add: wp_ret newer_def that split: sum.split)
  have locked: "wp (recover_locked E r dir c seen) (\<lambda>res w'. newer seen res) v" for dir v
    unfolding recover_locked_def wp_bind [of "load _ _ _ _"]
    by (rule wp_any) (auto simp: wp_ret intro!: restored sign_in_newer split: prod.split option.split)
  have "newer seen (Inr (j, seen + 1))" for j
    using word_inc [of seen] by (auto simp: newer_def)
  then show ?thesis
    unfolding recover_def
    by (auto simp: wp_let_ok wp_bind wp_ret wp_close_lock wp_record_ev
        intro!: wp_any [where m = "login E r c"] wp_any [where m = "lock_account E _ c (r_key r)"]
          wp_mono [OF locked] split: option.split sum.split)
qed

section \<open>Properties\<close>

definition sample_refresher :: refresher where
  "sample_refresher = (new_refresher sample_auth)\<lparr>r_store := Some ''/cache'', r_key := sample_key\<rparr>"

text \<open>C18: A recovery never changes the session in use: whatever comes of it, the generation, the jar, the
  failure record and the flight of the refresher are as before, so that its caller decides; and the
  generation it proposes is newer than the lost one, unless the 64-bit counter wraps.\<close>

theorem recovery_proposes:
  "wp (recover E r c seen) (\<lambda>res w'.
      (\<exists>t. w_ref w' = (w_ref w)\<lparr>rf_not_before := t\<rparr>)
      \<and> (case res of Inl e \<Rightarrow> True | Inr (j, g) \<Rightarrow> seen < g \<or> g = 0 \<or> seen = - 1)) w"
  using wp_conj [OF wp_keeps [OF recover_kept] recover_newer]
  by (rule wp_mono) (simp add: session_kept_def newer_def)

text \<open>The wrap is real for a recovery: a stored generation of \<open>2 ^ 64 - 1\<close> is followed by 0, against
  which \<open>initialize\<close> is guarded and \<open>recover\<close> is not.\<close>

theorem recover_generation_wraps:
  "next_generation 5 (- 1) = 0 \<and> first_generation (- 1) = 1 \<and> (\<forall>g. first_generation g \<noteq> 0)"
  by (simp add: next_generation_def first_generation_def Let_def)

text \<open>An initialization adopts a session completely or not at all: when it fails, the refresher is as
  before but for the retry deadline, and when it succeeds only jar, generation and deadline changed.\<close>

theorem initialize_all_or_nothing:
  "wp (initialize E r c) (\<lambda>res w'. case res of
      Some e \<Rightarrow> (\<exists>t. w_ref w' = (w_ref w)\<lparr>rf_not_before := t\<rparr>)
    | None \<Rightarrow> (\<exists>j g t. w_ref w' = (w_ref w)\<lparr>rf_jar := j, rf_generation := g, rf_not_before := t\<rparr>)) w"
  by (rule wp_mono [OF initialize_adopted]) (auto simp: adopted_def session_kept_def split: option.splits)

lemma save_stored:
  "wp (save E dir c k r) (\<lambda>res w'. w_files w' (entry_file dir k) = w_files w (entry_file dir k)
      \<or> (\<exists>payload. encode_for E (fill_record k r) = Some payload
           \<and> w_files w' (entry_file dir k) = Some (new_file E payload))) w"
  by (rule wp_mono [OF save_post]) (auto simp: save_spec_def stored_in_def Let_def)

text \<open>C20: Invalidation touches only the generation that was refused: what a later process reads from the
  entry changes only when it is of that generation, and then to the same record without cookies and
  with the deadline.\<close>

theorem invalidates_its_generation_only:
  "wp (mark_entry E r dir generation deadline) (\<lambda>res w'.
      on_disk dir (r_key r) (w_files w') = on_disk dir (r_key r) (w_files w)
      \<or> (\<exists>stored. on_disk dir (r_key r) (w_files w) = Some stored \<and> rec_generation stored = generation
           \<and> on_disk dir (r_key r) (w_files w')
               = Some (sound_record (fill_record (r_key r)
                   (stored\<lparr>rec_cookies := [], rec_retry_not_before := deadline\<rparr>))))) w"
  unfolding mark_entry_def wp_bind [of "load _ _ _ _"]
proof (rule wp_mono [OF load_wp])
  let ?k = "r_key r"
  let ?cleared = "\<lambda>stored. stored\<lparr>rec_cookies := [], rec_retry_not_before := deadline\<rparr>"
  fix res v
  assume "load_spec E dir ?k (w_files w) res v \<and> dir_step dir w v"
  then have same: "on_disk dir ?k (w_files v) = on_disk dir ?k (w_files w)"
    and spec: "load_spec E dir ?k (w_files w) res v"
    by (auto simp: on_disk_dir_step)
  obtain stored err where res: "res = (stored, err)" by (cases res)
  have rewritten: "wp (save E dir detached ?k (?cleared stored)) (\<lambda>unsaved w'.
      on_disk dir ?k (w_files w') = on_disk dir ?k (w_files w)
      \<or> on_disk dir ?k (w_files w') = Some (sound_record (fill_record ?k (?cleared stored)))) v"
    if "on_disk dir ?k (w_files w) = Some stored"
  proof (rule wp_mono [OF save_stored])
    have "record_wf stored" using that by (auto simp: on_disk_def dest: decode_record_wf split: option.splits)
    then have ints: "record_ints (fill_record ?k (?cleared stored))"
      by (auto simp: record_wf_def record_ints_def fill_record_def current_store_version_def int64_ok_def)
    fix unsaved w'
    assume "w_files w' (entry_file dir ?k) = w_files v (entry_file dir ?k)
      \<or> (\<exists>payload. encode_for E (fill_record ?k (?cleared stored)) = Some payload
           \<and> w_files w' (entry_file dir ?k) = Some (new_file E payload))"
    then show "on_disk dir ?k (w_files w') = on_disk dir ?k (w_files w)
      \<or> on_disk dir ?k (w_files w') = Some (sound_record (fill_record ?k (?cleared stored)))"
    proof
      assume "w_files w' (entry_file dir ?k) = w_files v (entry_file dir ?k)"
      then show ?thesis using same by (simp add: on_disk_def)
    next
      assume "\<exists>payload. encode_for E (fill_record ?k (?cleared stored)) = Some payload
           \<and> w_files w' (entry_file dir ?k) = Some (new_file E payload)"
      then show ?thesis
        using record_reread [OF _ ints] by (auto simp: on_disk_def new_file_def encode_for_def)
    qed
  qed
  show "wp (case res of (stored, err) \<Rightarrow> case err of
          Some e \<Rightarrow> ret (if no_usable_entry e then (None, True) else (Some e, False))
        | None \<Rightarrow>
            if rec_generation stored \<noteq> generation then ret (None, False)
            else do { unsaved \<leftarrow> save E dir detached ?k (?cleared stored); ret (unsaved, unsaved = None) })
      (\<lambda>res w'. on_disk dir ?k (w_files w') = on_disk dir ?k (w_files w)
         \<or> (\<exists>stored. on_disk dir ?k (w_files w) = Some stored \<and> rec_generation stored = generation
              \<and> on_disk dir ?k (w_files w') = Some (sound_record (fill_record ?k (?cleared stored))))) v"
    using spec same load_on_disk [of E dir ?k "w_files w" stored v]
    by (auto simp: res wp_ret wp_bind intro!: wp_mono [OF rewritten] split: option.split)
qed

end
