(* ===== verification/Trace_Growth.thy ===== *)
theory Trace_Growth
  imports Session_Cycle
begin

text \<open>
  No operation rewrites history: the trace only grows. This is what lets a theorem speak of
  the moment before the first request of an operation.
\<close>

locale trace_preorder = open_preorder +
  assumes same_trace: "w_trace w' = w_trace w \<Longrightarrow> R w w'"
begin

lemma keep_modify_trace: "(\<And>w. w_trace (f w) = w_trace w) \<Longrightarrow> state_io_rel R (modify f)"
  by (rule keep_modify) (rule same_trace)

lemmas keep_trace = keep_open keep_modify_trace

lemma keep_update_ref: "state_io_rel R (update_ref f)"
  unfolding update_ref_def by (rule keep_modify_trace) simp

lemma keep_reject: "state_io_rel R (reject_symlinks E ps)"
  by (induction ps) (auto simp: lstat_def intro!: keep_trace split: sum.splits)

lemma keep_load: "state_io_rel R (load E dir c k)"
  unfolding load_def load_entry_def file_ops
  by (intro keep_trace keep_reject) simp_all

lemma keep_save: "state_io_rel R (save E dir c k r)"
  unfolding save_def file_ops
  by (intro keep_trace keep_reject) simp_all

lemma keep_load_retry: "state_io_rel R (load_account_retry E dir c k)"
  unfolding load_account_retry_def load_legacy_retry_def
  by (intro keep_trace keep_load)

lemma keep_save_retry: "state_io_rel R (save_account_retry E dir c k d)"
  unfolding save_account_retry_def
  by (intro keep_trace keep_save keep_load_retry)

lemma keep_load_step: "state_io_rel R (load_accepted_step E dir c k b)"
  unfolding load_accepted_step_def
  by (intro keep_trace keep_load)

lemma keep_save_step: "state_io_rel R (save_accepted_step E dir c k b s)"
  unfolding save_accepted_step_def
  by (intro keep_trace keep_save keep_load_step)

lemma keep_wait: "state_io_rel R (wait_for_step E c a n)"
  by (induction n) (auto simp: Let_def intro!: keep_trace)

lemma keep_before_hook: "state_io_rel R (before_hook E r c)"
  unfolding before_hook_def known_step_def accepted_otp_step_def remember_accepted_def wait_for_accepted_def
  by (intro keep_trace keep_load_step keep_wait) simp_all

lemma keep_accept_hook: "state_io_rel R (accept_hook E r c s)"
  unfolding accept_hook_def remember_accepted_def
  by (intro keep_trace keep_save_step) simp_all

sublocale trace_jar: jar_preorder R j for j
  by unfold_locales (rule same_trace, simp add: put_jar_def)

lemma keep_trace_new_jar: "state_io_rel R new_jar"
  by (auto simp: state_io_rel_def new_jar_def intro: same_trace)

lemma keep_trace_not_before: "state_io_rel R (set_not_before t)"
  unfolding set_not_before_def by (rule keep_update_ref)

lemma keep_trace_retry_delay: "state_io_rel R (retry_delay E r k err)"
  unfolding retry_delay_def backoff_def by (intro keep_trace) simp_all

lemma keep_trace_attempts: "state_io_rel R (attempts E r c k n)"
proof (induction n arbitrary: k)
  case 0
  then show ?case by (simp add: keep_ret)
next
  case (Suc n)
  have hs: "state_io_rel R (handshake E (r_auth r) j (Some (before_hook E r)) (Some (accept_hook E r c)) c)" for j
    by (rule trace_jar.keep_handshake) (auto intro: keep_before_hook keep_accept_hook)
  show ?case
    unfolding attempts.simps sit_out_def Let_def
    by (intro keep_trace keep_trace_new_jar hs Suc.IH keep_trace_retry_delay keep_trace_not_before) simp_all
qed

lemma keep_trace_login: "state_io_rel R (login E r c)"
  unfolding login_def release_otp_account_def acquire_otp_account_def Let_def
  by (intro keep_trace keep_trace_attempts) simp_all

lemma keep_trace_publish: "state_io_rel R (publish_session E r dir c g res)"
  unfolding publish_session_def save_record_def save_rate_limit_def
  by (intro keep_trace keep_save keep_save_retry) (simp_all add: put_jar_def)

lemma keep_trace_sign_in: "state_io_rel R (sign_in E r dir c st d g)"
  unfolding sign_in_def Let_def
  by (intro keep_trace keep_load_retry keep_trace_login keep_trace_publish)

lemma keep_trace_restore: "state_io_rel R (restore_record E stored)"
  unfolding restore_record_def
  by (intro keep_trace keep_trace_new_jar) (simp add: put_jar_def)

lemma keep_trace_start: "state_io_rel R (start_session E r dir c stored)"
  unfolding start_session_def adopt_def
  by (intro keep_trace keep_trace_sign_in keep_update_ref)

lemma keep_trace_probe: "state_io_rel R (still_valid E r c j)"
  unfolding still_valid_def
  by (intro keep_trace trace_jar.keep_client_do)

lemma keep_trace_initialize: "state_io_rel R (initialize_locked E r dir c)"
  unfolding initialize_locked_def
  by (intro keep_trace keep_load keep_trace_restore keep_trace_start keep_trace_probe keep_update_ref)

lemma keep_trace_recover: "state_io_rel R (recover_locked E r dir c seen)"
  unfolding recover_locked_def
  by (intro keep_trace keep_load keep_trace_restore keep_trace_sign_in)

lemma keep_trace_mark: "state_io_rel R (mark_entry E r dir g d)"
  unfolding mark_entry_def
  by (intro keep_trace keep_load keep_save)

end

interpretation ext: trace_preorder extends
  by unfold_locales (auto simp: extends_def)

section \<open>Nothing is sent before a deadline\<close>

definition sent_by :: "trace \<Rightarrow> exchange list" where
  "sent_by h = sent_of (filter (\<lambda>e. \<not> quiet e) (rev h))"

lemma sent_sent_by: "sent w = sent_by (w_trace w)"
  by (simp add: sent_def sent_by_def visible_def)

text \<open>At some point of the run nothing had been sent yet and the clock showed both deadlines passed.\<close>

definition waited_out :: "env \<Rightarrow> refresher \<Rightarrow> string \<Rightarrow> gtime \<Rightarrow> world \<Rightarrow> world \<Rightarrow> bool" where
  "waited_out E r dir entry_deadline w w' =
     (\<exists>g h h'. w_trace w' = g @ h' \<and> suffix h h' \<and> sent_by h' = sent w
        \<and> entry_deadline \<le> e_now E h
        \<and> not_after (on_disk dir (account_retry_key (r_key r)) (w_files w)) (e_now E h')
        \<and> not_after (on_disk dir (legacy_account_retry_key (r_key r)) (w_files w)) (e_now E h'))"

lemma waited_out_extends: "waited_out E r dir d w v \<Longrightarrow> extends v w' \<Longrightarrow> waited_out E r dir d w w'"
  unfolding waited_out_def extends_def by (metis append.assoc)

lemma not_after_mono: "not_after r d \<Longrightarrow> d \<le> d' \<Longrightarrow> not_after r d'"
  by (auto simp: not_after_def split: option.splits)

lemma load_retry_all:
  "wp (load_account_retry E dir c k) (\<lambda>x w'. sent w' = sent w \<and> extends w w' \<and>
     (\<forall>d. x = Inr d \<longrightarrow> not_after (on_disk dir (account_retry_key k) (w_files w)) d
        \<and> not_after (on_disk dir (legacy_account_retry_key k) (w_files w)) d)) w"
  by (rule wp_mono [OF wp_conj [OF wp_keeps [OF load_account_retry_calm]
        wp_conj [OF wp_keeps [OF ext.keep_load_retry] load_account_retry_post]]])
     (auto simp: calm_def sent_def)

lemma sign_in_waits:
  "wp (sign_in E r dir c st d g) (\<lambda>res w'. sent w' = sent w \<or> waited_out E r dir d w w') w"
proof (cases "0 < time_sub d (e_now E (w_trace w))")
  case True
  then show ?thesis by (simp add: sign_in_def wp_simps Let_def sent_def)
next
  case False
  then have d: "d \<le> e_now E (w_trace w)" by (simp add: time_sub_pos_iff)
  let ?v = "push (EvNow (e_now E (w_trace w))) w"
  have go: "wp (do { result \<leftarrow> login E r c; publish_session E r dir c g result })
      (\<lambda>res w'. sent w' = sent w \<or> waited_out E r dir d w w') u" if "waited_out E r dir d w u" for u
    by (rule wp_keeps_mono [of extends])
       (use that waited_out_extends in \<open>auto intro!: ext.keep_bind ext.keep_trace_login ext.keep_trace_publish\<close>)
  have pushed: "sent (push (EvNow t) u) = sent u" for t u by (simp add: sent_def)
  have ready: "waited_out E r dir d w (push (EvNow (e_now E (w_trace u))) u)"
    if u: "sent u = sent w" "extends ?v u"
      "not_after (on_disk dir (account_retry_key (r_key r)) (w_files w)) d'"
      "not_after (on_disk dir (legacy_account_retry_key (r_key r)) (w_files w)) d'"
      "\<not> 0 < time_sub d' (e_now E (w_trace u))" for u d'
  proof -
    have "d' \<le> e_now E (w_trace u)" using u(5) by (simp add: time_sub_pos_iff)
    moreover have "suffix (w_trace w) (w_trace u)" using u(2) by (auto simp: extends_def suffix_def)
    ultimately show ?thesis
      using u(1,3,4) d not_after_mono unfolding waited_out_def
      by (intro exI [of _ "[EvNow (e_now E (w_trace u))]"] exI [of _ "w_trace w"] exI [of _ "w_trace u"])
         (auto simp: sent_sent_by)
  qed
  show ?thesis
    unfolding sign_in_def Let_def wp_bind [of "now_op _"] wp_now if_not_P [OF False] wp_let_ok
    by (rule wp_mono [OF load_retry_all])
       (auto simp: wp_ret pushed intro!: go ready split: sum.split)
qed

text \<open>C4: While the deadline of the entry or of the account lies ahead, no request is sent: when a sign-in
  has sent anything, there was a moment before its first request at which the clock had passed the
  deadline of the entry it was given and every deadline stored for the account, the one under the
  account's raw spelling included.\<close>

theorem no_login_before_deadline:
  "wp (sign_in E r dir c stage entry_deadline next) (\<lambda>res w'. sent w' = sent w
     \<or> (\<exists>g h h'. w_trace w' = g @ h' \<and> suffix h h' \<and> sent_by h' = sent w
        \<and> entry_deadline \<le> e_now E h
        \<and> list_all (\<lambda>k. case on_disk dir k (w_files w) of None \<Rightarrow> True
                        | Some stored \<Rightarrow> rec_retry_not_before stored \<le> e_now E h')
            [account_retry_key (r_key r), legacy_account_retry_key (r_key r)])) w"
  by (rule wp_mono [OF sign_in_waits]) (auto simp: waited_out_def not_after_def)

end
