(* ===== verification/Lock_Order.thy ===== *)
theory Lock_Order
  imports Trace_Growth
begin

text \<open>
  What session.go does with the store, it does under the lock of the account. The trace holds every
  system call, so the reads and writes of the store are ordered against the lock here, and not only
  the requests and events an observer sees.
\<close>

text \<open>The system calls by which \<^verbatim>\<open>Load\<close> and \<^verbatim>\<open>Save\<close> get at the content of an entry; taking a lock
  makes none of them.\<close>

fun store_access :: "event \<Rightarrow> bool" where
  "store_access (EvSys s ok) = (s \<in> {SysRead, SysCreateTemp, SysChmod, SysWrite, SysFsync, SysRename,
     SysRemove, SysOpenDir, SysSyncDir})"
| "store_access _ = False"

definition spares_store :: "event \<Rightarrow> bool" where
  "spares_store e = (quiet e \<and> \<not> store_access e)"

definition aside_store :: "world \<Rightarrow> world \<Rightarrow> bool" where
  "aside_store w w' = (\<exists>g. w_trace w' = g @ w_trace w \<and> list_all spares_store g)"

definition unlocked :: "world \<Rightarrow> world \<Rightarrow> bool" where
  "unlocked w w' = (\<exists>g. w_trace w' = g @ w_trace w \<and> list_all (\<lambda>e. \<not> lock_event e) g)"

lemma grown_trans:
  "\<exists>g. w_trace v = g @ w_trace u \<and> list_all P g \<Longrightarrow> \<exists>g. w_trace w = g @ w_trace v \<and> list_all P g \<Longrightarrow>
     \<exists>g. w_trace w = g @ w_trace u \<and> list_all P g"
  by (metis append.assoc list_all_append)

interpretation asd: flow_preorder aside_store
proof unfold_locales
  show "aside_store u v \<Longrightarrow> aside_store v w \<Longrightarrow> aside_store u w" for u v w
    unfolding aside_store_def by (rule grown_trans)
qed (simp add: aside_store_def)

interpretation unl: trace_preorder unlocked
proof unfold_locales
  show "unlocked u v \<Longrightarrow> unlocked v w \<Longrightarrow> unlocked u w" for u v w
    unfolding unlocked_def by (rule grown_trans)
  show "quiet e \<Longrightarrow> unlocked w (push e w)" for e w by (cases e) (simp_all add: unlocked_def)
qed (simp_all add: unlocked_def)

lemma aside_push: "spares_store e \<Longrightarrow> aside_store w (push e w)"
  by (simp add: aside_store_def)

lemma aside_sys: "\<not> store_access (EvSys s True) \<Longrightarrow> state_io_rel aside_store (sys E s)"
  by (auto simp: state_io_rel_def sys_def observe_def Let_def spares_store_def intro!: aside_push)

lemma aside_context: "state_io_rel aside_store (context_err E c)"
  by (cases c) (auto simp: state_io_rel_def context_err_def observe_def Let_def spares_store_def intro!: aside_push asd.refl)

lemma aside_files: "state_io_rel aside_store (modify (\<lambda>w. w\<lparr>w_files := f w\<rparr>))"
  by (rule asd.keep_modify) (simp add: aside_store_def)

lemma aside_reject: "state_io_rel aside_store (reject_symlinks E ps)"
  by (induction ps) (auto simp: lstat_def intro!: asd.keep_plain aside_sys split: sum.splits)

lemmas aside_rules = asd.keep_plain aside_sys aside_context aside_files aside_reject

lemma aside_ensure_dir: "state_io_rel aside_store (ensure_dir E dir)"
  unfolding file_ops by (intro aside_rules) simp_all

lemma aside_open_lock: "state_io_rel aside_store (open_lock_file E p)"
  unfolding open_lock_file_def file_ops by (intro aside_rules) simp_all

lemma aside_unlock: "state_io_rel aside_store (unlock_file E)"
  unfolding unlock_file_def by (intro aside_rules) simp_all

section \<open>Taking the lock\<close>

text \<open>A lock is taken as the last step of its acquisition, or not at all.\<close>

definition taken :: "path \<Rightarrow> world \<Rightarrow> go_error option \<Rightarrow> world \<Rightarrow> bool" where
  "taken p w r w' =
     (if r = None then \<exists>u. aside_store w u \<and> w_trace w' = EvLocked p # w_trace u else aside_store w w')"

lemma taken_after: "aside_store w v \<Longrightarrow> taken p v r w' \<Longrightarrow> taken p w r w'"
  by (auto simp: taken_def intro: asd.trans split: if_splits)

lemma taken_err: "aside_store w w' \<Longrightarrow> taken p w (Some e) w'"
  by (simp add: taken_def)

lemma lock_poll_taken: "wp (lock_poll E c p n) (taken p w) w"
proof (induction n arbitrary: w)
  case 0
  then show ?case by (simp add: wp_simps taken_def asd.refl)
next
  case (Suc n)
  have again: "wp (lock_poll E c p n) (taken p w) v" if "aside_store w v" for v w
    using wp_mono [OF Suc.IH [of v]] taken_after [OF that] by blast
  have busy: "wp (then_ok (context_err E c) (lock_poll E c p n)) (taken p w) v" if "aside_store w v" for v w
    unfolding wp_then_ok using that
    by (intro wp_keeps_mono [OF aside_context])
       (auto intro!: again taken_err intro: asd.trans split: option.split)
  have granted: "wp (lock_granted E p) (taken p w) v" if "aside_store w v" for v w
    using that by (auto simp: wp_simps lock_granted_def taken_def)
  have stepped: "aside_store w (push e v)" if "aside_store w v" "spares_store e" for v w e
    using that asd.trans aside_push by blast
  have poll: "wp (do { st \<leftarrow> observe (\<lambda>h. e_flock E h p) (EvFlock p);
             case st of
               FlockOk \<Rightarrow> lock_granted E p
             | FlockFail \<Rightarrow> ret (Some (unsafe_err ''acquire lock''))
             | FlockBusy \<Rightarrow>
                 do { record_ev (EvSleep lock_poll_interval);
                      then_ok (context_err E c) (lock_poll E c p n) } }) (taken p w) v" if "aside_store w v" for v w
    using that
    by (cases "e_flock E (w_trace v) p")
       (auto simp: wp_bind wp_observe wp_record_ev wp_ret spares_store_def intro!: taken_err granted busy stepped)
  show ?case
    unfolding lock_poll.simps wp_then_ok
    by (intro wp_keeps_mono [OF aside_context])
       (auto intro!: poll [unfolded wp_then_ok] taken_err split: option.split)
qed

lemma poll_or_close_taken: "wp (poll_or_close E c p n) (taken p w) w"
  unfolding poll_or_close_def wp_bind
proof (rule wp_mono [OF lock_poll_taken])
  fix r v
  assume shown: "taken p w r v"
  show "wp (case r of None \<Rightarrow> ret None | Some e \<Rightarrow> do { _ \<leftarrow> unlock_file E; ret (Some e) }) (taken p w) v"
  proof (cases r)
    case None
    then show ?thesis using shown by (simp add: wp_ret)
  next
    case (Some e)
    then have "aside_store w v" using shown by (simp add: taken_def)
    then show ?thesis
      unfolding Some option.case wp_bind
      by (intro wp_keeps_mono [OF aside_unlock]) (auto simp: wp_ret intro: taken_err asd.trans)
  qed
qed

text \<open>The lock of a refresher's account is the one it names.\<close>

lemma lock_account_taken:
  "wp (lock_account E dir c (r_key r)) (\<lambda>x w'. case x of
      Inl e \<Rightarrow> aside_store w w'
    | Inr p \<Rightarrow> p = account_lock r dir \<and> (\<exists>u. aside_store w u \<and> w_trace w' = EvLocked p # w_trace u)) w"
proof -
  let ?p = "account_lock r dir"
  let ?Q = "\<lambda>x w'. case x of Inl e \<Rightarrow> aside_store w w'
    | Inr p \<Rightarrow> p = ?p \<and> (\<exists>u. aside_store w u \<and> w_trace w' = EvLocked p # w_trace u)"
  have poll: "wp (check_ok (poll_or_close E c ?p n) (ret (Inr ?p))) ?Q v" if "aside_store w v" for n v
    unfolding wp_check_ok
    by (rule wp_mono [OF poll_or_close_taken])
       (use taken_after [OF that] in \<open>fastforce simp: taken_def wp_ret split: option.splits\<close>)
  have checked: "wp (check_ok m k) ?Q v"
    if "state_io_rel aside_store m" "aside_store w v" "\<And>u. aside_store w u \<Longrightarrow> wp k ?Q u"
    for m and k :: "(world, go_error + path) state" and v
    unfolding wp_check_ok
    by (rule wp_keeps_mono [OF that(1)]) (use that asd.trans in \<open>auto split: option.split\<close>)
  show ?thesis
    unfolding lock_account_def acquire_lock_def Let_def account_lock_def [symmetric]
    by (intro checked aside_context asd.keep_ret aside_ensure_dir aside_open_lock asd.refl)
       (simp_all add: wp_bind wp_asks poll)
qed

section \<open>Under the lock\<close>

text \<open>A run that shows nothing and leaves the entries of the store alone until it holds the lock \<open>p\<close>, gives
  it back as its last step, and touches no lock between; or never takes it.\<close>

definition locked_run :: "path \<Rightarrow> world \<Rightarrow> world \<Rightarrow> bool" where
  "locked_run p w w' =
     (\<exists>before. list_all spares_store before \<and>
        (w_trace w' = before @ w_trace w
         \<or> (\<exists>inside. w_trace w' = EvUnlocked p # inside @ EvLocked p # before @ w_trace w
              \<and> list_all (\<lambda>e. \<not> lock_event e) inside)))"

lemma aside_locked_run: "aside_store w w' \<Longrightarrow> locked_run p w w'"
  unfolding aside_store_def locked_run_def by blast

lemma run_under_lock:
  assumes "state_io_rel unlocked m" and "aside_store w u" and "w_trace v = EvLocked p # w_trace u"
  shows "wp (do { result \<leftarrow> m; close_lock E p; ret result }) (\<lambda>res w'. locked_run p w w') v"
  unfolding wp_bind
proof (rule wp_keeps_mono [OF assms(1)])
  fix result v'
  assume "unlocked v v'"
  then obtain g before where g: "w_trace v' = g @ EvLocked p # before @ w_trace w"
      "list_all (\<lambda>e. \<not> lock_event e) g" "list_all spares_store before"
    using assms(2,3) by (auto simp: unlocked_def aside_store_def)
  obtain a b where "closing E v' = push (EvSys SysClose a) (push (EvSys SysUnlock b) v')"
    using closing_push by blast
  then have "w_trace (push (EvUnlocked p) (closing E v'))
      = EvUnlocked p # (EvSys SysClose a # EvSys SysUnlock b # g) @ EvLocked p # before @ w_trace w"
    using g(1) by simp
  moreover have "list_all (\<lambda>e. \<not> lock_event e) (EvSys SysClose a # EvSys SysUnlock b # g)" using g(2) by simp
  ultimately have "locked_run p w (push (EvUnlocked p) (closing E v'))"
    unfolding locked_run_def using g(3) by blast
  then show "wp (close_lock E p) (\<lambda>_. wp (ret result) (\<lambda>res. locked_run p w)) v'"
    by (simp add: wp_close_lock wp_ret)
qed

lemma recover_locked_run:
  assumes "r_store r = Some dir"
  shows "wp (recover E r c seen) (\<lambda>res w'. locked_run (account_lock r dir) w w') w"
  unfolding recover_def assms option.case wp_let_ok
  by (rule wp_mono [OF lock_account_taken])
     (auto simp: aside_locked_run intro!: run_under_lock [OF unl.keep_trace_recover] split: sum.splits)

lemma initialize_locked_run:
  assumes "r_store r = Some dir"
  shows "wp (initialize E r c) (\<lambda>res w'. locked_run (account_lock r dir) w w') w"
  unfolding initialize_def assms option.case wp_let_err
  by (rule wp_mono [OF lock_account_taken])
     (auto simp: aside_locked_run intro!: run_under_lock [OF unl.keep_trace_initialize] split: sum.splits)

lemma mark_locked_run:
  assumes "r_store r = Some dir"
  shows "wp (mark_ineffective E r g d) (\<lambda>res w'. locked_run (account_lock r dir) w w') w"
  unfolding mark_ineffective_def assms option.case wp_bind [of "lock_account _ _ _ _"]
  by (rule wp_mono [OF lock_account_taken])
     (auto simp: aside_locked_run wp_ret intro!: run_under_lock [OF unl.keep_trace_mark] split: sum.splits)

lemma locked_run_after: "aside_store w v \<Longrightarrow> locked_run p v w' \<Longrightarrow> locked_run p w w'"
  unfolding locked_run_def aside_store_def by (metis append.assoc list_all_append)

lemma persist_locked_run:
  assumes "r_store r = Some dir"
  shows "wp (persist_ineffective E r g failure) (\<lambda>res w'. locked_run (account_lock r dir) w w') w"
proof -
  have clock: "aside_store w (push (EvNow t) w)" for t by (rule aside_push) (simp add: spares_store_def)
  have same: "locked_run p w v \<Longrightarrow> locked_run p w (v\<lparr>w_ref := s\<rparr>)" for p v s by (simp add: locked_run_def)
  show ?thesis
    unfolding persist_ineffective_def Let_def wp_bind [of "now_op _"] wp_now wp_bind [of "mark_ineffective _ _ _ _"]
    by (rule wp_mono [OF mark_locked_run [OF assms]])
       (auto simp: wp_simps update_ref_def split: prod.split intro!: same elim!: locked_run_after [OF clock])
qed

text \<open>C17: With a store, obtaining, recovering and invalidating a session read and write the store, send
  and report only while they hold the lock of their account: up to taking it a run makes no request,
  reports nothing and neither reads nor writes an entry; giving it back is the last thing the run does;
  and no lock is taken or given back between. A run that does not get the lock does none of it.\<close>

theorem session_work_under_lock:
  assumes "r_store r = Some dir"
  shows "wp (initialize E r c) (\<lambda>res w'. locked_run (account_lock r dir) w w') w
     \<and> wp (recover E r c seen) (\<lambda>res w'. locked_run (account_lock r dir) w w') w
     \<and> wp (persist_ineffective E r seen failure) (\<lambda>res w'. locked_run (account_lock r dir) w w') w"
  using initialize_locked_run [OF assms] recover_locked_run [OF assms] persist_locked_run [OF assms]
  by simp

lemma session_work_under_lock_witness:
  "wp (recover sample_env sample_refresher (Ctx 1) 1)
     (\<lambda>res w'. locked_run (account_lock sample_refresher ''/cache'') sample_world w') sample_world"
proof -
  have "r_store sample_refresher = Some ''/cache''" by (simp add: sample_refresher_def)
  from session_work_under_lock [OF this] show ?thesis by blast
qed

end
