(* ===== verification/Otp_Semaphore.thy ===== *)
theory Otp_Semaphore
  imports Otp_Coordination
begin

text \<open>
  otp_coordination.go: the table of per-account semaphores as its goroutines see it. Every
  critical section under the coordination mutex and every channel operation is one step; any
  goroutine may move. A lock is an address, so that an entry deleted from the table and
  created again is a different lock; a semaphore is a channel of capacity one that holds its
  token or not.
\<close>

section \<open>State and steps\<close>

datatype pc = Idle | Joined string nat | Checking string nat | Holding string nat | Leaving string nat

record coordination =
  co_table :: "string \<rightharpoonup> nat"
  co_users :: "nat \<Rightarrow> nat"
  co_token :: "nat \<Rightarrow> bool"
  co_next :: nat
  co_pc :: "nat \<Rightarrow> pc"

definition init_coordination :: coordination where
  "init_coordination = \<lparr>co_table = Map.empty, co_users = (\<lambda>_. 0), co_token = (\<lambda>_. False), co_next = 0,
     co_pc = (\<lambda>_. Idle)\<rparr>"

definition move :: "nat \<Rightarrow> pc \<Rightarrow> coordination \<Rightarrow> coordination" where
  "move g p s = s\<lparr>co_pc := (co_pc s)(g := p)\<rparr>"

text \<open>The first critical section of \<open>acquireOTPAccount\<close>: find or create the lock and join it.\<close>

definition join_table :: "nat \<Rightarrow> string \<Rightarrow> coordination \<Rightarrow> coordination" where
  "join_table g i s =
     (case co_table s i of
        Some a \<Rightarrow> move g (Joined i a) (s\<lparr>co_users := (co_users s)(a := co_users s a + 1)\<rparr>)
      | None \<Rightarrow>
          let a = co_next s
          in move g (Joined i a)
               (s\<lparr>co_table := (co_table s)(i \<mapsto> a), co_users := (co_users s)(a := 1),
                  co_token := (co_token s)(a := True), co_next := a + 1\<rparr>))"

text \<open>The last one, on every way out: leave the lock, and drop it with its last user.\<close>

definition leave_table :: "nat \<Rightarrow> string \<Rightarrow> nat \<Rightarrow> coordination \<Rightarrow> coordination" where
  "leave_table g i a s =
     (let n = co_users s a - 1
      in move g Idle
           (s\<lparr>co_users := (co_users s)(a := n),
              co_table := (if n = 0 then (co_table s)(i := None) else co_table s)\<rparr>))"

definition set_token :: "nat \<Rightarrow> bool \<Rightarrow> coordination \<Rightarrow> coordination" where
  "set_token a b s = s\<lparr>co_token := (co_token s)(a := b)\<rparr>"

text \<open>
  A send on the semaphore waits for room. \<open>cancel\<close> is the context's end while waiting,
  \<open>refuse\<close> its end noticed after the token was taken, \<open>release\<close> the returned function.
\<close>

inductive sem_step :: "coordination \<Rightarrow> coordination \<Rightarrow> bool" where
  join: "co_pc s g = Idle \<Longrightarrow> sem_step s (join_table g i s)"
| take: "co_pc s g = Joined i a \<Longrightarrow> co_token s a \<Longrightarrow> sem_step s (move g (Checking i a) (set_token a False s))"
| cancel: "co_pc s g = Joined i a \<Longrightarrow> sem_step s (move g (Leaving i a) s)"
| pass: "co_pc s g = Checking i a \<Longrightarrow> sem_step s (move g (Holding i a) s)"
| refuse: "co_pc s g = Checking i a \<Longrightarrow> \<not> co_token s a \<Longrightarrow> sem_step s (move g (Leaving i a) (set_token a True s))"
| release: "co_pc s g = Holding i a \<Longrightarrow> \<not> co_token s a \<Longrightarrow> sem_step s (move g (Leaving i a) (set_token a True s))"
| leave: "co_pc s g = Leaving i a \<Longrightarrow> sem_step s (leave_table g i a s)"

inductive sem_reachable :: "coordination \<Rightarrow> bool" where
  start: "sem_reachable init_coordination"
| step: "sem_reachable s \<Longrightarrow> sem_step s t \<Longrightarrow> sem_reachable t"

section \<open>Invariants\<close>

fun lock_of :: "pc \<Rightarrow> (string \<times> nat) option" where
  "lock_of Idle = None"
| "lock_of (Joined i a) = Some (i, a)"
| "lock_of (Checking i a) = Some (i, a)"
| "lock_of (Holding i a) = Some (i, a)"
| "lock_of (Leaving i a) = Some (i, a)"

fun owner :: "pc \<Rightarrow> nat option" where
  "owner (Checking i a) = Some a"
| "owner (Holding i a) = Some a"
| "owner _ = None"

lemma owner_lock: "owner p = Some a \<Longrightarrow> \<exists>i. lock_of p = Some (i, a)"
  by (cases p) auto

definition users_at :: "coordination \<Rightarrow> nat \<Rightarrow> nat set" where
  "users_at s a = {g. \<exists>i. lock_of (co_pc s g) = Some (i, a)}"

text \<open>The table knows every lock in use, under its identity, and counts its users.\<close>

definition table_ok :: "coordination \<Rightarrow> bool" where
  "table_ok s =
     ((\<forall>g i a. lock_of (co_pc s g) = Some (i, a) \<longrightarrow> co_table s i = Some a)
      \<and> (\<forall>i a. co_table s i = Some a \<longrightarrow> a < co_next s \<and> users_at s a \<noteq> {})
      \<and> (\<forall>i j a. co_table s i = Some a \<longrightarrow> co_table s j = Some a \<longrightarrow> i = j)
      \<and> (\<forall>a. finite (users_at s a) \<and> co_users s a = card (users_at s a)))"

text \<open>The token of a lock is with its channel or with one goroutine.\<close>

definition tokens_ok :: "coordination \<Rightarrow> bool" where
  "tokens_ok s =
     (\<forall>i a. co_table s i = Some a \<longrightarrow>
        (co_token s a \<longleftrightarrow> (\<forall>g. owner (co_pc s g) \<noteq> Some a))
        \<and> (\<forall>g h. owner (co_pc s g) = Some a \<longrightarrow> owner (co_pc s h) = Some a \<longrightarrow> g = h))"

lemma users_at_move: "users_at (move g p s) a =
    (if \<exists>i. lock_of p = Some (i, a) then insert g (users_at s a) else users_at s a - {g})"
  by (auto simp: users_at_def move_def)

lemma users_at_fields [simp]:
  "users_at (s\<lparr>co_users := u\<rparr>) a = users_at s a" "users_at (s\<lparr>co_table := t\<rparr>) a = users_at s a"
  "users_at (s\<lparr>co_token := k\<rparr>) a = users_at s a" "users_at (s\<lparr>co_next := n\<rparr>) a = users_at s a"
  "users_at (set_token b v s) a = users_at s a"
  by (simp_all add: users_at_def set_token_def)

lemma move_fields [simp]:
  "co_table (move g p s) = co_table s" "co_users (move g p s) = co_users s"
  "co_token (move g p s) = co_token s" "co_next (move g p s) = co_next s"
  "co_pc (move g p s) = (co_pc s)(g := p)"
  by (simp_all add: move_def)

lemma set_token_fields [simp]:
  "co_table (set_token a b s) = co_table s" "co_users (set_token a b s) = co_users s"
  "co_token (set_token a b s) = (co_token s)(a := b)" "co_next (set_token a b s) = co_next s"
  "co_pc (set_token a b s) = co_pc s"
  by (simp_all add: set_token_def)

lemma table_okD:
  assumes "table_ok s"
  shows "lock_of (co_pc s g) = Some (i, a) \<Longrightarrow> co_table s i = Some a"
    and "co_table s i = Some a \<Longrightarrow> a < co_next s" and "co_table s i = Some a \<Longrightarrow> users_at s a \<noteq> {}"
    and "co_table s i = Some a \<Longrightarrow> co_table s j = Some a \<Longrightarrow> i = j"
    and "finite (users_at s a)" and "co_users s a = card (users_at s a)"
  using assms unfolding table_ok_def by blast+

text \<open>Moving between the states of one lock changes neither its users nor the table.\<close>

lemma table_ok_same:
  assumes "table_ok s" "\<And>h. lock_of (co_pc t h) = lock_of (co_pc s h)"
    and "co_table t = co_table s" "co_users t = co_users s" "co_next t = co_next s"
  shows "table_ok t"
  using assms by (simp add: table_ok_def users_at_def)

lemma users_at_join:
  assumes "co_pc s g = Idle"
  shows "users_at (join_table g i s) b =
    (if b = (case co_table s i of Some a \<Rightarrow> a | None \<Rightarrow> co_next s) then insert g (users_at s b) else users_at s b)"
proof -
  have "g \<notin> users_at s b" using assms by (simp add: users_at_def)
  then show ?thesis by (auto simp: join_table_def users_at_move Let_def split: option.split)
qed

lemma table_ok_join:
  assumes ok: "table_ok s" and idle: "co_pc s g = Idle"
  shows "table_ok (join_table g i s)"
proof -
  have new: "g \<notin> users_at s b" for b using idle by (simp add: users_at_def)
  note ua = users_at_join [OF idle]
  show ?thesis
  proof (cases "co_table s i")
    case (Some a)
    have t: "co_table (join_table g i s) = co_table s" "co_next (join_table g i s) = co_next s"
      "co_users (join_table g i s) = (co_users s)(a := co_users s a + 1)"
      "co_pc (join_table g i s) = (co_pc s)(g := Joined i a)"
      by (simp_all add: join_table_def Some)
    show ?thesis
      unfolding table_ok_def t ua Some option.case
      using table_okD [OF ok] Some new by (auto split: if_splits)
  next
    case None
    let ?a = "co_next s"
    have t: "co_table (join_table g i s) = (co_table s)(i \<mapsto> ?a)" "co_next (join_table g i s) = ?a + 1"
      "co_users (join_table g i s) = (co_users s)(?a := 1)"
      "co_pc (join_table g i s) = (co_pc s)(g := Joined i ?a)"
      by (simp_all add: join_table_def None Let_def)
    have old: "co_table s j \<noteq> Some ?a" for j using table_okD(2) [OF ok] by blast
    then have fresh: "users_at s ?a = {}"
      using table_okD(1) [OF ok] unfolding users_at_def by blast
    have upd: "((co_table s)(i \<mapsto> ?a)) j = Some b \<longleftrightarrow> (j = i \<and> b = ?a) \<or> (j \<noteq> i \<and> co_table s j = Some b)" for j b
      by auto
    have pcs: "lock_of (((co_pc s)(g := Joined i ?a)) h) = Some (j, b) \<longleftrightarrow>
        (h = g \<and> j = i \<and> b = ?a) \<or> (h \<noteq> g \<and> lock_of (co_pc s h) = Some (j, b))" for h j b
      by auto
    have "j \<noteq> i" if "lock_of (co_pc s h) = Some (j, b)" for h j b
      using table_okD(1) [OF ok that] None by auto
    then show ?thesis
      unfolding table_ok_def t ua None option.case upd pcs
      using table_okD [OF ok] old fresh new by (auto simp: less_Suc_eq)
  qed
qed

lemma table_ok_leave:
  assumes ok: "table_ok s" and pc: "co_pc s g = Leaving i a"
  shows "table_ok (leave_table g i a s)"
proof -
  let ?n = "co_users s a - 1"
  have lock: "lock_of (co_pc s g) = Some (i, a)" by (simp add: pc)
  have ti: "co_table s i = Some a" using table_okD(1) [OF ok lock] .
  have g: "g \<in> users_at s a" using lock by (auto simp: users_at_def)
  have ua: "users_at (leave_table g i a s) b = users_at s b - {g}" for b
    by (simp add: leave_table_def Let_def users_at_move)
  have other: "users_at s b - {g} = users_at s b" if "b \<noteq> a" for b
    using lock that by (auto simp: users_at_def)
  have n: "?n = card (users_at s a - {g})"
    using table_okD(5,6) [OF ok, of a] g by simp
  then have zero: "?n = 0 \<longleftrightarrow> users_at s a - {g} = {}"
    using table_okD(5) [OF ok, of a] by simp
  have t: "co_next (leave_table g i a s) = co_next s"
      "co_users (leave_table g i a s) = (co_users s)(a := ?n)"
      "co_pc (leave_table g i a s) = (co_pc s)(g := Idle)"
      "co_table (leave_table g i a s) = (if ?n = 0 then (co_table s)(i := None) else co_table s)"
    by (simp_all add: leave_table_def Let_def)
  have still: "co_table (leave_table g i a s) j = Some b" if "lock_of (co_pc s h) = Some (j, b)" "h \<noteq> g" for h j b
  proof (cases "j = i")
    case True
    then have "b = a" using table_okD(1) [OF ok that(1)] ti by simp
    then have "h \<in> users_at s a - {g}" using that by (auto simp: users_at_def)
    then show ?thesis using zero True ti \<open>b = a\<close> by (auto simp: t)
  qed (use table_okD(1) [OF ok that(1)] in \<open>simp add: t\<close>)
  have sub: "co_table (leave_table g i a s) j = Some b \<Longrightarrow> co_table s j = Some b" for j b
    by (simp add: t split: if_splits)
  have used: "users_at s b - {g} \<noteq> {}" if "co_table (leave_table g i a s) j = Some b" for j b
  proof (cases "b = a")
    case True
    then have "j = i" using table_okD(4) [OF ok sub [OF that]] ti by simp
    then have "?n \<noteq> 0" using that by (auto simp: t split: if_splits)
    then show ?thesis using zero True by simp
  qed (use other table_okD(3) [OF ok sub [OF that]] in simp)
  show ?thesis
    unfolding table_ok_def ua
  proof (intro conjI allI impI)
    show "co_table (leave_table g i a s) j = Some b" if "lock_of (co_pc (leave_table g i a s) h) = Some (j, b)" for h j b
      using that still [of h j b] by (cases "h = g") (simp_all add: t(3))
    show "b < co_next (leave_table g i a s)" if "co_table (leave_table g i a s) j = Some b" for j b
      using table_okD(2) [OF ok sub [OF that]] by (simp add: t)
    show "j = k" if "co_table (leave_table g i a s) j = Some b" "co_table (leave_table g i a s) k = Some b" for j k b
      using table_okD(4) [OF ok sub [OF that(1)] sub [OF that(2)]] .
    show "finite (users_at s b - {g})" for b using table_okD(5) [OF ok] by simp
    show "co_users (leave_table g i a s) b = card (users_at s b - {g})" for b
      using table_okD(6) [OF ok, of b] n other [of b] by (cases "b = a") (simp_all add: t)
  qed (fact used)
qed

text \<open>Tokens: who owns one, and where the others are.\<close>

lemma tokens_okD:
  assumes "tokens_ok s" "co_table s i = Some a"
  shows "co_token s a \<Longrightarrow> owner (co_pc s g) \<noteq> Some a"
    and "\<not> co_token s a \<Longrightarrow> \<exists>g. owner (co_pc s g) = Some a"
    and "owner (co_pc s g) = Some a \<Longrightarrow> owner (co_pc s h) = Some a \<Longrightarrow> g = h"
  using assms unfolding tokens_ok_def by blast+

definition coordination_ok :: "coordination \<Rightarrow> bool" where
  "coordination_ok s = (table_ok s \<and> tokens_ok s)"

text \<open>One goroutine takes the token of a lock, gives it back, or leaves it where it is.\<close>

lemma tokens_ok_step:
  assumes tok: "tokens_ok s" and table: "\<And>j b. co_table t j = Some b \<Longrightarrow> co_table s j = Some b"
    and others: "\<And>h. h \<noteq> g \<Longrightarrow> owner (co_pc t h) = owner (co_pc s h)"
    and tokens: "\<And>b. b \<noteq> a \<Longrightarrow> co_token t b = co_token s b"
    and own: "owner (co_pc s g) = None \<or> owner (co_pc s g) = Some a"
    and moved: "(co_token t a = co_token s a \<and> owner (co_pc t g) = owner (co_pc s g))
      \<or> (co_token s a \<and> owner (co_pc s g) = None \<and> \<not> co_token t a \<and> owner (co_pc t g) = Some a)
      \<or> (\<not> co_token s a \<and> owner (co_pc s g) = Some a \<and> co_token t a \<and> owner (co_pc t g) = None)"
  shows "tokens_ok t"
  unfolding tokens_ok_def
proof (intro allI impI)
  fix j b
  assume "co_table t j = Some b"
  note D = tokens_okD [OF tok table [OF this]]
  show "(co_token t b \<longleftrightarrow> (\<forall>g. owner (co_pc t g) \<noteq> Some b))
      \<and> (\<forall>g h. owner (co_pc t g) = Some b \<longrightarrow> owner (co_pc t h) = Some b \<longrightarrow> g = h)"
  proof (cases "b = a")
    case True
    from moved show ?thesis
    proof (elim disjE conjE)
      assume "co_token t a = co_token s a" "owner (co_pc t g) = owner (co_pc s g)"
      then have "owner (co_pc t h) = owner (co_pc s h)" for h using others by (cases "h = g") auto
      then show ?thesis using D True \<open>co_token t a = co_token s a\<close> by (cases "co_token s a") auto
    next
      assume t: "co_token s a" "\<not> co_token t a" "owner (co_pc t g) = Some a"
      have "owner (co_pc s h) \<noteq> Some a" for h using D(1) t(1) True by simp
      then have "owner (co_pc t h) = Some a \<longleftrightarrow> h = g" for h using others t(3) by (cases "h = g") auto
      then show ?thesis using t True by simp
    next
      assume t: "owner (co_pc s g) = Some a" "co_token t a" "owner (co_pc t g) = None"
      have "owner (co_pc s h) = Some a \<Longrightarrow> h = g" for h using D(3) t(1) True by simp
      then have "owner (co_pc t h) \<noteq> Some a" for h using others t(3) by (cases "h = g") auto
      then show ?thesis using t True by simp
    qed
  next
    case False
    then have "owner (co_pc t h) = Some b \<longleftrightarrow> owner (co_pc s h) = Some b" for h
      using moved own others by (cases "h = g") auto
    then show ?thesis using D tokens [OF False] by blast
  qed
qed

lemma owner_table: "table_ok s \<Longrightarrow> owner (co_pc s g) = Some a \<Longrightarrow> \<exists>i. co_table s i = Some a"
  using table_okD(1) owner_lock by blast

lemma sem_step_ok:
  assumes "sem_step s t" "coordination_ok s"
  shows "coordination_ok t"
proof -
  have ok: "table_ok s" and tok: "tokens_ok s" using assms(2) by (simp_all add: coordination_ok_def)
  from assms(1) show ?thesis
  proof (cases rule: sem_step.cases)
    case (join g i)
    have "owner (co_pc s h) \<noteq> Some (co_next s)" and "co_table s j \<noteq> Some (co_next s)" for h j
      using owner_table [OF ok] table_okD(2) [OF ok] by blast+
    moreover have same: "owner (co_pc (join_table g i s) h) = owner (co_pc s h)" for h
      by (simp add: join_table_def join(2) Let_def split: option.split)
    ultimately have "tokens_ok (join_table g i s)"
      using tok unfolding tokens_ok_def same
      by (auto simp: join_table_def Let_def split: option.split if_splits)
    then show ?thesis using table_ok_join [OF ok join(2)] join(1) by (simp add: coordination_ok_def)
  next
    case (take g i a)
    have ti: "co_table s i = Some a" using table_okD(1) [OF ok, of g i a] take(2) by simp
    have "tokens_ok t"
      by (rule tokens_ok_step [OF tok, where g = g and a = a])
         (use take tokens_okD(1) [OF tok ti take(3)] in auto)
    moreover have "table_ok t" using take by (intro table_ok_same [OF ok]) auto
    ultimately show ?thesis by (simp add: coordination_ok_def)
  next
    case (cancel g i a)
    have "table_ok t" using cancel by (intro table_ok_same [OF ok]) auto
    moreover have "tokens_ok t"
      by (rule tokens_ok_step [OF tok, where g = g and a = a]) (use cancel in auto)
    ultimately show ?thesis by (simp add: coordination_ok_def)
  next
    case (pass g i a)
    have "tokens_ok t"
      by (rule tokens_ok_step [OF tok, where g = g and a = a]) (use pass in auto)
    moreover have "table_ok t" using pass by (intro table_ok_same [OF ok]) auto
    ultimately show ?thesis by (simp add: coordination_ok_def)
  next
    case (refuse g i a)
    have "tokens_ok t"
      by (rule tokens_ok_step [OF tok, where g = g and a = a]) (use refuse in auto)
    moreover have "table_ok t" using refuse by (intro table_ok_same [OF ok]) auto
    ultimately show ?thesis by (simp add: coordination_ok_def)
  next
    case (release g i a)
    have "tokens_ok t"
      by (rule tokens_ok_step [OF tok, where g = g and a = a]) (use release in auto)
    moreover have "table_ok t" using release by (intro table_ok_same [OF ok]) auto
    ultimately show ?thesis by (simp add: coordination_ok_def)
  next
    case (leave g i a)
    have "tokens_ok t"
      by (rule tokens_ok_step [OF tok, where g = g and a = a])
         (use leave in \<open>auto simp: leave_table_def Let_def split: if_splits\<close>)
    then show ?thesis using table_ok_leave [OF ok leave(2)] leave(1) by (simp add: coordination_ok_def)
  qed
qed

lemma init_ok: "coordination_ok init_coordination"
  by (simp add: coordination_ok_def table_ok_def tokens_ok_def init_coordination_def users_at_def)

lemma reachable_ok: "sem_reachable s \<Longrightarrow> coordination_ok s"
  by (induction rule: sem_reachable.induct) (auto intro: init_ok sem_step_ok)

section \<open>Properties\<close>

text \<open>C19: At most one goroutine holds an account at any time, although the entry of the account may have
  been deleted and created again any number of times.\<close>

theorem semaphore_exclusive:
  assumes "sem_reachable s" and "co_pc s g = Holding i a" and "co_pc s h = Holding i b"
  shows "g = h \<and> a = b"
proof -
  have ok: "table_ok s" "tokens_ok s"
    using reachable_ok [OF assms(1)] by (simp_all add: coordination_ok_def)
  have "co_table s i = Some a" "co_table s i = Some b"
    using table_okD(1) [OF ok(1), of g i a] table_okD(1) [OF ok(1), of h i b] assms(2,3) by simp_all
  then show ?thesis using tokens_okD(3) [OF ok(2), of i a g h] assms(2,3) by simp
qed

definition sample_holding :: coordination where
  "sample_holding = move 0 (Holding ''x'' 0) (move 0 (Checking ''x'' 0) (set_token 0 False
     (join_table 0 ''x'' init_coordination)))"

lemma sample_joined: "co_pc (join_table 0 ''x'' init_coordination) = (co_pc init_coordination)(0 := Joined ''x'' 0)"
  "co_token (join_table 0 ''x'' init_coordination) 0" "co_pc init_coordination 0 = Idle"
  by (simp_all add: join_table_def init_coordination_def Let_def)

lemma sample_holding_reachable: "sem_reachable sample_holding"
proof -
  have "sem_reachable (join_table 0 ''x'' init_coordination)"
    by (rule sem_reachable.step [OF sem_reachable.start sem_step.join]) (rule sample_joined)
  then have "sem_reachable (move 0 (Checking ''x'' 0) (set_token 0 False (join_table 0 ''x'' init_coordination)))"
    by (rule sem_reachable.step) (rule sem_step.take, simp_all add: sample_joined)
  then show ?thesis
    unfolding sample_holding_def by (rule sem_reachable.step) (rule sem_step.pass, simp)
qed

lemma semaphore_exclusive_witness:
  "{(h, b). co_pc sample_holding h = Holding ''x'' b} = {(0, 0)}"
proof -
  have held: "co_pc sample_holding 0 = Holding ''x'' 0" by (simp add: sample_holding_def)
  then show ?thesis
    using semaphore_exclusive [OF sample_holding_reachable held] by blast
qed

text \<open>The table holds exactly the accounts some goroutine is at, each with its exact number of users:
  nothing leaks, and no entry is dropped while someone still uses it.\<close>

theorem semaphore_table_exact:
  assumes "sem_reachable s"
  shows "(co_table s i = None \<longleftrightarrow> (\<forall>g a. lock_of (co_pc s g) \<noteq> Some (i, a)))
     \<and> (co_table s i = Some a \<longrightarrow> finite (users_at s a) \<and> co_users s a = card (users_at s a) \<and> 0 < co_users s a)"
proof -
  have ok: "table_ok s" using reachable_ok [OF assms] by (simp add: coordination_ok_def)
  have "\<exists>g. lock_of (co_pc s g) = Some (i, b)" if at: "co_table s i = Some b" for b
  proof -
    obtain g j where g: "lock_of (co_pc s g) = Some (j, b)"
      using table_okD(3) [OF ok at] by (auto simp: users_at_def)
    then have "j = i" using table_okD(4) [OF ok table_okD(1) [OF ok g] at] by blast
    then show ?thesis using g by blast
  qed
  then show ?thesis
    using table_okD [OF ok] by (fastforce simp: card_gt_0_iff)
qed

lemma semaphore_table_exact_witness:
  "co_table sample_holding ''x'' = Some 0 \<and> 0 < co_users sample_holding 0"
proof -
  have "co_table sample_holding ''x'' = Some 0"
    by (simp add: sample_holding_def join_table_def init_coordination_def Let_def)
  then show ?thesis
    using semaphore_table_exact [OF sample_holding_reachable, of "''x''" 0] by blast
qed

text \<open>Nobody gets stuck: a goroutine that must give its token back finds room in the channel, and one
  that waits can take the token unless another goroutine of the same account has it, which is then
  itself able to move on.\<close>

theorem semaphore_progress:
  assumes "sem_reachable s" and "lock_of (co_pc s g) = Some (i, a)"
  shows "(owner (co_pc s g) = Some a \<longrightarrow> \<not> co_token s a)
     \<and> (co_token s a \<or> (\<exists>h. owner (co_pc s h) = Some a \<and> lock_of (co_pc s h) = Some (i, a)))"
proof -
  have ok: "table_ok s" "tokens_ok s"
    using reachable_ok [OF assms(1)] by (simp_all add: coordination_ok_def)
  have t: "co_table s i = Some a" using table_okD(1) [OF ok(1) assms(2)] .
  have "lock_of (co_pc s h) = Some (i, a)" if "owner (co_pc s h) = Some a" for h
    using owner_lock [OF that] table_okD(1,4) [OF ok(1)] t by blast
  then show ?thesis using tokens_okD [OF ok(2) t] by blast
qed

lemma semaphore_progress_witness: "\<not> co_token sample_holding 0"
  using semaphore_progress [OF sample_holding_reachable, of 0 "''x''" 0] by (simp add: sample_holding_def)

end
