(* ===== verification/Single_Flight.thy ===== *)
theory Single_Flight
  imports Session_Cycle
begin

text \<open>
  session.go: \<open>refresh\<close> and \<open>noteIneffective\<close>. What one call decides under the mutex and
  what a finished recovery leaves behind are functions, used twice: by \<open>refresh\<close> as one
  goroutine runs it, and by a step relation over any number of goroutines. A \<^verbatim>\<open>done\<close> channel
  is a number, new for every flight.
\<close>

section \<open>Under the mutex\<close>

datatype verdict = Retry | Await nat | Refused go_error | Cooling go_error duration | Lead

definition flight_of :: "refresher_state \<Rightarrow> go_error option" where
  "flight_of s = rf_last_err s"

text \<open>\<open>t1\<close>, \<open>t2\<close> and \<open>t3\<close> are the three readings of the clock.\<close>

definition decide :: "refresher \<Rightarrow> gtime \<Rightarrow> gtime \<Rightarrow> gtime \<Rightarrow> refresher_state \<Rightarrow> 64 word \<Rightarrow> verdict" where
  "decide r t1 t2 t3 s seen =
     (if rf_generation s \<noteq> seen then Retry
      else case rf_in_flight s of
        Some channel \<Rightarrow> Await channel
      | None \<Rightarrow>
          let remaining = time_sub (rf_not_before s) t1
          in if 0 < remaining
             then Refused (case rf_last_err s of
                             Some e \<Rightarrow> e
                           | None \<Rightarrow> AuthErr AuthStageSessionRecovery AuthKindRateLimited None remaining)
             else case rf_last_err s of
                    None \<Rightarrow> Lead
                  | Some e \<Rightarrow>
                      if \<not> is_zero (rf_last_failure_at s) \<and> time_sub t2 (rf_last_failure_at s) < r_cooldown r
                      then Cooling e (r_cooldown r - time_sub t3 (rf_last_failure_at s))
                      else Lead)"

definition take_off :: "nat \<Rightarrow> refresher_state \<Rightarrow> refresher_state" where
  "take_off channel s = s\<lparr>rf_in_flight := Some channel\<rparr>"

definition landed :: "go_error + (nat option \<times> 64 word) \<Rightarrow> gtime \<Rightarrow> refresher_state \<Rightarrow> refresher_state" where
  "landed result now s =
     (case result of
        Inl e \<Rightarrow> s\<lparr>rf_last_err := Some e, rf_last_failure_at := now, rf_in_flight := None\<rparr>
      | Inr (j, g) \<Rightarrow>
          s\<lparr>rf_last_err := None, rf_jar := j, rf_generation := g, rf_last_failure_at := zero_time,
            rf_not_before := zero_time, rf_in_flight := None\<rparr>)"

section \<open>refresh in one goroutine\<close>

definition cooldown_event :: "duration \<Rightarrow> auth_event" where
  "cooldown_event remaining =
     (new_event AuthEventCooldown AuthStageSessionRecovery reason_cooldown outcome_skipped)
       \<lparr>ev_retry_after := remaining\<rparr>"

text \<open>
  The wait for a flight: the caller's context may end first, and when both are ready the
  choice is the runtime's. \<open>await_flight\<close> waits for another goroutine's flight, whose end
  is the environment's: a caller whose own context ends first leaves it in the air. \<open>lead_flight\<close>
  runs its own recovery to its end; that a leader may give up while its recovery goes on is a step
  of \<open>flight_step\<close>.
\<close>

definition flight_result :: "env \<Rightarrow> ctx \<Rightarrow> (world, go_error option) state" where
  "flight_result E c =
     do { ended \<leftarrow> context_err E c;
          coin \<leftarrow> observe (e_rand E) EvRand;
          last_err \<leftarrow> asks (\<lambda>w. rf_last_err (w_ref w));
          ret (case ended of Some e \<Rightarrow> if coin = 0 then Some e else last_err | None \<Rightarrow> last_err) }"

text \<open>The context of a recovery: bounded by a deadline of its own and by the life of the client.\<close>

definition recovery_ctx :: ctx where "recovery_ctx = Ctx 1"

definition await_flight :: "env \<Rightarrow> ctx \<Rightarrow> (world, go_error option) state" where
  "await_flight E c =
     do { ended \<leftarrow> context_err E c;
          coin \<leftarrow> observe (e_rand E) EvRand;
          let gives_up = (ended \<noteq> None \<and> coin = 0);
          s \<leftarrow> asks (\<lambda>w. e_flight E (w_trace w));
          update_ref (\<lambda>_. if gives_up then s else s\<lparr>rf_in_flight := None\<rparr>);
          ret (if gives_up then ended else rf_last_err s) }"

definition lead_flight :: "env \<Rightarrow> refresher \<Rightarrow> ctx \<Rightarrow> 64 word \<Rightarrow> (world, go_error option) state" where
  "lead_flight E r c seen =
     do { update_ref (take_off 0);
          result \<leftarrow> recover E r recovery_ctx seen;
          now \<leftarrow> now_op E;
          update_ref (landed result now);
          flight_result E c }"

text \<open>\<open>decide\<close> with the clock read where the code reads it.\<close>

definition decide_op :: "env \<Rightarrow> refresher \<Rightarrow> 64 word \<Rightarrow> (world, verdict) state" where
  "decide_op E r seen =
     do { s \<leftarrow> asks w_ref;
          if rf_generation s \<noteq> seen then ret Retry
          else case rf_in_flight s of
            Some channel \<Rightarrow> ret (Await channel)
          | None \<Rightarrow>
              do { t1 \<leftarrow> now_op E;
                   if 0 < time_sub (rf_not_before s) t1 \<or> rf_last_err s = None \<or> is_zero (rf_last_failure_at s)
                   then ret (decide r t1 t1 t1 s seen)
                   else do { t2 \<leftarrow> now_op E;
                             if r_cooldown r \<le> time_sub t2 (rf_last_failure_at s) then ret Lead
                             else do { t3 \<leftarrow> now_op E; ret (decide r t1 t2 t3 s seen) } } } }"

definition act_on ::
  "env \<Rightarrow> refresher \<Rightarrow> ctx \<Rightarrow> 64 word \<Rightarrow> verdict \<Rightarrow> (world, go_error option) state" where
  "act_on E r c seen verdict =
     (case verdict of
        Retry \<Rightarrow> ret None
      | Await channel \<Rightarrow> await_flight E c
      | Refused e \<Rightarrow> ret (Some e)
      | Cooling e remaining \<Rightarrow>
          do { emit (au_on_event (r_auth r)) (cooldown_event remaining); ret (Some e) }
      | Lead \<Rightarrow> lead_flight E r c seen)"

definition refresh :: "env \<Rightarrow> refresher \<Rightarrow> ctx \<Rightarrow> 64 word \<Rightarrow> (world, go_error option) state" where
  "refresh E r c seen =
     then_ok (context_err E c) (State_Monad.bind (decide_op E r seen) (act_on E r c seen))"

definition note_ineffective :: "env \<Rightarrow> refresher \<Rightarrow> ctx \<Rightarrow> 64 word \<Rightarrow> go_error \<Rightarrow> (world, go_error option) state" where
  "note_ineffective E r c generation failure =
     do { s \<leftarrow> asks w_ref;
          if rf_generation s \<noteq> generation \<or> rf_in_flight s \<noteq> None then ret None
          else do { update_ref (take_off 0);
                    result \<leftarrow> persist_ineffective E r generation failure;
                    ended \<leftarrow> context_err E c;
                    coin \<leftarrow> observe (e_rand E) EvRand;
                    ret (case ended of Some e \<Rightarrow> if coin = 0 then Some e else result | None \<Rightarrow> result) } }"

section \<open>refresh in many goroutines\<close>

datatype caller = Ready | Awaiting nat | Noting nat | Returned "go_error option"

datatype work = Recovering "64 word" | Marking "64 word" go_error

text \<open>
  \<open>fl_log\<close>, newest first, is what the goroutines did, in the order of their critical sections;
  the code keeps no such log. \<open>fl_result\<close> is the buffered channel of \<open>noteIneffective\<close>. \<open>Began\<close> carries the readings of the clock that let it begin.
\<close>

datatype milestone = Published "64 word" | Began "64 word" gtime gtime | Failed gtime
  | Reserved "64 word" | Marked bool gtime

record flights =
  fl_ref :: refresher_state
  fl_next :: nat
  fl_closed :: "nat set"
  fl_work :: "nat \<rightharpoonup> work"
  fl_pc :: "nat \<Rightarrow> caller"
  fl_result :: "nat \<rightharpoonup> go_error option"
  fl_log :: "milestone list"

definition init_flights :: "refresher_state \<Rightarrow> flights" where
  "init_flights s = \<lparr>fl_ref = s\<lparr>rf_in_flight := None\<rparr>, fl_next = 0, fl_closed = {}, fl_work = Map.empty,
     fl_pc = (\<lambda>_. Ready), fl_result = Map.empty, fl_log = [Published (rf_generation s)]\<rparr>"

definition depart :: "nat \<Rightarrow> (nat \<Rightarrow> caller) \<Rightarrow> work \<Rightarrow> milestone \<Rightarrow> flights \<Rightarrow> flights" where
  "depart g p k m s =
     s\<lparr>fl_ref := take_off (fl_next s) (fl_ref s), fl_work := (fl_work s)(fl_next s \<mapsto> k),
       fl_next := fl_next s + 1, fl_pc := (fl_pc s)(g := p (fl_next s)), fl_log := m # fl_log s\<rparr>"

definition arrive :: "nat \<Rightarrow> (refresher_state \<Rightarrow> refresher_state) \<Rightarrow> milestone \<Rightarrow> flights \<Rightarrow> flights" where
  "arrive channel f m s =
     s\<lparr>fl_ref := f (fl_ref s), fl_work := (fl_work s)(channel := None),
       fl_closed := insert channel (fl_closed s), fl_log := m # fl_log s\<rparr>"

definition caller_to :: "nat \<Rightarrow> caller \<Rightarrow> flights \<Rightarrow> flights" where
  "caller_to g p s = s\<lparr>fl_pc := (fl_pc s)(g := p)\<rparr>"

text \<open>What \<open>persist_ineffective\<close> leaves behind (session.go, the deferred function).\<close>

definition marked :: "refresher \<Rightarrow> bool \<Rightarrow> go_error \<Rightarrow> go_error option \<Rightarrow> gtime \<Rightarrow> refresher_state \<Rightarrow> refresher_state" where
  "marked r apply_cooldown failure result now s =
     (if apply_cooldown
      then s\<lparr>rf_last_err := Some failure, rf_last_failure_at := now, rf_not_before := now + r_cooldown r\<rparr>
      else s\<lparr>rf_last_err := result\<rparr>)\<lparr>rf_in_flight := None\<rparr>"

text \<open>
  \<open>expired\<close> and \<open>give_up\<close> are the end of the caller's context, before it starts and while
  it waits; \<open>deadline\<close> is what a handshake in flight learns from the server. What a recovery
  proposes as generation is what \<open>recovery_proposes\<close> shows of \<open>recover\<close>.
\<close>

inductive flight_step :: "refresher \<Rightarrow> flights \<Rightarrow> flights \<Rightarrow> bool" for r where
  expired: "fl_pc s g = Ready \<Longrightarrow> ctx_error st = Some e \<Longrightarrow>
    flight_step r s (caller_to g (Returned (Some e)) s)"
| retry: "fl_pc s g = Ready \<Longrightarrow> decide r t1 t2 t3 (fl_ref s) seen = Retry \<Longrightarrow>
    flight_step r s (caller_to g (Returned None) s)"
| await: "fl_pc s g = Ready \<Longrightarrow> decide r t1 t2 t3 (fl_ref s) seen = Await channel \<Longrightarrow>
    flight_step r s (caller_to g (Awaiting channel) s)"
| refused: "fl_pc s g = Ready \<Longrightarrow> decide r t1 t2 t3 (fl_ref s) seen = Refused e \<Longrightarrow>
    flight_step r s (caller_to g (Returned (Some e)) s)"
| cooling: "fl_pc s g = Ready \<Longrightarrow> decide r t1 t2 t3 (fl_ref s) seen = Cooling e d \<Longrightarrow>
    flight_step r s (caller_to g (Returned (Some e)) s)"
| lead: "fl_pc s g = Ready \<Longrightarrow> decide r t1 t2 t3 (fl_ref s) seen = Lead \<Longrightarrow>
    flight_step r s (depart g Awaiting (Recovering seen) (Began seen t1 t2) s)"
| note_skipped: "fl_pc s g = Ready \<Longrightarrow> rf_generation (fl_ref s) \<noteq> gen \<or> rf_in_flight (fl_ref s) \<noteq> None \<Longrightarrow>
    flight_step r s (caller_to g (Returned None) s)"
| note_begun: "fl_pc s g = Ready \<Longrightarrow> rf_generation (fl_ref s) = gen \<Longrightarrow> rf_in_flight (fl_ref s) = None \<Longrightarrow>
    flight_step r s (depart g Noting (Marking gen e) (Reserved gen) s)"
| deadline: "fl_work s channel = Some (Recovering seen) \<Longrightarrow>
    flight_step r s (s\<lparr>fl_ref := (fl_ref s)\<lparr>rf_not_before := t\<rparr>\<rparr>)"
| recovered: "fl_work s channel = Some (Recovering seen) \<Longrightarrow> seen < g' \<or> g' = 0 \<or> seen = - 1 \<Longrightarrow>
    flight_step r s (arrive channel (landed (Inr (j, g')) now) (Published g') s)"
| failed: "fl_work s channel = Some (Recovering seen) \<Longrightarrow>
    flight_step r s (arrive channel (landed (Inl e) now) (Failed now) s)"
| marking_done: "fl_work s channel = Some (Marking gen e) \<Longrightarrow> (apply_cooldown \<Longrightarrow> result = None) \<Longrightarrow>
    flight_step r s (arrive channel (marked r apply_cooldown e result now) (Marked apply_cooldown now)
      (s\<lparr>fl_result := (fl_result s)(channel \<mapsto> result)\<rparr>))"
| wake: "fl_pc s g = Awaiting channel \<Longrightarrow> channel \<in> fl_closed s \<Longrightarrow>
    flight_step r s (caller_to g (Returned (rf_last_err (fl_ref s))) s)"
| note_returned: "fl_pc s g = Noting channel \<Longrightarrow> fl_result s channel = Some result \<Longrightarrow>
    flight_step r s (caller_to g (Returned result) s)"
| give_up: "fl_pc s g \<in> {Awaiting channel, Noting channel} \<Longrightarrow> ctx_error st = Some e \<Longrightarrow>
    flight_step r s (caller_to g (Returned (Some e)) s)"
| call_again: "fl_pc s g = Returned res \<Longrightarrow> flight_step r s (caller_to g Ready s)"

inductive flight_reachable :: "refresher \<Rightarrow> flights \<Rightarrow> bool" for r where
  start: "flight_reachable r (init_flights s)"
| step: "flight_reachable r s \<Longrightarrow> flight_step r s t \<Longrightarrow> flight_reachable r t"

section \<open>The order of flights\<close>

text \<open>
  The specification: a log in which every flight ends before the next begins, a recovery is
  begun for the generation in use and publishes a newer one (or wraps), and after a failure
  the next one waits for the cooldown.
\<close>

fun current :: "milestone list \<Rightarrow> 64 word" where
  "current [] = 0"
| "current (Published g # log) = g"
| "current (_ # log) = current log"

fun follows :: "duration \<Rightarrow> milestone list \<Rightarrow> milestone \<Rightarrow> bool" where
  "follows c [] m = (\<exists>g. m = Published g)"
| "follows c (Began g t1 t2 # _) m =
     (case m of Published g' \<Rightarrow> g < g' \<or> g' = 0 \<or> g = - 1 | Failed _ \<Rightarrow> True | _ \<Rightarrow> False)"
| "follows c (Reserved g # _) m = (case m of Marked _ _ \<Rightarrow> True | _ \<Rightarrow> False)"
| "follows c (Published g # _) m = (case m of Began _ _ _ \<Rightarrow> True | Reserved _ \<Rightarrow> True | _ \<Rightarrow> False)"
| "follows c (Failed n # _) m =
     (case m of Began _ _ t2 \<Rightarrow> is_zero n \<or> c \<le> time_sub t2 n | Reserved _ \<Rightarrow> True | _ \<Rightarrow> False)"
| "follows c (Marked b n # _) m =
     (case m of Began _ t1 _ \<Rightarrow> b \<longrightarrow> time_sub (n + c) t1 \<le> 0 | Reserved _ \<Rightarrow> True | _ \<Rightarrow> False)"

fun for_current :: "milestone list \<Rightarrow> milestone \<Rightarrow> bool" where
  "for_current log (Began g _ _) = (g = current log)"
| "for_current log (Reserved g) = (g = current log)"
| "for_current log _ = True"

fun orderly :: "duration \<Rightarrow> milestone list \<Rightarrow> bool" where
  "orderly c [] = True"
| "orderly c (m # log) = (follows c log m \<and> for_current log m \<and> orderly c log)"

section \<open>Invariants\<close>

fun begun :: "work \<Rightarrow> milestone list \<Rightarrow> bool" where
  "begun (Recovering seen) (Began g _ _ # _) = (g = seen)"
| "begun (Marking seen _) (Reserved g # _) = (g = seen)"
| "begun _ _ = False"

text \<open>With no flight, the refresher remembers how the last one ended.\<close>

fun remembers :: "duration \<Rightarrow> milestone list \<Rightarrow> refresher_state \<Rightarrow> bool" where
  "remembers c (Published g # _) s = True"
| "remembers c (Failed n # _) s = (rf_last_err s \<noteq> None \<and> rf_last_failure_at s = n)"
| "remembers c (Marked b n # _) s = (b \<longrightarrow> rf_not_before s = n + c)"
| "remembers c _ s = False"

definition flights_ok :: "refresher \<Rightarrow> flights \<Rightarrow> bool" where
  "flights_ok r s =
     ((\<forall>ch. fl_work s ch \<noteq> None \<longleftrightarrow> rf_in_flight (fl_ref s) = Some ch)
      \<and> (\<forall>ch. rf_in_flight (fl_ref s) = Some ch \<longrightarrow> ch < fl_next s \<and> ch \<notin> fl_closed s)
      \<and> (\<forall>ch \<in> fl_closed s. ch < fl_next s)
      \<and> (\<forall>g ch. fl_pc s g = Awaiting ch \<longrightarrow> ch \<in> fl_closed s \<or> rf_in_flight (fl_ref s) = Some ch)
      \<and> (\<forall>g ch. fl_pc s g = Noting ch \<longrightarrow>
           fl_result s ch \<noteq> None \<or> (\<exists>gen e. fl_work s ch = Some (Marking gen e))))"

definition log_ok :: "refresher \<Rightarrow> flights \<Rightarrow> bool" where
  "log_ok r s =
     (orderly (r_cooldown r) (fl_log s)
      \<and> rf_generation (fl_ref s) = current (fl_log s)
      \<and> (\<forall>ch k. fl_work s ch = Some k \<longrightarrow> begun k (fl_log s))
      \<and> (rf_in_flight (fl_ref s) = None \<longrightarrow> remembers (r_cooldown r) (fl_log s) (fl_ref s)))"

lemma flight_fields [simp]:
  "fl_ref (caller_to g p s) = fl_ref s" "fl_next (caller_to g p s) = fl_next s"
  "fl_closed (caller_to g p s) = fl_closed s" "fl_work (caller_to g p s) = fl_work s"
  "fl_result (caller_to g p s) = fl_result s"
  "fl_log (caller_to g p s) = fl_log s" "fl_pc (caller_to g p s) = (fl_pc s)(g := p)"
  "rf_in_flight (take_off ch f) = Some ch" "rf_generation (take_off ch f) = rf_generation f"
  "rf_in_flight (landed res n f) = None" "rf_in_flight (marked r b e re n f) = None"
  "rf_generation (landed (Inl x) n f) = rf_generation f" "rf_generation (landed (Inr (j, g')) n f) = g'"
  "rf_generation (marked r b e re n f) = rf_generation f"
  by (simp_all add: caller_to_def take_off_def landed_def marked_def split: sum.split prod.split)

lemma decide_awaits: "decide r t1 t2 t3 s seen = Await ch \<longleftrightarrow> rf_generation s = seen \<and> rf_in_flight s = Some ch"
  by (auto simp: decide_def Let_def split: option.split)

lemma decide_leads: "decide r t1 t2 t3 s seen = Lead \<longleftrightarrow>
    rf_generation s = seen \<and> rf_in_flight s = None \<and> time_sub (rf_not_before s) t1 \<le> 0
    \<and> (rf_last_err s = None \<or> is_zero (rf_last_failure_at s) \<or> r_cooldown r \<le> time_sub t2 (rf_last_failure_at s))"
  by (auto simp: decide_def Let_def not_less split: option.split)

lemma flights_okD:
  assumes "flights_ok r s"
  shows "fl_work s ch \<noteq> None \<longleftrightarrow> rf_in_flight (fl_ref s) = Some ch"
    and "rf_in_flight (fl_ref s) = Some ch \<Longrightarrow> ch < fl_next s" and "rf_in_flight (fl_ref s) = Some ch \<Longrightarrow> ch \<notin> fl_closed s"
    and "ch \<in> fl_closed s \<Longrightarrow> ch < fl_next s"
    and "fl_pc s g = Awaiting ch \<Longrightarrow> ch \<in> fl_closed s \<or> rf_in_flight (fl_ref s) = Some ch"
    and "fl_pc s g = Noting ch \<Longrightarrow> fl_result s ch \<noteq> None \<or> (\<exists>gen e. fl_work s ch = Some (Marking gen e))"
  using assms unfolding flights_ok_def by blast+

lemma flights_ok_caller:
  assumes "flights_ok r s" and "\<And>ch. p = Awaiting ch \<Longrightarrow> rf_in_flight (fl_ref s) = Some ch" "\<And>ch. p \<noteq> Noting ch"
  shows "flights_ok r (caller_to g p s)"
  using assms unfolding flights_ok_def flight_fields by simp

lemma flights_ok_depart:
  assumes "flights_ok r s" and "rf_in_flight (fl_ref s) = None"
    and "p = Awaiting \<or> p = Noting \<and> (\<exists>gen e. k = Marking gen e)"
  shows "flights_ok r (depart g p k m s)"
proof -
  have "fl_work s ch = None" for ch using flights_okD(1) [OF assms(1), of ch] assms(2) by simp
  moreover have "fl_next s \<notin> fl_closed s" using flights_okD(4) [OF assms(1)] by blast
  ultimately show ?thesis
    using flights_okD(4-6) [OF assms(1)] assms(2,3) unfolding flights_ok_def depart_def by (auto simp: less_Suc_eq)
qed

lemma flights_ok_arrive:
  assumes "flights_ok r s" and "fl_work s ch = Some k" and "\<And>x. rf_in_flight (f x) = None"
    and "(\<exists>seen. k = Recovering seen) \<and> res = fl_result s \<or> res = (fl_result s)(ch \<mapsto> e)"
  shows "flights_ok r (arrive ch f m (s\<lparr>fl_result := res\<rparr>))"
proof -
  have now: "rf_in_flight (fl_ref s) = Some ch" using flights_okD(1) [OF assms(1), of ch] assms(2) by simp
  then have only: "fl_work s c = None" if "c \<noteq> ch" for c using flights_okD(1) [OF assms(1), of c] that by simp
  have wait: "fl_pc s g = Awaiting c \<Longrightarrow> c = ch \<or> c \<in> fl_closed s" for g c
    using flights_okD(5) [OF assms(1), of g c] now by auto
  have noting: "res c \<noteq> None" if "fl_pc s g = Noting c" for g c
    using flights_okD(6) [OF assms(1) that] assms(2,4) only [of c] by (cases "c = ch") auto
  show ?thesis
    using assms(3) flights_okD(2,4) [OF assms(1)] now wait noting only unfolding flights_ok_def arrive_def by auto
qed

lemma flights_ok_recovered:
  assumes "flights_ok r s" and "fl_work s ch = Some (Recovering seen)" and "\<And>x. rf_in_flight (f x) = None"
  shows "flights_ok r (arrive ch f m s)"
  using flights_ok_arrive [where f = f and res = "fl_result s", OF assms(1-3)] by simp

lemma flights_ok_step: "flight_step r s t \<Longrightarrow> flights_ok r s \<Longrightarrow> flights_ok r t"
proof (induction rule: flight_step.induct)
  case (deadline s ch seen t)
  then show ?case unfolding flights_ok_def by simp
next
  case (marking_done s ch gen e b res now)
  then show ?case by (intro flights_ok_arrive) auto
qed (auto intro!: flights_ok_caller flights_ok_depart flights_ok_arrive flights_ok_recovered simp: decide_awaits decide_leads)

text \<open>The log: one lemma per way it grows.\<close>

lemma log_ok_depart:
  assumes "log_ok r s" "flights_ok r s" and "rf_in_flight (fl_ref s) = None"
    and "follows (r_cooldown r) (fl_log s) m" "for_current (fl_log s) m" "current (m # fl_log s) = current (fl_log s)"
    and "begun k (m # fl_log s)"
  shows "log_ok r (depart g p k m s)"
proof -
  have "fl_work s ch = None" for ch using flights_okD(1) [OF assms(2), of ch] assms(3) by simp
  then show ?thesis using assms unfolding log_ok_def depart_def by (simp del: current.simps)
qed

lemma log_ok_arrive:
  assumes "log_ok r s" "flights_ok r s" and "fl_work s ch = Some k"
    and "follows (r_cooldown r) (fl_log s) m" "for_current (fl_log s) m"
    and "rf_generation (f (fl_ref s)) = current (m # fl_log s)" and "remembers (r_cooldown r) (m # fl_log s) (f (fl_ref s))"
  shows "log_ok r (arrive ch f m (s\<lparr>fl_result := res\<rparr>))"
proof -
  have "rf_in_flight (fl_ref s) = Some ch" using flights_okD(1) [OF assms(2), of ch] assms(3) by simp
  then have "fl_work s c = None" if "c \<noteq> ch" for c using flights_okD(1) [OF assms(2), of c] that by simp
  then show ?thesis using assms unfolding log_ok_def arrive_def by (simp del: current.simps)
qed

lemma log_ok_recovered:
  assumes "log_ok r s" "flights_ok r s" and "fl_work s ch = Some k"
    and "follows (r_cooldown r) (fl_log s) m" "for_current (fl_log s) m"
    and "rf_generation (f (fl_ref s)) = current (m # fl_log s)" and "remembers (r_cooldown r) (m # fl_log s) (f (fl_ref s))"
  shows "log_ok r (arrive ch f m s)"
  using log_ok_arrive [where f = f and res = "fl_result s", OF assms(1-5)] assms(6,7) by simp

lemma begun_cases: "begun k log \<Longrightarrow>
    (\<exists>g t1 t2 rest. k = Recovering g \<and> log = Began g t1 t2 # rest) \<or> (\<exists>g e rest. k = Marking g e \<and> log = Reserved g # rest)"
  by (cases "(k, log)" rule: begun.cases) auto

lemma log_begun: "log_ok r s \<Longrightarrow> fl_work s ch = Some k \<Longrightarrow> begun k (fl_log s)"
  unfolding log_ok_def by blast

lemma log_remembered: "log_ok r s \<Longrightarrow> rf_in_flight (fl_ref s) = None \<Longrightarrow> remembers (r_cooldown r) (fl_log s) (fl_ref s)"
  unfolding log_ok_def by blast

lemma remembered_leads:
  assumes "remembers (r_cooldown r) log s" "decide r t1 t2 t3 s seen = Lead"
  shows "follows (r_cooldown r) log (Began g t1 t2)"
  using assms by (cases "(r_cooldown r, log, s)" rule: remembers.cases) (auto simp: decide_leads)

lemma remembered_reserves: "remembers c log s \<Longrightarrow> follows c log (Reserved g)"
  by (cases "(c, log, s)" rule: remembers.cases) auto

lemma log_ok_step: "flight_step r s t \<Longrightarrow> flights_ok r s \<Longrightarrow> log_ok r s \<Longrightarrow> log_ok r t"
proof (induction rule: flight_step.induct)
  case (lead s g t1 t2 t3 seen)
  have "rf_in_flight (fl_ref s) = None" "seen = current (fl_log s)"
    using lead(2,4) by (auto simp: decide_leads log_ok_def)
  with lead show ?case
    by (intro log_ok_depart) (auto intro!: remembered_leads log_remembered)
next
  case (note_begun s g gen e)
  then have "gen = current (fl_log s)" by (auto simp: log_ok_def)
  with note_begun show ?case
    by (intro log_ok_depart) (auto intro!: remembered_reserves log_remembered)
next
  case (deadline s ch seen t)
  have "rf_in_flight (fl_ref s) \<noteq> None" using flights_okD(1) [OF deadline(2), of ch] deadline(1) by simp
  with deadline show ?case unfolding log_ok_def by auto
next
  case (recovered s ch seen g' j now)
  with begun_cases [OF log_begun [OF recovered(4,1)]] show ?case
    by (intro log_ok_recovered) auto
next
  case (failed s ch seen e now)
  with begun_cases [OF log_begun [OF failed(3,1)]] show ?case
    by (intro log_ok_recovered) (auto simp: landed_def log_ok_def)
next
  case (marking_done s ch gen e b res now)
  with begun_cases [OF log_begun [OF marking_done(4,1)]] show ?case
    by (intro log_ok_arrive) (auto simp: marked_def log_ok_def)
qed (auto simp: log_ok_def)

lemma flights_invariant: "flight_reachable r s \<Longrightarrow> flights_ok r s \<and> log_ok r s"
  by (induction rule: flight_reachable.induct)
     (auto simp: init_flights_def flights_ok_step log_ok_step, auto simp: flights_ok_def log_ok_def)

section \<open>refresh is a run of the protocol\<close>

lemma push_ref: "w_ref (push e w) = w_ref w"
  by (simp add: push_def)

lemma wp_decide_op:
  assumes Q: "\<And>t1 t2 t3 w' :: world. w_ref w' = w_ref w \<Longrightarrow> Q (decide r t1 t2 t3 (w_ref w) seen) w'"
  shows "wp (decide_op E r seen) Q w"
proof -
  let ?s = "w_ref w"
  consider "rf_generation ?s \<noteq> seen" | ch where "rf_generation ?s = seen" "rf_in_flight ?s = Some ch"
    | "rf_generation ?s = seen" "rf_in_flight ?s = None" by fastforce
  then show ?thesis
  proof cases
    case 1
    then show ?thesis using Q [of w] by (simp add: decide_op_def wp_simps decide_def)
  next
    case (2 ch)
    then show ?thesis using Q [of w] by (simp add: decide_op_def wp_simps decide_def)
  next
    case 3
    have lead: "Q Lead w'" if "w_ref w' = ?s" "\<not> 0 < time_sub (rf_not_before ?s) t1"
        "r_cooldown r \<le> time_sub t2 (rf_last_failure_at ?s)" for t1 t2 w'
      using Q [OF that(1), of t1 t2 0] decide_leads [of r t1 t2 0 ?s seen] 3 that by simp
    show ?thesis
      unfolding decide_op_def wp_simps
      by (simp add: wp_simps now_op_def push_ref 3 not_less)
         (intro conjI impI Q lead [where ?t1.0 = "e_now E (w_trace w)"]; simp add: push_ref not_less)
  qed
qed

lemma wp_context_flow:
  assumes "\<And>res w' :: world. w_ref w' = w_ref w \<Longrightarrow> (\<And>e. res = Some e \<Longrightarrow> \<exists>st. ctx_error st = Some e) \<Longrightarrow> Q res w'"
  shows "wp (context_err E c) Q w"
  by (cases c) (auto simp: context_err_def wp_simps push_ref intro!: assms)

text \<open>The end of a flight for a caller who waits for it.\<close>

lemma wp_flight_result:
  assumes "\<And>e w' :: world. w_ref w' = w_ref w \<Longrightarrow> (\<exists>st. ctx_error st = Some e) \<Longrightarrow> Q (Some e) w'"
    and "\<And>w' :: world. w_ref w' = w_ref w \<Longrightarrow> Q (rf_last_err (w_ref w)) w'"
  shows "wp (flight_result E c) Q w"
  unfolding flight_result_def wp_bind
  by (rule wp_context_flow) (use assms in \<open>auto simp: wp_simps push_def split: option.split\<close>)

definition runs_to :: "refresher \<Rightarrow> nat \<Rightarrow> flights \<Rightarrow> go_error option \<Rightarrow> world \<Rightarrow> bool" where
  "runs_to r g s res w' =
     (\<exists>t. (flight_step r)\<^sup>*\<^sup>* s t \<and> fl_ref t = w_ref w' \<and> fl_pc t g = Returned res)"

lemma runs_to_caller:
  assumes "(flight_step r)\<^sup>*\<^sup>* s t" "flight_step r t (caller_to g (Returned res) t)" "fl_ref t = w_ref w'"
  shows "runs_to r g s res w'"
  unfolding runs_to_def using assms by (intro exI [of _ "caller_to g (Returned res) t"]) auto

lemma lead_flight_runs:
  assumes step: "flight_step r s (depart g Awaiting (Recovering seen) m s)" and ref: "w_ref w = fl_ref s"
  shows "wp (lead_flight E r c seen) (runs_to r g s) w"
proof -
  let ?s1 = "depart g Awaiting (Recovering seen) m s"
  let ?ch = "fl_next s"
  let ?s2 = "\<lambda>t. ?s1\<lparr>fl_ref := (fl_ref ?s1)\<lparr>rf_not_before := t\<rparr>\<rparr>"
  let ?f = "\<lambda>res now. landed res now"
  let ?m = "\<lambda>res now. case res of Inl e \<Rightarrow> Failed now | Inr (j, g') \<Rightarrow> Published g'"
  let ?s3 = "\<lambda>t res now. arrive ?ch (landed res now) (?m res now) (?s2 t)"
  have air: "flight_step r ?s1 (?s2 t)" for t by (rule flight_step.deadline [of _ ?ch seen]) (simp add: depart_def)
  have down: "flight_step r (?s2 t) (?s3 t res now)"
    if "case res of Inl e \<Rightarrow> True | Inr (j, g') \<Rightarrow> seen < g' \<or> g' = 0 \<or> seen = - 1" for t res now
  proof (cases res)
    case (Inl e)
    then show ?thesis by (auto intro!: flight_step.failed [of _ _ seen] simp: depart_def)
  next
    case (Inr p)
    then show ?thesis using that by (cases p) (auto intro!: flight_step.recovered [of _ _ seen] simp: depart_def)
  qed
  have path: "(flight_step r)\<^sup>*\<^sup>* s (?s3 t res now)"
    if "case res of Inl e \<Rightarrow> True | Inr (j, g') \<Rightarrow> seen < g' \<or> g' = 0 \<or> seen = - 1" for t res now
    using step air [of t] down [OF that] by (meson converse_rtranclp_into_rtranclp r_into_rtranclp)
  have pc: "fl_pc (?s3 t res now) g = Awaiting ?ch" "?ch \<in> fl_closed (?s3 t res now)" for t res now
    by (simp_all add: depart_def arrive_def)
  have landing: "fl_ref (?s3 t res now) = landed res now ((take_off 0 (fl_ref s))\<lparr>rf_not_before := t\<rparr>)" for t res now
    by (simp add: depart_def arrive_def landed_def take_off_def split: sum.split prod.split)
  have home: "wp (flight_result E c) (runs_to r g s) w'"
    if ref': "w_ref w' = fl_ref (?s3 t res now)"
      and good: "case res of Inl e \<Rightarrow> True | Inr (j, g') \<Rightarrow> seen < g' \<or> g' = 0 \<or> seen = - 1" for w' :: world and t res now
  proof (rule wp_flight_result)
    fix e and w'' :: world assume same: "w_ref w'' = w_ref w'" and "\<exists>st. ctx_error st = Some e"
    then obtain st where "ctx_error st = Some e" by blast
    then have "flight_step r (?s3 t res now) (caller_to g (Returned (Some e)) (?s3 t res now))"
      by (rule flight_step.give_up [of _ _ ?ch, rotated]) (simp add: pc)
    then show "runs_to r g s (Some e) w''"
      by (rule runs_to_caller [OF path [OF good]]) (simp only: same ref')
  next
    fix w'' :: world assume same: "w_ref w'' = w_ref w'"
    have "flight_step r (?s3 t res now) (caller_to g (Returned (rf_last_err (w_ref w'))) (?s3 t res now))"
      unfolding ref' by (rule flight_step.wake [OF pc])
    then show "runs_to r g s (rf_last_err (w_ref w')) w''"
      by (rule runs_to_caller [OF path [OF good]]) (simp only: same ref')
  qed
  show ?thesis
    unfolding lead_flight_def wp_bind update_ref_def wp_modify
    by (rule wp_mono [OF recovery_proposes])
       (auto simp: wp_simps push_def ref landing intro!: home)
qed

lemma runs_to_now: "flight_step r s (caller_to g (Returned res) s) \<Longrightarrow> w_ref w' = fl_ref s \<Longrightarrow> runs_to r g s res w'"
  by (intro runs_to_caller [OF rtranclp.rtrancl_refl]) simp_all

lemma act_on_runs:
  assumes "w_ref v = fl_ref s" "fl_pc s g = Ready" "rf_in_flight (fl_ref s) = None"
  shows "wp (act_on E r c seen (decide r t1 t2 t3 (fl_ref s) seen)) (runs_to r g s) v"
proof (cases "decide r t1 t2 t3 (fl_ref s) seen")
  case Retry
  then show ?thesis
    using runs_to_now [OF flight_step.retry [OF assms(2) Retry] assms(1)] by (simp add: act_on_def wp_simps)
next
  case (Await ch)
  then show ?thesis using assms(3) by (simp add: decide_awaits)
next
  case (Refused e)
  then show ?thesis
    using runs_to_now [OF flight_step.refused [OF assms(2) Refused] assms(1)] by (simp add: act_on_def wp_simps)
next
  case (Cooling e d)
  then show ?thesis
    using runs_to_now [OF flight_step.cooling [OF assms(2) Cooling]] assms(1)
    by (simp add: act_on_def wp_simps emit_def push_ref)
next
  case Lead
  then show ?thesis
    using lead_flight_runs [OF flight_step.lead [OF assms(2) Lead] assms(1)] by (simp add: act_on_def)
qed

lemma refresh_runs:
  assumes "w_ref w = fl_ref s" "fl_pc s g = Ready" "rf_in_flight (fl_ref s) = None"
  shows "wp (refresh E r c seen) (runs_to r g s) w"
  unfolding refresh_def wp_then_ok
proof (rule wp_context_flow)
  fix ended and u :: world
  assume u: "w_ref u = w_ref w" and ended: "\<And>e. ended = Some e \<Longrightarrow> \<exists>st. ctx_error st = Some e"
  have body: "wp (State_Monad.bind (decide_op E r seen) (act_on E r c seen)) (runs_to r g s) u"
    unfolding wp_bind
    by (rule wp_decide_op) (use act_on_runs assms u in simp)
  show "case ended of Some e \<Rightarrow> runs_to r g s (Some e) u
      | None \<Rightarrow> wp (State_Monad.bind (decide_op E r seen) (act_on E r c seen)) (runs_to r g s) u"
  proof (cases ended)
    case None
    with body show ?thesis by simp
  next
    case (Some e)
    then obtain st where "ctx_error st = Some e" using ended by blast
    from runs_to_now [OF flight_step.expired [OF assms(2) this]] u assms(1) Some show ?thesis by simp
  qed
qed

text \<open>What marking a session as refused leaves of the refresher.\<close>

lemma mark_entry_result:
  "wp (mark_entry E r dir gen d) (\<lambda>(res, b) w'. (b \<longrightarrow> res = None) \<and> w_ref w' = w_ref w) w"
  unfolding mark_entry_def wp_bind [of "load _ _ _ _"]
  by (rule wp_keeps_mono [OF load_calm])
     (auto simp: wp_simps calm_def memory_def intro!: wp_keeps_mono [OF save_calm] split: option.split)

lemma mark_ineffective_result:
  "wp (mark_ineffective E r gen d) (\<lambda>(res, b) w'. (b \<longrightarrow> res = None) \<and> w_ref w' = w_ref w) w"
proof (cases "r_store r")
  case None
  then show ?thesis by (simp add: mark_ineffective_def wp_simps)
next
  case (Some dir)
  have unlock: "wp (do { result \<leftarrow> mark_entry E r dir gen d; close_lock E p; ret result })
      (\<lambda>(res, b) w'. (b \<longrightarrow> res = None) \<and> w_ref w' = w_ref w) u" if "w_ref u = w_ref w" for p u
    unfolding wp_bind
    by (rule wp_mono [OF mark_entry_result]) (use that in \<open>auto simp: wp_simps push_ref\<close>)
  show ?thesis
    unfolding mark_ineffective_def Some option.case lock_account_def wp_bind [of "acquire_lock _ _ _ _"]
    by (rule wp_mono [OF acquire_lock_shown])
       (auto simp: wp_ret memory_def intro!: unlock split: sum.split)
qed

lemma persist_result:
  "wp (persist_ineffective E r gen failure) (\<lambda>res w'. \<exists>b now.
      (b \<longrightarrow> res = None) \<and> w_ref w' = marked r b failure res now (w_ref w)) w"
  unfolding persist_ineffective_def Let_def wp_bind [of "now_op _"] wp_now wp_bind [of "mark_ineffective _ _ _ _"]
proof (rule wp_mono [OF mark_ineffective_result], clarify)
  fix res :: "go_error option" and b and v :: world
  let ?now = "e_now E (w_trace w)"
  assume "b \<longrightarrow> res = None" "w_ref v = w_ref (push (EvNow ?now) w)"
  then show "wp (do { update_ref (\<lambda>s.
            (if b
             then s\<lparr>rf_last_err := Some failure, rf_last_failure_at := ?now, rf_not_before := ?now + r_cooldown r\<rparr>
             else s\<lparr>rf_last_err := res\<rparr>)\<lparr>rf_in_flight := None\<rparr>); ret res })
        (\<lambda>res w'. \<exists>b now. (b \<longrightarrow> res = None) \<and> w_ref w' = marked r b failure res now (w_ref w)) v"
    unfolding update_ref_def wp_bind wp_modify wp_ret
    by (intro exI [of _ b] exI [of _ ?now] conjI) (simp_all add: marked_def push_ref)
qed

lemma two_steps: "flight_step r s t \<Longrightarrow> flight_step r t u \<Longrightarrow> (flight_step r)\<^sup>*\<^sup>* s u"
  by (meson rtranclp.rtrancl_into_rtrancl r_into_rtranclp)

lemma note_ineffective_runs:
  assumes "w_ref w = fl_ref s" "fl_pc s g = Ready"
  shows "wp (note_ineffective E r c gen failure) (runs_to r g s) w"
proof (cases "rf_generation (fl_ref s) \<noteq> gen \<or> rf_in_flight (fl_ref s) \<noteq> None")
  case True
  then show ?thesis
    using runs_to_now [OF flight_step.note_skipped [OF assms(2) True] assms(1)] assms(1)
    by (simp add: note_ineffective_def wp_simps)
next
  case False
  let ?ch = "fl_next s"
  let ?s1 = "depart g Noting (Marking gen failure) (Reserved gen) s"
  let ?s2 = "\<lambda>b res now. arrive ?ch (marked r b failure res now) (Marked b now)
                (?s1\<lparr>fl_result := (fl_result ?s1)(?ch \<mapsto> res)\<rparr>)"
  have off: "flight_step r s ?s1" using False by (intro flight_step.note_begun assms(2)) auto
  have "flight_step r ?s1 (?s2 b res now)" if "b \<longrightarrow> res = None" for b res now
    using that by (intro flight_step.marking_done) (auto simp: depart_def)
  then have path: "(flight_step r)\<^sup>*\<^sup>* s (?s2 b res now)" if "b \<longrightarrow> res = None" for b res now
    using two_steps [OF off] that by blast
  have pc: "fl_pc (?s2 b res now) g = Noting ?ch" "fl_result (?s2 b res now) ?ch = Some res" for b res now
    by (simp_all add: depart_def arrive_def)
  have landing: "fl_ref (?s2 b res now) = marked r b failure res now (take_off 0 (fl_ref s))" for b res now
    by (simp add: depart_def arrive_def marked_def take_off_def)
  have home: "wp (do { ended \<leftarrow> context_err E c; coin \<leftarrow> observe (e_rand E) EvRand;
                      ret (case ended of Some e \<Rightarrow> if coin = 0 then Some e else res | None \<Rightarrow> res) })
      (runs_to r g s) u" if u: "w_ref u = fl_ref (?s2 b res now)" and good: "b \<longrightarrow> res = None" for u :: world and b res now
    unfolding wp_bind [of "context_err _ _"]
  proof (rule wp_context_flow)
    fix ended and v :: world
    assume v: "w_ref v = w_ref u" and ended: "\<And>e. ended = Some e \<Longrightarrow> \<exists>st. ctx_error st = Some e"
    have own: "runs_to r g s res (push x v)" for x
      by (rule runs_to_caller [OF path [OF good] flight_step.note_returned [OF pc]]) (simp only: push_ref v u)
    have "runs_to r g s (Some e) (push x v)" if "ended = Some e" for e x
    proof -
      from that have "\<exists>st. ctx_error st = Some e" by (rule ended)
      then obtain st where "ctx_error st = Some e" by blast
      then have "flight_step r (?s2 b res now) (caller_to g (Returned (Some e)) (?s2 b res now))"
        by (rule flight_step.give_up [of _ _ ?ch, rotated]) (simp add: pc)
      then show ?thesis by (rule runs_to_caller [OF path [OF good]]) (simp only: push_ref v u)
    qed
    with own show "wp (do { coin \<leftarrow> observe (e_rand E) EvRand;
        ret (case ended of Some e \<Rightarrow> if coin = 0 then Some e else res | None \<Rightarrow> res) }) (runs_to r g s) v"
      by (simp add: wp_simps split: option.split)
  qed
  have "wp (do { update_ref (take_off 0);
                 result \<leftarrow> persist_ineffective E r gen failure;
                 ended \<leftarrow> context_err E c; coin \<leftarrow> observe (e_rand E) EvRand;
                 ret (case ended of Some e \<Rightarrow> if coin = 0 then Some e else result | None \<Rightarrow> result) })
      (runs_to r g s) w"
    unfolding update_ref_def wp_bind [of "modify _"] wp_bind [of "persist_ineffective _ _ _ _"] wp_modify
    by (rule wp_mono [OF persist_result]) (auto simp: landing assms(1) intro!: home)
  with False assms(1) show ?thesis by (simp add: note_ineffective_def wp_bind [of "asks _"] wp_asks)
qed

section \<open>Properties\<close>

text \<open>C2: Recovery is single-flight: in every reachable state the flight that is set is the one that works,
  and the history is orderly - a recovery begins only after the last one ended, for the generation in
  use, not before the cooldown of a failure is over, and publishes a newer generation unless the
  counter wraps.\<close>

theorem single_flight:
  assumes "flight_reachable r s"
  shows "(\<forall>ch. fl_work s ch \<noteq> None \<longleftrightarrow> rf_in_flight (fl_ref s) = Some ch)
    \<and> orderly (r_cooldown r) (fl_log s) \<and> rf_generation (fl_ref s) = current (fl_log s)"
  using flights_invariant [OF assms] by (simp add: flights_ok_def log_ok_def)

text \<open>Three goroutines: 0 leads a flight that 1 waits for, and 2 leads the next before 1 wakes.\<close>

definition ship :: refresher_state where "ship = initial_refresher\<lparr>rf_generation := 1\<rparr>"

definition ship_waits :: flights where
  "ship_waits = caller_to 1 (Awaiting 0) (depart 0 Awaiting (Recovering 1) (Began 1 0 0) (init_flights ship))"

definition ship_home :: flights where
  "ship_home = arrive 0 (landed (Inr (Some 0, 2)) 5) (Published 2) ship_waits"

definition ship_lost :: flights where
  "ship_lost = arrive 1 (landed (Inl (Sentinel ErrSessionExpired)) 7) (Failed 7)
     (depart 2 Awaiting (Recovering 2) (Began 2 6 6) ship_home)"

lemma ship_voyage: "flight_reachable r ship_home \<and> (flight_step r)\<^sup>*\<^sup>* ship_home ship_lost"
proof -
  have "flight_step r (init_flights ship) (depart 0 Awaiting (Recovering 1) (Began 1 0 0) (init_flights ship))"
    by (rule flight_step.lead) (simp_all add: init_flights_def decide_leads ship_def initial_refresher_def time_sub_def time_defs zero_time_def)
  moreover have "flight_step r (depart 0 Awaiting (Recovering 1) (Began 1 0 0) (init_flights ship)) ship_waits"
    unfolding ship_waits_def
    by (rule flight_step.await [where seen = 1])
       (simp_all add: init_flights_def depart_def decide_awaits ship_def take_off_def)
  moreover have "flight_step r ship_waits ship_home"
    unfolding ship_home_def
    by (rule flight_step.recovered [where seen = 1]) (simp_all add: ship_waits_def depart_def init_flights_def)
  ultimately have home: "flight_reachable r ship_home"
    by (meson flight_reachable.intros)
  have "flight_step r ship_home (depart 2 Awaiting (Recovering 2) (Began 2 6 6) ship_home)"
    by (rule flight_step.lead)
       (simp_all add: ship_home_def ship_waits_def arrive_def depart_def init_flights_def decide_leads landed_def
          time_sub_def time_defs zero_time_def)
  moreover have "flight_step r (depart 2 Awaiting (Recovering 2) (Began 2 6 6) ship_home) ship_lost"
    unfolding ship_lost_def
    by (rule flight_step.failed [where seen = 2]) (simp add: depart_def ship_home_def ship_waits_def arrive_def init_flights_def)
  ultimately show ?thesis using home two_steps by blast
qed

theorem single_flight_witness:
  "fl_log ship_lost = [Failed 7, Began 2 6 6, Published 2, Began 1 0 0, Published 1]
   \<and> (\<forall>ch. fl_work ship_lost ch \<noteq> None \<longleftrightarrow> rf_in_flight (fl_ref ship_lost) = Some ch)
   \<and> orderly (r_cooldown sample_refresher) (fl_log ship_lost)
   \<and> rf_generation (fl_ref ship_lost) = current (fl_log ship_lost)"
proof -
  have "flight_reachable r t" if "(flight_step r)\<^sup>*\<^sup>* s t" "flight_reachable r s" for r s t
    using that by (induction rule: rtranclp_induct) (auto intro: flight_reachable.step)
  then have "flight_reachable sample_refresher ship_lost" using ship_voyage by blast
  moreover have "fl_log ship_lost = [Failed 7, Began 2 6 6, Published 2, Began 1 0 0, Published 1]"
    by (simp add: ship_lost_def ship_home_def ship_waits_def arrive_def depart_def caller_to_def init_flights_def ship_def)
  ultimately show ?thesis using single_flight by blast
qed

text \<open>C16: No wake-up is lost: a goroutine that waits for a flight can always return, because the flight has
  ended or can end, which closes the channel it waits on; nobody else need act.\<close>

theorem flight_waiters_wake:
  assumes "flight_reachable r s" and "fl_pc s g = Awaiting ch"
  shows "\<exists>t. (flight_step r)\<^sup>*\<^sup>* s t \<and> ch \<in> fl_closed t \<and> fl_pc t g = Awaiting ch
    \<and> flight_step r t (caller_to g (Returned (rf_last_err (fl_ref t))) t)"
proof (cases "ch \<in> fl_closed s")
  case True
  then show ?thesis using flight_step.wake [OF assms(2) True] assms(2) by blast
next
  case False
  have ok: "flights_ok r s" "log_ok r s" using flights_invariant [OF assms(1)] by auto
  have "rf_in_flight (fl_ref s) = Some ch" using flights_okD(5) [OF ok(1) assms(2)] False by simp
  then obtain k where k: "fl_work s ch = Some k" using flights_okD(1) [OF ok(1), of ch] by auto
  have "\<exists>t. flight_step r s t \<and> ch \<in> fl_closed t \<and> fl_pc t g = Awaiting ch"
  proof (cases k)
    case (Recovering seen)
    with k show ?thesis
      using flight_step.failed [where e = "Sentinel ErrSessionExpired"] assms(2) by (fastforce simp: arrive_def)
  next
    case (Marking gen e)
    with k show ?thesis
      using flight_step.marking_done [where apply_cooldown = True and result = None] assms(2)
      by (fastforce simp: arrive_def)
  qed
  then show ?thesis using flight_step.wake by (meson r_into_rtranclp)
qed

theorem flight_waiters_wake_witness:
  "fl_pc ship_home 1 = Awaiting 0
   \<and> (\<exists>t. (flight_step sample_refresher)\<^sup>*\<^sup>* ship_home t \<and> 0 \<in> fl_closed t \<and> fl_pc t 1 = Awaiting 0
    \<and> flight_step sample_refresher t (caller_to 1 (Returned (rf_last_err (fl_ref t))) t))"
proof -
  have "fl_pc ship_home 1 = Awaiting 0" by (simp add: ship_home_def ship_waits_def arrive_def)
  then show ?thesis using flight_waiters_wake [of sample_refresher ship_home 1 0] ship_voyage by blast
qed

text \<open>C3: The code refines the protocol: with no flight of another goroutine, \<open>refresh\<close> and
  \<open>noteIneffective\<close>, whatever clock, server, store and contexts do, end in the state and with
  the result of a run of the protocol.\<close>

theorem refresh_refines_protocol:
  assumes "w_ref w = fl_ref s" "fl_pc s g = Ready" "rf_in_flight (fl_ref s) = None"
  shows "wp (refresh E r c seen) (\<lambda>res w'. \<exists>t. (flight_step r)\<^sup>*\<^sup>* s t \<and> fl_ref t = w_ref w' \<and> fl_pc t g = Returned res) w
    \<and> wp (note_ineffective E r c gen failure)
        (\<lambda>res w'. \<exists>t. (flight_step r)\<^sup>*\<^sup>* s t \<and> fl_ref t = w_ref w' \<and> fl_pc t g = Returned res) w"
  using refresh_runs [OF assms] note_ineffective_runs [OF assms(1,2)]
  by (simp add: runs_to_def [abs_def])

theorem refresh_refines_protocol_witness:
  "let s = init_flights (w_ref sample_world) in
   wp (refresh sample_env sample_refresher CtxNil 0)
     (\<lambda>res w'. \<exists>t. (flight_step sample_refresher)\<^sup>*\<^sup>* s t \<and> fl_ref t = w_ref w' \<and> fl_pc t 0 = Returned res) sample_world
   \<and> wp (note_ineffective sample_env sample_refresher CtxNil 0 (Sentinel ErrSessionExpired))
     (\<lambda>res w'. \<exists>t. (flight_step sample_refresher)\<^sup>*\<^sup>* s t \<and> fl_ref t = w_ref w' \<and> fl_pc t 0 = Returned res) sample_world"
  unfolding Let_def
  by (rule refresh_refines_protocol) (simp_all add: init_flights_def sample_fields initial_refresher_def)

text \<open>A waiter reads the error of the refresher when it wakes, not that of its flight: goroutine 1 waits
  for a flight that publishes generation 2, but when the next recovery fails before it wakes, it
  returns the error of that one.\<close>

theorem late_waiter_gets_later_error:
  "flight_reachable r ship_home \<and> fl_pc ship_home 1 = Awaiting 0 \<and> fl_closed ship_home = {0}
   \<and> fl_log ship_home = [Published 2, Began 1 0 0, Published 1] \<and> rf_last_err (fl_ref ship_home) = None
   \<and> (\<exists>t. (flight_step r)\<^sup>*\<^sup>* ship_home t \<and> fl_pc t 1 = Returned (Some (Sentinel ErrSessionExpired)))"
proof -
  have "flight_step r ship_lost (caller_to 1 (Returned (rf_last_err (fl_ref ship_lost))) ship_lost)"
    by (rule flight_step.wake [where channel = 0])
       (simp_all add: ship_lost_def ship_home_def ship_waits_def arrive_def depart_def)
  then have "(flight_step r)\<^sup>*\<^sup>* ship_home (caller_to 1 (Returned (rf_last_err (fl_ref ship_lost))) ship_lost)"
    using ship_voyage by (meson rtranclp.rtrancl_into_rtrancl)
  moreover have "rf_last_err (fl_ref ship_lost) = Some (Sentinel ErrSessionExpired)"
    by (simp add: ship_lost_def arrive_def landed_def)
  ultimately have "\<exists>t. (flight_step r)\<^sup>*\<^sup>* ship_home t \<and> fl_pc t 1 = Returned (Some (Sentinel ErrSessionExpired))"
    by (intro exI [of _ "caller_to 1 (Returned (rf_last_err (fl_ref ship_lost))) ship_lost"]) simp
  moreover have "fl_pc ship_home 1 = Awaiting 0" "fl_closed ship_home = {0}"
      "fl_log ship_home = [Published 2, Began 1 0 0, Published 1]" "rf_last_err (fl_ref ship_home) = None"
    by (simp_all add: ship_home_def ship_waits_def arrive_def depart_def caller_to_def init_flights_def ship_def landed_def)
  ultimately show ?thesis using ship_voyage by blast
qed

end
