(* ===== verification/Transport.thy ===== *)
theory Transport
  imports Single_Flight
begin

text \<open>
  session.go: the transport under the API client. It sends a request with the cookies of the
  session in use; when the answer shows that the session is lost, it has it recovered and
  sends the request a second time, and never a third.
\<close>

section \<open>Data\<close>

text \<open>
  A request as the transport gets it: its fields, its parsed URL, the body still to be read
  (\<open>None\<close> for nil or \<^verbatim>\<open>http.NoBody\<close>) and its context.
\<close>

record outgoing =
  og_request :: http_request
  og_url :: url
  og_body :: "body option"
  og_ctx :: ctx

text \<open>\<open>refreshTransport\<close>: what it calls of the refresher it holds as functions.\<close>

record transport =
  t_refresh :: "ctx \<Rightarrow> 64 word \<Rightarrow> (world, go_error option) state"
  t_snapshot :: "(world, 64 word \<times> nat option) state"
  t_origin :: string
  t_impersonate :: bool
  t_note :: "(ctx \<Rightarrow> 64 word \<Rightarrow> go_error \<Rightarrow> (world, go_error option) state) option"
  t_on_event :: bool

definition snapshot :: "(world, 64 word \<times> nat option) state" where
  "snapshot = asks (\<lambda>w. (rf_generation (w_ref w), rf_jar (w_ref w)))"

definition transport_of :: "env \<Rightarrow> refresher \<Rightarrow> transport" where
  "transport_of E r =
     \<lparr>t_refresh = refresh E r, t_snapshot = snapshot, t_origin = au_origin (r_auth r),
      t_impersonate = (au_impersonate (r_auth r) \<noteq> []), t_note = Some (note_ineffective E r),
      t_on_event = au_on_event (r_auth r)\<rparr>"

section \<open>One attempt\<close>

text \<open>\<open>bufferBody\<close>: all bytes of the body, or the error of reading them.\<close>

definition buffer_body :: "body option \<Rightarrow> go_error + string option" where
  "buffer_body b =
     (case b of
        None \<Rightarrow> Inr None
      | Some b' \<Rightarrow> (case read_error b' of Some f \<Rightarrow> Inl (net_error f) | None \<Rightarrow> Inr (Some (content b'))))"

definition dress :: "transport \<Rightarrow> outgoing \<Rightarrow> string option \<Rightarrow> http_request" where
  "dress t og payload =
     (og_request og)\<lparr>rq_headers := header_del ''Cookie'' (header_set ''Referer'' (t_origin t)
          (header_del ''Authorization'' (rq_headers (og_request og)))),
        rq_cookies := [], rq_body := payload\<rparr>"

definition with_session :: "(string \<times> string) list \<Rightarrow> string \<Rightarrow> http_request \<Rightarrow> http_request" where
  "with_session cookies token rq =
     rq\<lparr>rq_cookies := cookies,
        rq_headers := (if token \<noteq> [] then header_set ''X-Csrftoken'' token (rq_headers rq)
                       else header_del ''X-Csrftoken'' (rq_headers rq))\<rparr>"

definition add_session :: "env \<Rightarrow> nat option \<Rightarrow> url \<Rightarrow> http_request \<Rightarrow> (world, http_request) state" where
  "add_session E jar u rq =
     (case jar of
        None \<Rightarrow> ret rq
      | Some j \<Rightarrow>
          do { wall \<leftarrow> now_op E;
               cookies \<leftarrow> asks (\<lambda>w. tracked_cookies wall (jar_at w j) u);
               token \<leftarrow> csrf_op E j u;
               ret (with_session cookies token rq) })"

definition store_cookies :: "env \<Rightarrow> nat option \<Rightarrow> url \<Rightarrow> http_cookie list \<Rightarrow> (world, unit) state" where
  "store_cookies E jar u cs = (case jar of None \<Rightarrow> ret () | Some j \<Rightarrow> set_cookies_op E j u cs)"

definition attempt ::
  "env \<Rightarrow> transport \<Rightarrow> outgoing \<Rightarrow> string option \<Rightarrow> nat option \<Rightarrow> (world, go_error + http_response) state" where
  "attempt E t og payload jar =
     do { clone \<leftarrow> add_session E jar (og_url og) (dress t og payload);
          out \<leftarrow> observe (\<lambda>h. e_http E h clone) (EvHttp clone);
          case out of
            HttpFail f _ _ \<Rightarrow> ret (Inl (net_error f))
          | HttpOk response _ \<Rightarrow>
              do { store_cookies E jar (og_url og) (rs_set_cookie response); ret (Inr response) } }"

section \<open>RoundTrip\<close>

definition recovery_event :: "string \<Rightarrow> string \<Rightarrow> auth_event" where
  "recovery_event reason outcome = new_event AuthEventRecovery AuthStageSessionRecovery reason outcome"

definition replay ::
  "env \<Rightarrow> transport \<Rightarrow> outgoing \<Rightarrow> string option \<Rightarrow> (world, go_error + http_response) state" where
  "replay E t og payload =
     do { (generation, jar) \<leftarrow> t_snapshot t;
          second \<leftarrow> attempt E t og payload jar;
          case second of
            Inl e \<Rightarrow> ret (Inl e)
          | Inr response \<Rightarrow>
              (case is_session_loss_for response (t_impersonate t) of
                 (False, retried) \<Rightarrow> ret (Inr retried)
               | (True, retried) \<Rightarrow>
                   let auth_err = classify_auth_error AuthStageSessionRecovery
                         (session_loss_error ((og_request og)\<lparr>rq_url := url_string (og_url og)\<rparr>) retried)
                   in case t_note t of
                        None \<Rightarrow> ret (Inl auth_err)
                      | Some note \<Rightarrow>
                          do { noted \<leftarrow> note (og_ctx og) generation auth_err;
                               ret (Inl (case noted of Some e \<Rightarrow> e | None \<Rightarrow> auth_err)) }) }"

definition recover_and_replay ::
  "env \<Rightarrow> transport \<Rightarrow> outgoing \<Rightarrow> string option \<Rightarrow> 64 word \<Rightarrow> http_response \<Rightarrow>
   (world, go_error + http_response) state" where
  "recover_and_replay E t og payload generation lost =
     do { emit (t_on_event t) (recovery_event (session_loss_reason lost) outcome_started);
          refreshed \<leftarrow> t_refresh t (og_ctx og) generation;
          case refreshed of
            Some e \<Rightarrow>
              do { emit (t_on_event t) (recovery_event (session_loss_reason lost) outcome_failure); ret (Inl e) }
          | None \<Rightarrow>
              do { emit (t_on_event t) (recovery_event (session_loss_reason lost) outcome_success);
                   replay E t og payload } }"

definition round_trip :: "env \<Rightarrow> transport \<Rightarrow> outgoing \<Rightarrow> (world, go_error + http_response) state" where
  "round_trip E t og =
     (case buffer_body (og_body og) of
        Inl e \<Rightarrow> ret (Inl e)
      | Inr payload \<Rightarrow>
          do { (generation, jar) \<leftarrow> t_snapshot t;
               first \<leftarrow> attempt E t og payload jar;
               case first of
                 Inl e \<Rightarrow> ret (Inl e)
               | Inr response \<Rightarrow>
                   (case is_session_loss_for response (t_impersonate t) of
                      (False, kept) \<Rightarrow> ret (Inr kept)
                    | (True, lost) \<Rightarrow> recover_and_replay E t og payload generation lost) })"

section \<open>What an attempt sends\<close>

definition faithful :: "transport \<Rightarrow> outgoing \<Rightarrow> string option \<Rightarrow> http_request \<Rightarrow> bool" where
  "faithful t og payload q =
     (rq_method q = rq_method (og_request og) \<and> rq_url q = rq_url (og_request og) \<and> rq_body q = payload
      \<and> (\<forall>v. (''Authorization'', v) \<notin> set (rq_headers q) \<and> (''Cookie'', v) \<notin> set (rq_headers q))
      \<and> (\<forall>v. (''Referer'', v) \<in> set (rq_headers q) \<longleftrightarrow> v = t_origin t)
      \<and> (\<forall>n v. n \<notin> {''Authorization'', ''Cookie'', ''Referer'', ''X-Csrftoken''} \<longrightarrow>
           ((n, v) \<in> set (rq_headers q) \<longleftrightarrow> (n, v) \<in> set (rq_headers (og_request og)))))"

text \<open>The session data of a request: the cookies and the token of one jar, at one moment.\<close>

definition carries :: "env \<Rightarrow> nat option \<Rightarrow> url \<Rightarrow> world \<Rightarrow> http_request \<Rightarrow> bool" where
  "carries E jar u w q =
     (case jar of
        None \<Rightarrow> rq_cookies q = []
      | Some j \<Rightarrow>
          \<exists>wall wall'. rq_cookies q = tracked_cookies wall (jar_at w j) u
            \<and> (let token = csrf wall' (jar_at w j) u
               in \<forall>v. (''X-Csrftoken'', v) \<in> set (rq_headers q) \<longleftrightarrow> token \<noteq> [] \<and> v = token))"

lemma faithful_dress: "faithful t og payload (dress t og payload)"
  by (auto simp: faithful_def dress_def)

text \<open>Nothing but the clock is consulted, and only jars change.\<close>

definition aside :: "world \<Rightarrow> world \<Rightarrow> bool" where
  "aside w w' = (w_ref w' = w_ref w \<and> visible w' = visible w)"

lemma aside_refl: "aside w w"
  by (simp add: aside_def)

lemma add_session_post:
  "wp (add_session E jar u (dress t og payload)) (\<lambda>q w'.
      faithful t og payload q \<and> carries E jar u w q \<and> aside w w' \<and> w_jars w' = w_jars w) w"
proof (cases jar)
  case None
  then show ?thesis
    by (simp add: add_session_def wp_simps faithful_dress carries_def aside_refl) (simp add: dress_def)
next
  case (Some j)
  have "faithful t og payload (with_session cs token (dress t og payload))" for cs token
    by (auto simp: with_session_def faithful_def dress_def)
  moreover have "carries E jar u w (with_session (tracked_cookies wall (jar_at w j) u)
      (csrf wall' (jar_at w j) u) (dress t og payload))" for wall wall'
    unfolding Some carries_def option.case Let_def
    by (intro exI [of _ wall] exI [of _ wall']) (auto simp: with_session_def dress_def)
  ultimately show ?thesis
    by (simp add: Some add_session_def csrf_op_def wp_simps aside_def push_ref)
qed

lemma store_cookies_post: "wp (store_cookies E jar u cs) (\<lambda>_ w'. aside w w') w"
  by (cases jar) (simp_all add: store_cookies_def set_cookies_op_def wp_simps aside_def push_ref put_jar_def visible_def push_def)

definition exchanged ::
  "env \<Rightarrow> transport \<Rightarrow> outgoing \<Rightarrow> string option \<Rightarrow> nat option \<Rightarrow> world \<Rightarrow> go_error + http_response \<Rightarrow> world \<Rightarrow> bool" where
  "exchanged E t og payload jar w res w' =
     (\<exists>q out. faithful t og payload q \<and> carries E jar (og_url og) w q \<and> w_ref w' = w_ref w
        \<and> visible w' = visible w @ [EvHttp q out]
        \<and> res = (case out of HttpFail f _ _ \<Rightarrow> Inl (net_error f) | HttpOk response _ \<Rightarrow> Inr response))"

lemma attempt_post: "wp (attempt E t og payload jar) (exchanged E t og payload jar w) w"
  unfolding attempt_def wp_bind
proof (rule wp_mono [OF add_session_post], clarify)
  fix q v
  assume q: "faithful t og payload q" "carries E jar (og_url og) w q" "aside w v"
  have ends: "exchanged E t og payload jar w res v'"
    if "aside (push (EvHttp q out) v) v'"
      "res = (case out of HttpFail f _ _ \<Rightarrow> Inl (net_error f) | HttpOk response _ \<Rightarrow> Inr response)" for out res v'
    unfolding exchanged_def using q that
    by (intro exI [of _ q] exI [of _ out]) (simp add: aside_def push_ref)
  have keep: "wp (store_cookies E jar (og_url og) (rs_set_cookie response))
      (\<lambda>x. wp (ret (Inr response)) (exchanged E t og payload jar w)) (push (EvHttp q (HttpOk response calls)) v)" for response calls
    by (rule wp_mono [OF store_cookies_post]) (auto simp: wp_ret intro: ends [where out = "HttpOk response calls"])
  have failed: "exchanged E t og payload jar w (Inl (net_error f)) (push (EvHttp q (HttpFail f a b)) v)" for f a b
    by (rule ends [where out = "HttpFail f a b", OF aside_refl]) simp
  show "wp (observe (\<lambda>h. e_http E h q) (EvHttp q))
      (\<lambda>out. wp (case out of
            HttpFail f _ _ \<Rightarrow> ret (Inl (net_error f))
          | HttpOk response _ \<Rightarrow>
              do { store_cookies E jar (og_url og) (rs_set_cookie response); ret (Inr response) })
        (exchanged E t og payload jar w)) v"
    using keep failed
    by (auto simp: wp_simps split: http_outcome.split)
qed

lemma wp_top: "wp m (\<lambda>r w'. True) w"
  by (simp add: wp_any)

lemma wp_ret_fun: "wp (ret x) Q = Q x"
  by (simp add: fun_eq_iff wp_ret)

lemma exchanged_sent: "exchanged E t og payload jar w res w' \<Longrightarrow>
    \<exists>q out. faithful t og payload q \<and> sent w' = sent w @ [(q, out)]"
  by (auto simp: exchanged_def sent_def)

lemma wp_snapshot [wp_simps]: "wp snapshot Q w = Q (rf_generation (w_ref w), rf_jar (w_ref w)) w"
  by (simp add: snapshot_def wp_asks)

section \<open>The transport over a source of sessions\<close>

text \<open>
  What the transport relies on: a snapshot reads the state and nothing else, and noting a
  failed replay sends no request.
\<close>

locale session_source =
  fixes t :: transport
  assumes snapshot_reads: "wp (t_snapshot t) Q w = Q (rf_generation (w_ref w), rf_jar (w_ref w)) w"
    and note_silent: "t_note t = Some f \<Longrightarrow> silent (f c g e)"
begin

lemma replay_sends:
  "wp (replay E t og payload) (\<lambda>res w'. \<exists>q out. faithful t og payload q \<and> sent w' = sent w @ [(q, out)]) w"
  unfolding replay_def wp_bind [of "t_snapshot t"] snapshot_reads prod.case wp_bind [of "attempt _ _ _ _ _"]
proof (rule wp_mono [OF attempt_post])
  fix res v
  assume "exchanged E t og payload (rf_jar (w_ref w)) w res v"
  then obtain q out where q: "faithful t og payload q" "sent v = sent w @ [(q, out)]" by (blast dest: exchanged_sent)
  have quiet: "wp (f c g e) (\<lambda>r w'. sent w' = sent w @ [(q, out)]) v" if "t_note t = Some f" for f c g e
    by (rule wp_keeps_mono [OF note_silent [OF that, unfolded silent_def]]) (simp add: q(2))
  show "wp (case res of Inl e \<Rightarrow> ret (Inl e)
      | Inr response \<Rightarrow>
         (case is_session_loss_for response (t_impersonate t) of
            (False, retried) \<Rightarrow> ret (Inr retried)
          | (True, retried) \<Rightarrow>
              let auth_err = classify_auth_error AuthStageSessionRecovery
                    (session_loss_error ((og_request og)\<lparr>rq_url := url_string (og_url og)\<rparr>) retried)
              in case t_note t of None \<Rightarrow> ret (Inl auth_err)
                 | Some note \<Rightarrow> do { noted \<leftarrow> note (og_ctx og) (rf_generation (w_ref w)) auth_err;
                                     ret (Inl (case noted of Some e \<Rightarrow> e | None \<Rightarrow> auth_err)) }))
      (\<lambda>res w'. \<exists>q out. faithful t og payload q \<and> sent w' = sent w @ [(q, out)]) v"
    using q
    by (auto simp: wp_simps Let_def intro!: wp_mono [OF quiet] split: sum.split prod.split bool.split option.split)
qed

end

text \<open>Recovery first, then the replay: \<open>u\<close> is the world in which \<open>t_refresh\<close> is called.\<close>

definition recovers :: "transport \<Rightarrow> outgoing \<Rightarrow> 64 word \<Rightarrow> string option \<Rightarrow> world \<Rightarrow> world \<Rightarrow> bool" where
  "recovers t og generation payload u w' =
     (\<exists>refreshed v. run_state (t_refresh t (og_ctx og) generation) u = (refreshed, v)
        \<and> (case refreshed of
             Some e \<Rightarrow> sent w' = sent v
           | None \<Rightarrow> \<exists>q out. faithful t og payload q \<and> sent w' = sent v @ [(q, out)]))"

lemma wp_emit_sent: "wp (emit b e) (\<lambda>x w'. sent w' = sent w) w"
  by (rule wp_keeps [OF silent_emit])

context session_source
begin

lemma recover_and_replay_sends:
  "wp (recover_and_replay E t og payload generation lost)
      (\<lambda>res w'. \<exists>u. sent u = sent w \<and> recovers t og generation payload u w') w"
  unfolding recover_and_replay_def wp_bind [of "emit _ _"] wp_bind [of "t_refresh t _ _"]
proof (rule wp_mono [OF wp_emit_sent])
  fix x :: unit and u
  assume u: "sent u = sent w"
  obtain refreshed v where run: "run_state (t_refresh t (og_ctx og) generation) u = (refreshed, v)" by fastforce
  have "wp (case refreshed of
          Some e \<Rightarrow> do { emit (t_on_event t) (recovery_event (session_loss_reason lost) outcome_failure); ret (Inl e) }
        | None \<Rightarrow> do { emit (t_on_event t) (recovery_event (session_loss_reason lost) outcome_success);
                     replay E t og payload })
      (\<lambda>res w'. \<exists>u. sent u = sent w \<and> recovers t og generation payload u w') v"
  proof (cases refreshed)
    case None
    show ?thesis
      unfolding None option.case wp_bind
    proof (rule wp_mono [OF wp_emit_sent], rule wp_mono [OF replay_sends])
      fix y :: unit and v' and res and w'
      assume "sent v' = sent v" "\<exists>q out. faithful t og payload q \<and> sent w' = sent v' @ [(q, out)]"
      then show "\<exists>u. sent u = sent w \<and> recovers t og generation payload u w'"
        using u run None by (intro exI [of _ u]) (auto simp: recovers_def)
    qed
  next
    case (Some e)
    show ?thesis
      unfolding Some option.case wp_bind wp_ret
      by (rule wp_mono [OF wp_emit_sent]) (use u run Some in \<open>auto simp: recovers_def\<close>)
  qed
  then show "wp (t_refresh t (og_ctx og) generation) (\<lambda>r. wp (case r of
          None \<Rightarrow> do { emit (t_on_event t) (recovery_event (session_loss_reason lost) outcome_success);
                     replay E t og payload }
        | Some e \<Rightarrow> do { emit (t_on_event t) (recovery_event (session_loss_reason lost) outcome_failure); ret (Inl e) })
      (\<lambda>res w'. \<exists>u. sent u = sent w \<and> recovers t og generation payload u w')) u"
    by (simp add: wp_def [of "t_refresh t _ _"] run)
qed

lemma round_trip_sends:
  "wp (round_trip E t og) (\<lambda>res w'. sent w' = sent w
      \<or> (\<exists>payload q out. buffer_body (og_body og) = Inr payload \<and> faithful t og payload q
           \<and> (sent w' = sent w @ [(q, out)]
              \<or> (\<exists>u. sent u = sent w @ [(q, out)]
                   \<and> recovers t og (rf_generation (w_ref w)) payload u w')))) w"
proof (cases "buffer_body (og_body og)")
  case (Inl e)
  then show ?thesis by (simp add: round_trip_def wp_simps)
next
  case (Inr payload)
  show ?thesis
    unfolding round_trip_def Inr sum.case wp_bind [of "t_snapshot t"] snapshot_reads prod.case
      wp_bind [of "attempt _ _ _ _ _"]
  proof (rule wp_mono [OF attempt_post])
    fix res v
    assume "exchanged E t og payload (rf_jar (w_ref w)) w res v"
    then obtain q out where q: "faithful t og payload q" "sent v = sent w @ [(q, out)]" by (blast dest: exchanged_sent)
    have go: "wp (recover_and_replay E t og payload g lost)
        (\<lambda>res w'. \<exists>u. sent u = sent w @ [(q, out)] \<and> recovers t og g payload u w') v" for g lost
      using recover_and_replay_sends [of E og payload g lost v] by (simp add: q(2))
    show "wp (case res of Inl e \<Rightarrow> ret (Inl e)
        | Inr response \<Rightarrow>
            (case is_session_loss_for response (t_impersonate t) of
               (False, kept) \<Rightarrow> ret (Inr kept)
             | (True, lost) \<Rightarrow> recover_and_replay E t og payload (rf_generation (w_ref w)) lost))
        (\<lambda>res w'. sent w' = sent w
          \<or> (\<exists>p q out. Inr payload = Inr p \<and> faithful t og p q
           \<and> (sent w' = sent w @ [(q, out)]
              \<or> (\<exists>u. sent u = sent w @ [(q, out)]
                   \<and> recovers t og (rf_generation (w_ref w)) p u w')))) v"
      using q
      by (auto simp: wp_simps intro!: wp_mono [OF go] split: sum.split prod.split bool.split)
  qed
qed

end

lemma sent_lock_events [simp]:
  "sent (push (EvLocked p) w) = sent w" "sent (push (EvUnlocked p) w) = sent w"
  by (simp_all add: sent_def)

lemma silent_bind: "silent m \<Longrightarrow> (\<And>x. silent (f x)) \<Longrightarrow> silent (State_Monad.bind m f)"
  by (simp add: silent_def sil.keep_bind)

lemma silent_lock_account: "silent (lock_account E dir c k)"
  unfolding silent_def lock_account_def
  by (rule keeps_wpI, rule wp_mono [OF acquire_lock_shown]) (auto simp: sent_def split: sum.splits)

lemma silent_close_lock: "silent (close_lock E p)"
  unfolding silent_def by (rule keeps_wpI) (simp add: wp_close_lock sent_def)

lemma silent_mark: "silent (mark_ineffective E r g d)"
  unfolding silent_def mark_ineffective_def mark_entry_def
  by (intro sil.keep_flow silent_lock_account [unfolded silent_def] silent_close_lock [unfolded silent_def]
        calm_silent [OF load_calm, unfolded silent_def] calm_silent [OF save_calm, unfolded silent_def])

lemma silent_update_ref: "silent (update_ref f)"
  by (simp add: silent_def update_ref_def state_io_rel_def sent_def visible_def)

lemma note_silent: "silent (note_ineffective E r c g e)"
  unfolding silent_def note_ineffective_def persist_ineffective_def Let_def
  by (intro sil.keep_rules sil.keep_now silent_update_ref [unfolded silent_def] silent_mark [unfolded silent_def]) simp_all

interpretation live: session_source "transport_of E r" for E r
  by unfold_locales (auto simp: transport_of_def wp_snapshot note_silent)

section \<open>What RoundTrip returns\<close>

text \<open>A response that is returned is the last answer on the wire, and that of a live session.\<close>

definition answered_live :: "transport \<Rightarrow> go_error + http_response \<Rightarrow> world \<Rightarrow> bool" where
  "answered_live t res w' =
     (case res of
        Inl e \<Rightarrow> True
      | Inr response \<Rightarrow> \<not> fst (is_session_loss_for response (t_impersonate t))
          \<and> (\<exists>h q calls. visible w' = h @ [EvHttp q (HttpOk response calls)]))"

lemma answered_live_Inl: "answered_live t (Inl e) w'"
  by (simp add: answered_live_def)

lemma exchanged_live:
  assumes "exchanged E t og payload jar w (Inr response) w'"
    and "is_session_loss_for response (t_impersonate t) = (False, kept)"
  shows "answered_live t (Inr kept) w'"
proof -
  have "kept = response" using assms(2) session_loss_keeps_response [of response "t_impersonate t"] by simp
  moreover obtain q out where "visible w' = visible w @ [EvHttp q out]"
      "Inr response = (case out of HttpFail f _ _ \<Rightarrow> Inl (net_error f) | HttpOk r _ \<Rightarrow> Inr r)"
    using assms(1) unfolding exchanged_def by blast
  ultimately show ?thesis
    using assms(2) by (cases out) (auto simp: answered_live_def)
qed

lemma replay_answered: "wp (replay E t og payload) (answered_live t) w"
  unfolding replay_def wp_bind [of "t_snapshot t"]
proof (rule wp_any, clarify, unfold wp_bind [of "attempt _ _ _ _ _"], rule wp_mono [OF attempt_post])
  fix generation jar and v :: world and second and v' :: world
  assume x: "exchanged E t og payload jar v second v'"
  show "wp (case second of Inl e \<Rightarrow> ret (Inl e)
      | Inr response \<Rightarrow>
          (case is_session_loss_for response (t_impersonate t) of
             (False, retried) \<Rightarrow> ret (Inr retried)
           | (True, retried) \<Rightarrow>
               let auth_err = classify_auth_error AuthStageSessionRecovery
                     (session_loss_error ((og_request og)\<lparr>rq_url := url_string (og_url og)\<rparr>) retried)
               in case t_note t of None \<Rightarrow> ret (Inl auth_err)
                  | Some note \<Rightarrow>
                      do { noted \<leftarrow> note (og_ctx og) generation auth_err;
                           ret (Inl (case noted of Some e \<Rightarrow> e | None \<Rightarrow> auth_err)) })) (answered_live t) v'"
    using x exchanged_live
    by (auto simp: Let_def wp_simps wp_ret_fun answered_live_Inl wp_top
        split: sum.split prod.split bool.split option.split)
qed

lemma recover_and_replay_answered: "wp (recover_and_replay E t og payload g lost) (answered_live t) w"
  unfolding recover_and_replay_def wp_bind [of "emit _ _"] wp_bind [of "t_refresh t _ _"]
proof (rule wp_any, rule wp_any)
  fix refreshed and v :: world
  show "wp (case refreshed of
          Some e \<Rightarrow> do { emit (t_on_event t) (recovery_event (session_loss_reason lost) outcome_failure); ret (Inl e) }
        | None \<Rightarrow> do { emit (t_on_event t) (recovery_event (session_loss_reason lost) outcome_success);
                     replay E t og payload }) (answered_live t) v"
    unfolding wp_bind
    by (cases refreshed)
       (auto simp: wp_bind wp_ret replay_answered answered_live_Inl intro!: wp_any [where m = "emit _ _"])
qed

lemma round_trip_answered: "wp (round_trip E t og) (answered_live t) w"
proof (cases "buffer_body (og_body og)")
  case (Inl e)
  then show ?thesis by (simp add: round_trip_def wp_ret answered_live_Inl)
next
  case (Inr payload)
  show ?thesis
    unfolding round_trip_def Inr sum.case wp_bind [of "t_snapshot t"]
  proof (rule wp_any, clarify, unfold wp_bind [of "attempt _ _ _ _ _"], rule wp_mono [OF attempt_post])
    fix generation jar and v :: world and first and v' :: world
    assume "exchanged E t og payload jar v first v'"
    then show "wp (case first of Inl e \<Rightarrow> ret (Inl e)
        | Inr response \<Rightarrow>
            (case is_session_loss_for response (t_impersonate t) of
               (False, kept) \<Rightarrow> ret (Inr kept)
             | (True, lost) \<Rightarrow> recover_and_replay E t og payload generation lost)) (answered_live t) v'"
      using exchanged_live recover_and_replay_answered
      by (auto simp: wp_ret answered_live_Inl split: sum.split prod.split bool.split)
  qed
qed

section \<open>Properties\<close>

definition sample_outgoing :: outgoing where
  "sample_outgoing = \<lparr>og_request = plain_request\<lparr>rq_method := ''PUT'', rq_headers := [(''Authorization'', ''secret'')]\<rparr>,
     og_url = sample_url, og_body = Some \<lparr>content = ''{}'', read_error = None\<rparr>, og_ctx = CtxNil\<rparr>"

text \<open>A server that answers every request with a 401.\<close>

definition refusing_env :: env where
  "refusing_env = sample_env\<lparr>e_http := \<lambda>h rq. HttpOk (plain_response 401) []\<rparr>"

text \<open>C1: A request is sent at most twice, and the second time only after a recovery that succeeded: both
  times with the method, the URL, the whole body and the headers of the caller, without its
  \<^verbatim>\<open>Authorization\<close> and \<^verbatim>\<open>Cookie\<close> headers and with the API's \<^verbatim>\<open>Referer\<close>. A body that cannot be read
  sends nothing.\<close>

theorem round_trip_replays_once:
  "wp (round_trip E (transport_of E r) og) (\<lambda>res w'. sent w' = sent w
      \<or> (\<exists>payload q out. buffer_body (og_body og) = Inr payload \<and> faithful (transport_of E r) og payload q
           \<and> (sent w' = sent w @ [(q, out)]
              \<or> (\<exists>u refreshed v. sent u = sent w @ [(q, out)]
                   \<and> run_state (refresh E r (og_ctx og) (rf_generation (w_ref w))) u = (refreshed, v)
                   \<and> (case refreshed of
                        Some e \<Rightarrow> sent w' = sent v
                      | None \<Rightarrow> \<exists>q' out'. faithful (transport_of E r) og payload q'
                                  \<and> sent w' = sent v @ [(q', out')]))))) w"
proof -
  have hook: "t_refresh (transport_of E r) = refresh E r" by (simp add: transport_of_def)
  show ?thesis
    using live.round_trip_sends [of E E r og w] unfolding recovers_def hook
    by (elim wp_mono) blast
qed

text \<open>C5: A response that shows a lost session never reaches the caller: what \<open>RoundTrip\<close> returns is an
  error or a response of a live session, whatever transport, server and refresher do.\<close>

theorem round_trip_never_returns_loss:
  "wp (round_trip E t og) (\<lambda>res w'. case res of
      Inl e \<Rightarrow> True | Inr response \<Rightarrow> \<not> fst (is_session_loss_for response (t_impersonate t))) w"
  by (rule wp_mono [OF round_trip_answered]) (auto simp: answered_live_def split: sum.splits)

text \<open>A response that is no session loss is passed through, whatever its status: the caller gets the
  result of the first attempt, and nothing else is called, emitted or changed; so is an error of the
  network.\<close>

theorem round_trip_passes_through:
  assumes "buffer_body (og_body og) = Inr payload"
    and "run_state (attempt E (transport_of E r) og payload (rf_jar (w_ref w))) w = (res, w')"
    and "case res of Inl e \<Rightarrow> True | Inr response \<Rightarrow> \<not> fst (is_session_loss_for response (au_impersonate (r_auth r) \<noteq> []))"
  shows "run_state (round_trip E (transport_of E r) og) w = (res, w')"
  using assms session_loss_keeps_response
  by (auto simp: round_trip_def transport_of_def snapshot_def asks_def prod_eq_iff split: sum.splits prod.split bool.split)

theorem round_trip_passes_through_witness:
  "\<exists>w'. run_state (attempt sample_env (transport_of sample_env sample_refresher) sample_outgoing (Some ''{}'') None) sample_world
      = (Inr (plain_response 200), w')
    \<and> run_state (round_trip sample_env (transport_of sample_env sample_refresher) sample_outgoing) sample_world
      = (Inr (plain_response 200), w')"
proof -
  obtain w' where run: "run_state (attempt sample_env (transport_of sample_env sample_refresher) sample_outgoing
      (Some ''{}'') None) sample_world = (Inr (plain_response 200), w')"
    by (simp add: attempt_def add_session_def store_cookies_def observe_def Let_def)
  have "rf_jar (w_ref sample_world) = None" by (simp add: initial_refresher_def)
  with run have "run_state (round_trip sample_env (transport_of sample_env sample_refresher) sample_outgoing) sample_world
      = (Inr (plain_response 200), w')"
    by (intro round_trip_passes_through [where payload = "Some ''{}''"])
       (simp_all add: buffer_body_def sample_outgoing_def is_session_loss_for_def plain_response_def)
  with run show ?thesis by blast
qed

text \<open>An attempt uses the jar of the generation it was given and no other: it sends one request, with
  exactly the cookies of that jar for the URL and with its CSRF token or none, whatever the caller's
  request carried; the refresher is not touched.\<close>

theorem attempt_uses_captured_jar:
  "wp (attempt E t og payload jar) (\<lambda>res w'. w_ref w' = w_ref w
      \<and> (\<exists>q out. visible w' = visible w @ [EvHttp q out] \<and> faithful t og payload q
           \<and> carries E jar (og_url og) w q)) w"
  by (rule wp_mono [OF attempt_post]) (auto simp: exchanged_def)

text \<open>C15: A session that is lost again on the replay is noted for the generation the replay was sent with, and
  reported as a classified error around the server's answer, which keeps its status, its body (trimmed, the
  first 64 KiB of it) and the method and URL of the request: a persistent session loss, unless that
  answer reads as a rate limit. Only an error of noting it comes before.\<close>

theorem persistent_loss_noted:
  assumes "run_state (attempt E (transport_of E r) og payload (rf_jar (w_ref w))) w = (Inr response, v)"
    and "fst (is_session_loss_for response (au_impersonate (r_auth r) \<noteq> []))"
  shows "let api = ApiErr \<lparr>ae_status = rs_status response,
             ae_body = trim_space (case rs_body response of None \<Rightarrow> [] | Some b \<Rightarrow> take (2 ^ 16) (content b)),
             ae_method = rq_method (og_request og), ae_url = url_string (og_url og)\<rparr>;
           kind = (if is_rate_limited api then AuthKindRateLimited else AuthKindPersistentSessionLoss);
           auth_err = AuthErr AuthStageSessionRecovery kind (Some api) (auth_retry_after api)
         in \<exists>noted u.
              run_state (note_ineffective E r (og_ctx og) (rf_generation (w_ref w)) auth_err) v = (noted, u)
              \<and> run_state (replay E (transport_of E r) og payload) w =
                  (Inl (case noted of Some e \<Rightarrow> e | None \<Rightarrow> auth_err), u)"
proof -
  let ?rq = "(og_request og)\<lparr>rq_url := url_string (og_url og)\<rparr>"
  let ?err = "session_loss_error ?rq response"
  let ?api = "\<lparr>ae_status = rs_status response, ae_body = trim_space (drain_body response),
     ae_method = rq_method ?rq, ae_url = rq_url ?rq\<rparr>"
  let ?kind = "if is_rate_limited (ApiErr ?api) then AuthKindRateLimited else AuthKindPersistentSessionLoss"
  let ?auth = "AuthErr AuthStageSessionRecovery ?kind (Some (ApiErr ?api)) (auth_retry_after (ApiErr ?api))"
  have api: "?err = ApiErr ?api" by (simp add: session_loss_error_def)
  have "error_kind AuthStageSessionRecovery ?err = ?kind"
  proof (cases "is_rate_limited ?err")
    case True
    then show ?thesis unfolding api by (simp add: error_kind_def err_simps)
  next
    case False
    then show ?thesis using session_loss_classified [OF assms(2) False] by (simp only: api if_False)
  qed
  then have auth: "classify_auth_error AuthStageSessionRecovery ?err = ?auth"
    unfolding api by (simp add: classify_auth_error_def err_simps)
  define auth_err where "auth_err = ?auth"
  obtain noted u where noting: "run_state (note_ineffective E r (og_ctx og) (rf_generation (w_ref w)) auth_err) v = (noted, u)"
    by fastforce
  have loss: "is_session_loss_for response (au_impersonate (r_auth r) \<noteq> []) = (True, response)"
    using assms(2) session_loss_keeps_response by (simp add: prod_eq_iff)
  have "run_state (replay E (transport_of E r) og payload) w =
      (Inl (case noted of Some e \<Rightarrow> e | None \<Rightarrow> auth_err), u)"
    using assms(1) loss noting auth [folded auth_err_def]
    by (cases noted) (simp_all add: replay_def transport_of_def snapshot_def asks_def Let_def)
  moreover have drained: "drain_body response = (case rs_body response of None \<Rightarrow> [] | Some b \<Rightarrow> take (2 ^ 16) (content b))"
    by (simp only: drain_body_def read_prefix_def drain_limit_def fst_conv)
  moreover have "rq_method ?rq = rq_method (og_request og)" "rq_url ?rq = url_string (og_url og)" by simp_all
  ultimately show ?thesis
    using noting unfolding auth_err_def Let_def by metis
qed

theorem persistent_loss_noted_witness:
  "\<exists>v u noted kind delay.
      run_state (attempt refusing_env (transport_of refusing_env sample_refresher) sample_outgoing (Some ''{}'') None)
        sample_world = (Inr (plain_response 401), v)
      \<and> run_state (replay refusing_env (transport_of refusing_env sample_refresher) sample_outgoing (Some ''{}'')) sample_world =
          (Inl (case noted of Some e \<Rightarrow> e
                | None \<Rightarrow> AuthErr AuthStageSessionRecovery kind
                    (Some (ApiErr \<lparr>ae_status = 401, ae_body = [], ae_method = ''PUT'',
                                   ae_url = url_string (og_url sample_outgoing)\<rparr>)) delay), u)"
proof -
  obtain v where run: "run_state (attempt refusing_env (transport_of refusing_env sample_refresher) sample_outgoing
      (Some ''{}'') None) sample_world = (Inr (plain_response 401), v)"
    by (simp add: refusing_env_def attempt_def add_session_def store_cookies_def observe_def Let_def)
  have jar: "rf_jar (w_ref sample_world) = None" by (simp add: initial_refresher_def)
  have loss: "fst (is_session_loss_for (plain_response 401) (au_impersonate (r_auth sample_refresher) \<noteq> []))"
    by (simp add: is_session_loss_for_def plain_response_def)
  let ?api = "\<lparr>ae_status = 401, ae_body = [], ae_method = ''PUT'', ae_url = url_string (og_url sample_outgoing)\<rparr>"
  have api: "\<lparr>ae_status = rs_status (plain_response 401),
      ae_body = trim_space (case rs_body (plain_response 401) of None \<Rightarrow> [] | Some b \<Rightarrow> take (2 ^ 16) (content b)),
      ae_method = rq_method (og_request sample_outgoing), ae_url = url_string (og_url sample_outgoing)\<rparr> = ?api"
    by (simp add: sample_outgoing_def plain_response_def str_defs)
  obtain noted u where "run_state (replay refusing_env (transport_of refusing_env sample_refresher) sample_outgoing
      (Some ''{}'')) sample_world = (Inl (case noted of Some e \<Rightarrow> e
        | None \<Rightarrow> AuthErr AuthStageSessionRecovery
            (if is_rate_limited (ApiErr ?api) then AuthKindRateLimited else AuthKindPersistentSessionLoss)
            (Some (ApiErr ?api)) (auth_retry_after (ApiErr ?api))), u)"
    using persistent_loss_noted [OF run [folded jar] loss] unfolding Let_def api by blast
  with run show ?thesis by blast
qed

end
