(* ===== verification/Session_Start.thy ===== *)
theory Session_Start
  imports Session_Cycle
begin

text \<open>
  What \<open>initialize\<close> hands to a new client: it returns without an error only after a login it sent
  itself, or with the session the store holds, which the server was asked about first.
\<close>

section \<open>The two ways to a session\<close>

text \<open>A login: after at most one probe of a restored session, complete handshakes up to the last, which
  ends in the final phase; the jar is one that did not exist before.\<close>

definition signed_in :: "refresher \<Rightarrow> world \<Rightarrow> nat \<Rightarrow> world \<Rightarrow> bool" where
  "signed_in r w j w' =
     (length (w_jars w) \<le> j
      \<and> (\<exists>probe runs. sent w' = sent w @ probe @ concat runs \<and> length probe \<le> 1
           \<and> runs \<noteq> [] \<and> length runs \<le> r_max_attempts r
           \<and> list_all (\<lambda>xs. protocol (r_auth r) Fresh xs \<noteq> None) runs
           \<and> protocol (r_auth r) Fresh (last runs) = Some (final_phase (r_auth r))))"

definition probe_passed :: "refresher \<Rightarrow> http_outcome \<Rightarrow> bool" where
  "probe_passed r out =
     (case out of HttpFail _ _ _ \<Rightarrow> True
      | HttpOk response _ \<Rightarrow> \<not> fst (is_session_loss_for response (au_impersonate (r_auth r) \<noteq> [])))"

text \<open>A restored session: the entry of the store, its cookies in a new jar, sent with the probe, whose
  answer was no session loss (\<^verbatim>\<open>stillValid\<close> counts a probe that cannot be built or sent as passed).\<close>

definition restored :: "refresher \<Rightarrow> world \<Rightarrow> nat \<Rightarrow> world \<Rightarrow> bool" where
  "restored r w j w' =
     (\<exists>dir stored t jar. r_store r = Some dir \<and> on_disk dir (r_key r) (w_files w') = Some stored
        \<and> rec_cookies stored \<noteq> [] \<and> rf_generation (w_ref w') = rec_generation stored
        \<and> length (w_jars w) \<le> j
        \<and> tracked_restore t t (rec_cookies stored) (new_tracked_cookie_jar None) = Inr jar
        \<and> (sent w' = sent w \<and> jar_at w' j = jar
           \<or> (\<exists>rq out. sent w' = sent w @ [(rq, out)] \<and> probe_passed r out
                \<and> (\<exists>t u. rq_cookies rq = tracked_cookies t jar u))))"

definition session_ready :: "refresher \<Rightarrow> world \<Rightarrow> go_error option \<Rightarrow> world \<Rightarrow> bool" where
  "session_ready r w res w' =
     (res = None \<longrightarrow> (\<exists>j. rf_jar (w_ref w') = Some j \<and> (signed_in r w j w' \<or> restored r w j w')))"

lemma session_ready_err [simp]: "session_ready r w (Some e) w'"
  by (simp add: session_ready_def)

section \<open>A login yields a jar\<close>

lemma attempts_jar: "0 < n \<Longrightarrow> wp (attempts E r c k n) (\<lambda>x w'. x \<noteq> Inr None) w"
proof (induction n arbitrary: k w)
  case (Suc n)
  have retry: "wp (do { stopped \<leftarrow> sit_out E r c k err;
        case stopped of Some e \<Rightarrow> ret (Inl e) | None \<Rightarrow> attempts E r c (Suc k) n }) (\<lambda>x w'. x \<noteq> Inr None) v"
    if "n \<noteq> 0" for err v
    unfolding wp_bind by (rule wp_any) (use Suc.IH that in \<open>auto simp: wp_ret split: option.split\<close>)
  have last: "wp (do { delay \<leftarrow> retry_delay E r k err; t \<leftarrow> now_op E; set_not_before (t + delay); ret (Inl err) })
        (\<lambda>x w'. x \<noteq> (Inr None :: go_error + nat option)) v" for err v
    by (simp add: wp_def split: prod.split)
  show ?case
    unfolding attempts.simps wp_bind [of new_jar] wp_bind [of "handshake _ _ _ _ _ _"]
  proof (rule wp_any, rule wp_any)
    fix j :: nat and result v
    have good: "wp (do { set_not_before zero_time; ret (Inr (Some j)) }) (\<lambda>x w'. x \<noteq> Inr None) v"
      unfolding wp_bind by (rule wp_any) (simp add: wp_ret)
    show "wp (case result of
            None \<Rightarrow> do { set_not_before zero_time; ret (Inr (Some j)) }
          | Some err \<Rightarrow>
              if \<not> is_rate_limited err then ret (Inl err)
              else if n = 0
              then do { delay \<leftarrow> retry_delay E r k err; t \<leftarrow> now_op E; set_not_before (t + delay); ret (Inl err) }
              else do { stopped \<leftarrow> sit_out E r c k err;
                        case stopped of Some e \<Rightarrow> ret (Inl e) | None \<Rightarrow> attempts E r c (Suc k) n })
        (\<lambda>x w'. x \<noteq> Inr None) v"
    proof (cases result)
      case None
      then show ?thesis using good by simp
    next
      case (Some err)
      have "wp (ret (Inl err)) (\<lambda>x w'. x \<noteq> (Inr None :: go_error + nat option)) v" by (simp add: wp_ret)
      then show ?thesis using Some last retry by simp
    qed
  qed
qed simp

lemma login_jar: "0 < r_max_attempts r \<Longrightarrow> wp (login E r c) (\<lambda>x w'. x \<noteq> Inr None) w"
  unfolding login_def Let_def wp_check_ok
  by (rule wp_any) (auto simp: wp_bind wp_ret release_otp_account_def wp_record_ev
    intro!: wp_mono [OF attempts_jar] split: option.split)

text \<open>How far a run has come before its login: it has sent at most \<open>n\<close> requests.\<close>

definition under_way :: "nat \<Rightarrow> world \<Rightarrow> world \<Rightarrow> bool" where
  "under_way n w v = (length (w_jars w) \<le> length (w_jars v) \<and> (\<exists>probe. sent v = sent w @ probe \<and> length probe \<le> n))"

lemma under_way_refl: "under_way n w w"
  by (simp add: under_way_def)

lemma under_way_calm: "under_way n w v \<Longrightarrow> calm v v' \<Longrightarrow> under_way n w v'"
  by (simp add: under_way_def calm_def memory_def sent_def)

lemma under_way_more: "under_way 0 w v \<Longrightarrow> under_way 1 w v"
  by (simp add: under_way_def)

lemma login_signs_in:
  assumes "0 < r_max_attempts r" "under_way 1 w v"
  shows "wp (login E r c) (\<lambda>x w'. \<forall>j. x = Inr j \<longrightarrow> (\<exists>i. j = Some i \<and> signed_in r w i w')) v"
proof (rule wp_mono [OF wp_conj [OF login_jar [OF assms(1)] wp_conj [OF login_sent login_iso]]])
  fix x w'
  assume post: "x \<noteq> Inr None \<and> cycle_post r (r_max_attempts r) v x w' \<and> cycle_iso v x w'"
  obtain probe where probe: "sent v = sent w @ probe" "length probe \<le> 1" "length (w_jars w) \<le> length (w_jars v)"
    using assms(2) by (auto simp: under_way_def)
  have "signed_in r w i w'" if x: "x = Inr (Some i)" for i
  proof -
    obtain runs where runs: "sent w' = sent v @ concat runs" "length runs \<le> r_max_attempts r" "runs \<noteq> []"
        "list_all (\<lambda>xs. protocol (r_auth r) Fresh xs \<noteq> None) runs"
        "protocol (r_auth r) Fresh (last runs) = Some (final_phase (r_auth r))"
      using post x by (auto simp: cycle_post_def)
    have "length (w_jars v) \<le> i" using post x by (simp add: cycle_iso_def)
    then have "length (w_jars w) \<le> i" using probe(3) by simp
    then show ?thesis
      unfolding signed_in_def using probe(1,2) runs by (intro conjI exI [of _ probe] exI [of _ runs]) simp_all
  qed
  then show "\<forall>j. x = Inr j \<longrightarrow> (\<exists>i. j = Some i \<and> signed_in r w i w')" using post by auto
qed

lemma signed_in_sent: "signed_in r w j v \<Longrightarrow> sent v' = sent v \<Longrightarrow> signed_in r w j v'"
  by (simp add: signed_in_def)

lemma sent_ref [simp]: "sent (w\<lparr>w_ref := s\<rparr>) = sent w"
  by (simp add: sent_def visible_def)

lemma save_record_silent: "state_io_rel (\<lambda>w w'. sent w' = sent w) (save_record E r dir c j g)"
  unfolding save_record_def
  by (intro sil.keep_rules sil.keep_modify calm_silent [OF save_calm, unfolded silent_def])
     (simp add: sent_def put_jar_def visible_def)

definition opened :: "refresher \<Rightarrow> world \<Rightarrow> go_error + (nat option \<times> 64 word) \<Rightarrow> world \<Rightarrow> bool" where
  "opened r w res w' = (\<forall>j g. res = Inr (j, g) \<longrightarrow> (\<exists>i. j = Some i \<and> signed_in r w i w'))"

lemma opened_err [simp]: "opened r w (Inl e) w'"
  by (simp add: opened_def)

lemma publish_signs_in:
  assumes "\<forall>j. x = Inr j \<longrightarrow> (\<exists>i. j = Some i \<and> signed_in r w i v)"
  shows "wp (publish_session E r dir c g x) (opened r w) v"
proof (cases x)
  case (Inl e)
  show ?thesis
    unfolding publish_session_def Inl sum.case wp_bind by (rule wp_any) (simp add: wp_ret)
next
  case (Inr j)
  then obtain i where "j = Some i" "signed_in r w i v" using assms by blast
  then show ?thesis
    unfolding publish_session_def Inr sum.case wp_check_ok
    by (intro silent_wp [OF save_record_silent])
       (auto simp: wp_ret opened_def intro: signed_in_sent split: option.split)
qed

lemma sign_in_signs_in:
  assumes "0 < r_max_attempts r" "under_way 1 w v"
  shows "wp (sign_in E r dir c st d g) (opened r w) v"
proof -
  have go: "wp (login E r c) (\<lambda>x. wp (publish_session E r dir c g x) (opened r w)) u" if "under_way 1 w u" for u
    by (rule wp_mono [OF login_signs_in [OF assms(1) that]]) (rule publish_signs_in)
  have clock: "under_way 1 w (push (EvNow t) u)" if "under_way 1 w u" for t u
    by (rule under_way_calm [OF that]) (simp add: calm.refl)
  show ?thesis
    unfolding sign_in_def Let_def
    by (auto simp: wp_simps intro!: wp_keeps_mono [OF load_account_retry_calm] go clock
      intro: under_way_calm [OF clock [OF assms(2)]] split: sum.split)
qed

lemma start_session_ready:
  assumes "0 < r_max_attempts r" "under_way 1 w v"
  shows "wp (start_session E r dir c stored) (session_ready r w) v"
  unfolding start_session_def wp_let_err
  by (rule wp_mono [OF sign_in_signs_in [OF assms]])
     (auto simp: wp_simps adopt_def update_ref_def session_ready_def opened_def sent_ref
       elim!: signed_in_sent split: sum.splits)

section \<open>Restoring\<close>

lemma client_do_cookies:
  "wp (client_do E j u rq) (\<lambda>out w'. jar_frame j w w'
      \<and> (\<exists>t. sent w' = sent w @ [(rq\<lparr>rq_cookies := tracked_cookies t (jar_at w j) u\<rparr>, out)])) w"
  unfolding client_do_def Let_def
  by (auto simp: wp_simps intro!: wp_keeps_mono [OF set_cookies_calls_quiet])
     (auto simp: jar_quiet_def jar_frame_def sent_def)

lemma still_valid_probe:
  "wp (still_valid E r c j) (\<lambda>valid w'. jar_frame j w w' \<and>
     (sent w' = sent w \<and> w_jars w' = w_jars w \<and> valid
      \<or> (\<exists>rq out. sent w' = sent w @ [(rq, out)] \<and> (valid \<longrightarrow> probe_passed r out)
           \<and> (\<exists>t u. rq_cookies rq = tracked_cookies t (jar_at w j) u)))) w"
proof (cases "new_request (r_auth r) c ''GET'' (au_root (r_auth r) @ session_probe_path) None []")
  case (Inl e)
  then show ?thesis by (simp add: still_valid_def wp_ret jar.refl)
next
  case (Inr p)
  obtain rq u where p: "p = (rq, u)" by (cases p)
  show ?thesis
    unfolding still_valid_def Inr p sum.case prod.case wp_bind
    by (rule wp_mono [OF client_do_cookies])
       (fastforce simp: wp_ret probe_passed_def split: http_outcome.split)
qed

lemma restore_record_post:
  "wp (restore_record E stored) (\<lambda>res w'. w_files w' = w_files w \<and> sent w' = sent w
     \<and> length (w_jars w') = Suc (length (w_jars w))
     \<and> (\<forall>j. res = Inr j \<longrightarrow> j = length (w_jars w)
          \<and> (\<exists>t. tracked_restore t t (rec_cookies stored) (new_tracked_cookie_jar None) = Inr (jar_at w' j)))) w"
proof -
  let ?v = "snd (run_state new_jar w)"
  have new: "wp new_jar Q w = Q (length (w_jars w)) ?v" for Q by (simp add: wp_def new_jar_def)
  have v: "w_files ?v = w_files w" "sent ?v = sent w" "length (w_jars ?v) = Suc (length (w_jars w))"
      "jar_at ?v (length (w_jars w)) = new_tracked_cookie_jar None"
    by (simp_all add: new_jar_def sent_def visible_def jar_at_def nth_append)
  show ?thesis
    unfolding restore_record_def wp_bind [of new_jar] new
    by (auto simp: wp_simps v jar_at_def put_jar_def sent_def visible_def split: sum.splits)
       (use v in \<open>auto simp: sent_def visible_def jar_at_def put_jar_def\<close>)
qed

section \<open>Initialize\<close>

lemma jar_at_cong: "w_jars w' = w_jars w \<Longrightarrow> jar_at w' j = jar_at w j"
  by (simp add: jar_at_def)

lemma restored_start:
  assumes "0 < r_max_attempts r" "r_store r = Some dir" "under_way 0 w v" "sent v = sent w"
    and "on_disk dir (r_key r) (w_files v) = Some stored" "rec_cookies stored \<noteq> []"
  shows "wp (let_err (restore_record E stored)
           (\<lambda>j. do { valid \<leftarrow> still_valid E r c j;
                     if valid
                     then do { update_ref (\<lambda>s. s\<lparr>rf_jar := Some j, rf_generation := rec_generation stored,
                                            rf_not_before := rec_retry_not_before stored\<rparr>);
                               ret None }
                     else start_session E r dir c (stored\<lparr>rec_cookies := []\<rparr>) })) (session_ready r w) v"
  unfolding wp_let_err
proof (rule wp_mono [OF restore_record_post])
  fix x :: "go_error + nat" and u
  assume u: "w_files u = w_files v \<and> sent u = sent v \<and> length (w_jars u) = Suc (length (w_jars v))
     \<and> (\<forall>j. x = Inr j \<longrightarrow> j = length (w_jars v)
          \<and> (\<exists>t. tracked_restore t t (rec_cookies stored) (new_tracked_cookie_jar None) = Inr (jar_at u j)))"
  have probe: "wp (do { valid \<leftarrow> still_valid E r c j;
                     if valid
                     then do { update_ref (\<lambda>s. s\<lparr>rf_jar := Some j, rf_generation := rec_generation stored,
                                            rf_not_before := rec_retry_not_before stored\<rparr>);
                               ret None }
                     else start_session E r dir c (stored\<lparr>rec_cookies := []\<rparr>) }) (session_ready r w) u"
    if x: "x = Inr j" for j
    unfolding wp_bind [of "still_valid _ _ _ _"]
  proof (rule wp_mono [OF still_valid_probe])
    fix valid u'
    assume u': "jar_frame j u u' \<and> (sent u' = sent u \<and> w_jars u' = w_jars u \<and> valid
      \<or> (\<exists>rq out. sent u' = sent u @ [(rq, out)] \<and> (valid \<longrightarrow> probe_passed r out)
           \<and> (\<exists>t u'. rq_cookies rq = tracked_cookies t (jar_at u j) u')))"
    have jars: "length (w_jars w) \<le> length (w_jars v)" "j = length (w_jars v)"
      using assms(3) u x by (auto simp: under_way_def)
    obtain t where t: "tracked_restore t t (rec_cookies stored) (new_tracked_cookie_jar None) = Inr (jar_at u j)"
      using u x by blast
    have sent: "sent u = sent w" using u assms(4) by simp
    have again: "under_way 1 w u'"
      using u u' jars sent by (auto simp: under_way_def jar_frame_def)
    let ?s = "(w_ref u')\<lparr>rf_jar := Some j, rf_generation := rec_generation stored,
                rf_not_before := rec_retry_not_before stored\<rparr>"
    have "restored r w j (u'\<lparr>w_ref := ?s\<rparr>)" if valid
    proof -
      have files: "on_disk dir (r_key r) (w_files u') = Some stored"
        using u u' assms(5) by (simp add: jar_frame_def)
      have way: "sent u' = sent w \<and> jar_at u' j = jar_at u j
         \<or> (\<exists>rq out. sent u' = sent w @ [(rq, out)] \<and> probe_passed r out
              \<and> (\<exists>t u'. rq_cookies rq = tracked_cookies t (jar_at u j) u'))"
        using u' sent that jar_at_cong [of u' u j] by metis
      have jar: "jar_at (u'\<lparr>w_ref := ?s\<rparr>) j = jar_at u' j" by (simp add: jar_at_def)
      show ?thesis
        unfolding restored_def sent_ref jar
        by (intro exI [of _ dir] exI [of _ stored] exI [of _ t] exI [of _ "jar_at u j"] conjI way t)
           (use assms(2,6) files jars in simp_all)
    qed
    then show "wp (if valid
                     then do { update_ref (\<lambda>s. s\<lparr>rf_jar := Some j, rf_generation := rec_generation stored,
                                            rf_not_before := rec_retry_not_before stored\<rparr>);
                               ret None }
                     else start_session E r dir c (stored\<lparr>rec_cookies := []\<rparr>)) (session_ready r w) u'"
      using start_session_ready [OF assms(1) again]
      by (simp add: wp_simps update_ref_def session_ready_def)
  qed
  show "case x of Inl e \<Rightarrow> session_ready r w (Some e) u
      | Inr j \<Rightarrow> wp (do { valid \<leftarrow> still_valid E r c j;
                     if valid
                     then do { update_ref (\<lambda>s. s\<lparr>rf_jar := Some j, rf_generation := rec_generation stored,
                                            rf_not_before := rec_retry_not_before stored\<rparr>);
                               ret None }
                     else start_session E r dir c (stored\<lparr>rec_cookies := []\<rparr>) }) (session_ready r w) u"
    using probe by (cases x) simp_all
qed

lemma initialize_locked_ready:
  assumes "0 < r_max_attempts r" "r_store r = Some dir" "under_way 0 w v" "sent v = sent w"
  shows "wp (initialize_locked E r dir c) (session_ready r w) v"
  unfolding initialize_locked_def wp_bind [of "load _ _ _ _"]
proof (rule wp_mono [OF wp_conj [OF load_wp wp_keeps [OF load_calm]]], clarify)
  fix stored err u
  assume spec: "load_spec E dir (r_key r) (w_files v) (stored, err) u" and step: "dir_step dir v u" and calm: "calm v u"
  have u: "under_way 0 w u" "sent u = sent w"
    using under_way_calm [OF assms(3) calm] assms(4) calm by (simp_all add: calm_def sent_def)
  have start: "wp (start_session E r dir c s) (session_ready r w) u" for s
    by (rule start_session_ready [OF assms(1) under_way_more [OF u(1)]])
  show "wp (case err of
            Some e \<Rightarrow> if no_usable_entry e then start_session E r dir c stored else ret (Some e)
          | None \<Rightarrow>
              if rec_cookies stored = [] then start_session E r dir c stored
              else let_err (restore_record E stored)
                (\<lambda>j. do { valid \<leftarrow> still_valid E r c j;
                          if valid
                          then do { update_ref (\<lambda>s. s\<lparr>rf_jar := Some j, rf_generation := rec_generation stored,
                                                 rf_not_before := rec_retry_not_before stored\<rparr>);
                                    ret None }
                          else start_session E r dir c (stored\<lparr>rec_cookies := []\<rparr>) })) (session_ready r w) u"
  proof (cases err)
    case (Some e)
    then show ?thesis using start by (simp add: wp_ret)
  next
    case None
    then have "on_disk dir (r_key r) (w_files u) = Some stored"
      using load_on_disk spec on_disk_dir_step [OF step] by metis
    then show ?thesis using None start restored_start [OF assms(1,2) u] by simp
  qed
qed

lemma session_ready_closed: "session_ready r w res v \<Longrightarrow> session_ready r w res (push (EvUnlocked p) (closing E v))"
proof -
  have same: "sent (push (EvUnlocked p) (closing E v)) = sent v" "jar_at (closing E v) j = jar_at v j" for j
    by (simp_all add: sent_def jar_at_def)
  show "session_ready r w res v \<Longrightarrow> session_ready r w res (push (EvUnlocked p) (closing E v))"
    by (simp add: session_ready_def signed_in_def restored_def same)
qed

lemma initialize_ready:
  assumes "0 < r_max_attempts r"
  shows "wp (initialize E r c) (session_ready r w) w"
proof (cases "r_store r")
  case None
  show ?thesis
    unfolding initialize_def None option.case wp_let_err
    by (rule wp_mono [OF login_signs_in [OF assms under_way_refl [of 1 w]]])
       (auto simp: wp_simps adopt_def update_ref_def session_ready_def elim!: signed_in_sent split: sum.splits)
next
  case (Some dir)
  have locked: "wp (do { result \<leftarrow> initialize_locked E r dir c; close_lock E p; ret result }) (session_ready r w) v"
    if "under_way 0 w v" "sent v = sent w" for p v
    unfolding wp_bind
    by (rule wp_mono [OF initialize_locked_ready [OF assms Some that]])
       (simp add: wp_close_lock wp_ret session_ready_closed)
  have taken: "under_way 0 w v" "sent v = sent w" if "memory v = memory w" "visible v = visible w @ [EvLocked p]" for v p
    using that by (simp_all add: under_way_def memory_def sent_def)
  show ?thesis
    unfolding initialize_def Some option.case wp_let_err lock_account_def
    by (rule wp_mono [OF acquire_lock_shown]) (auto intro!: locked intro: taken split: sum.splits)
qed

end
