(* ===== verification/Api_Client.thy ===== *)
theory Api_Client
  imports Transport Session_Start
begin

text \<open>
  client.go: the JSON client. \<open>New\<close> builds a client whose session is ready; \<open>do\<close> sends one call
  through the refreshing transport and turns the answer into a value or a typed error. JSON
  itself is a parameter: a body comes as the result of \<^verbatim>\<open>json.Marshal\<close>, a target as the
  function that \<^verbatim>\<open>json.Unmarshal\<close> into it is.
\<close>

section \<open>New\<close>

record config =
  cf_base_url :: string
  cf_username :: string
  cf_password :: string
  cf_otp_secret :: string
  cf_impersonate :: string
  cf_user_agent :: string
  cf_timeout :: duration
  cf_session_cache_dir :: string
  cf_on_event :: bool

record api_client =
  cl_transport :: transport
  cl_jar :: "nat option"
  cl_timeout :: duration
  cl_base :: string

text \<open>
  What \<open>New\<close> and \<open>LoginWithOptions\<close> share: authenticator, refresher with its store, first
  session. A new refresher starts from \<open>initial_refresher\<close>.
\<close>

definition build_client ::
  "env \<Rightarrow> ctx \<Rightarrow> config \<Rightarrow> duration \<Rightarrow> (world, go_error + api_client) state" where
  "build_client E x cfg timeout =
     (case new_authenticator (cf_base_url cfg) (cf_username cfg) (cf_password cfg) (cf_otp_secret cfg)
             (cf_impersonate cfg) (cf_user_agent cfg) timeout (cf_on_event cfg) of
        Inl e \<Rightarrow> ret (Inl e)
      | Inr a \<Rightarrow>
          do { update_ref (\<lambda>_. initial_refresher);
               let_ok (configure_store E (new_refresher a) (cf_session_cache_dir cfg))
                 (\<lambda>r. check_ok (initialize E r x)
                    (do { (generation, jar) \<leftarrow> snapshot;
                          ret (Inr \<lparr>cl_transport = transport_of E r, cl_jar = jar,
                                    cl_timeout = au_timeout a, cl_base = au_root a\<rparr>) })) })"

definition new_client :: "env \<Rightarrow> ctx \<Rightarrow> config \<Rightarrow> (world, go_error + api_client) state" where
  "new_client E x cfg =
     (if trim_space (cf_base_url cfg) = [] then ret (Inl (Plain ''cloudsigma: BaseURL is required''))
      else build_client E x cfg (if cf_timeout cfg \<le> 0 then default_timeout else cf_timeout cfg))"

section \<open>One call\<close>

text \<open>
  \<^verbatim>\<open>http.Client.Do\<close> over the transport: the client's jar on both ends of every round trip,
  its redirect policy \<open>redirect\<close> (the request that follows a response, if any) and its limit
  of ten requests; every error is wrapped.
\<close>

definition http_send :: "env \<Rightarrow> api_client \<Rightarrow> outgoing \<Rightarrow> (world, go_error + http_response) state" where
  "http_send E cl og =
     do { wall \<leftarrow> now_op E;
          cookies \<leftarrow> asks (\<lambda>w. case cl_jar cl of None \<Rightarrow> [] | Some j \<Rightarrow> tracked_cookies wall (jar_at w j) (og_url og));
          result \<leftarrow> round_trip E (cl_transport cl)
            (og\<lparr>og_request := (og_request og)\<lparr>rq_cookies := rq_cookies (og_request og) @ cookies\<rparr>\<rparr>);
          case result of
            Inl e \<Rightarrow> ret (Inl e)
          | Inr response \<Rightarrow>
              do { store_cookies E (cl_jar cl) (og_url og) (rs_set_cookie response); ret (Inr response) } }"

definition url_error :: "go_error \<Rightarrow> go_error" where
  "url_error e = Wrapped ''request failed'' [e]"

type_synonym redirect_policy = "outgoing \<Rightarrow> http_response \<Rightarrow> outgoing option"

fun http_do :: "redirect_policy \<Rightarrow> env \<Rightarrow> api_client \<Rightarrow> nat \<Rightarrow> outgoing \<Rightarrow> (world, go_error + http_response) state" where
  "http_do redirect E cl n og =
     do { result \<leftarrow> http_send E cl og;
          case result of
            Inl e \<Rightarrow> ret (Inl (url_error e))
          | Inr response \<Rightarrow>
              (case redirect og response of
                 None \<Rightarrow> ret (Inr response)
               | Some og' \<Rightarrow>
                   (case n of
                      0 \<Rightarrow> ret (Inl (url_error (Plain ''stopped after 10 redirects'')))
                    | Suc m \<Rightarrow> http_do redirect E cl m og')) }"

definition max_redirects :: nat where "max_redirects = 9"

definition endpoint_url :: "api_client \<Rightarrow> string \<Rightarrow> string" where
  "endpoint_url cl path = cl_base cl @ trim_prefix path ''/''"

text \<open>\<open>body\<close> is \<open>None\<close> for a nil body; an empty encoding would be \<^verbatim>\<open>http.NoBody\<close>.\<close>

definition api_request ::
  "api_client \<Rightarrow> ctx \<Rightarrow> string \<Rightarrow> string \<Rightarrow> (go_error + string) option \<Rightarrow> go_error + outgoing" where
  "api_request cl x meth path body =
     (case body of
        Some (Inl e) \<Rightarrow> Inl e
      | _ \<Rightarrow>
          let payload = (case body of Some (Inr p) \<Rightarrow> Some p | _ \<Rightarrow> None);
              headers = (if payload = None then [] else [(''Content-Type'', ''application/json'')])
          in if x = CtxNil then Inl (Plain ''net/http: nil Context'')
             else case url_parse (endpoint_url cl path) of
                    None \<Rightarrow> Inl (Plain ''parse'')
                  | Some u \<Rightarrow>
                      Inr \<lparr>og_request = \<lparr>rq_method = meth, rq_url = endpoint_url cl path,
                             rq_headers = header_set ''Accept'' ''application/json'' headers,
                             rq_cookies = [], rq_body = payload\<rparr>,
                           og_url = u\<lparr>u_host := trim_suffix (u_host u) '':''\<rparr>,
                           og_body = (case payload of
                                        Some (b # bs) \<Rightarrow> Some \<lparr>content = b # bs, read_error = None\<rparr>
                                      | _ \<Rightarrow> None),
                           og_ctx = x\<rparr>)"

text \<open>An error of \<^verbatim>\<open>http.Client.Do\<close>: the context's own comes first, then the typed ones in its chain.\<close>

definition surface :: "go_error option \<Rightarrow> go_error \<Rightarrow> go_error" where
  "surface ctx_err e =
     (case ctx_err of
        Some c \<Rightarrow> c
      | None \<Rightarrow>
          (case as_auth_error e of
             Some (st, k, cause, d) \<Rightarrow> AuthErr st k cause d
           | None \<Rightarrow> (case as_api_error e of Some a \<Rightarrow> ApiErr a | None \<Rightarrow> e)))"

definition exceeded_note :: string where
  "exceeded_note = ''<response body exceeded 8388608 bytes>''"

definition settle ::
  "string \<Rightarrow> string \<Rightarrow> (string \<Rightarrow> go_error + 'a) option \<Rightarrow> http_response \<Rightarrow> go_error + 'a option" where
  "settle meth url decode response =
     (let payload = read_capped (body_of response) max_response_bytes
      in if \<not> status_ok (rs_status response)
         then case payload of
                Inr p \<Rightarrow> Inl (ApiErr \<lparr>ae_status = rs_status response, ae_body = trim_space p, ae_method = meth, ae_url = url\<rparr>)
              | Inl e \<Rightarrow>
                  if errors_is e ErrResponseTooLarge
                  then Inl (ApiErr \<lparr>ae_status = rs_status response, ae_body = exceeded_note, ae_method = meth, ae_url = url\<rparr>)
                  else Inl e
         else case payload of
                Inl e \<Rightarrow> Inl e
              | Inr p \<Rightarrow>
                  (case decode of
                     None \<Rightarrow> Inr None
                   | Some f \<Rightarrow>
                       if trim_space p = [] then Inr None
                       else case f p of Inl e \<Rightarrow> Inl e | Inr v \<Rightarrow> Inr (Some v)))"

definition api_do ::
  "redirect_policy \<Rightarrow> env \<Rightarrow> api_client \<Rightarrow> ctx \<Rightarrow> string \<Rightarrow> string \<Rightarrow> (go_error + string) option \<Rightarrow>
   (string \<Rightarrow> go_error + 'a) option \<Rightarrow> (world, go_error + 'a option) state" where
  "api_do redirect E cl x meth path body decode =
     (case api_request cl x meth path body of
        Inl e \<Rightarrow> ret (Inl e)
      | Inr og \<Rightarrow>
          do { result \<leftarrow> http_do redirect E cl max_redirects og;
               case result of
                 Inl e \<Rightarrow> do { ended \<leftarrow> context_err E x; ret (Inl (surface ended e)) }
               | Inr response \<Rightarrow> ret (settle meth (endpoint_url cl path) decode response) })"

definition api_get where "api_get redirect E cl x path decode = api_do redirect E cl x ''GET'' path None decode"
definition api_post where "api_post redirect E cl x path body decode = api_do redirect E cl x ''POST'' path body decode"
definition api_put where "api_put redirect E cl x path body decode = api_do redirect E cl x ''PUT'' path body decode"
definition api_delete where "api_delete redirect E cl x path decode = api_do redirect E cl x ''DELETE'' path None decode"

section \<open>What a call returns\<close>

lemma answered_aside: "answered_live t res w \<Longrightarrow> aside w w' \<Longrightarrow> answered_live t res w'"
  by (auto simp: answered_live_def aside_def split: sum.splits)

lemma http_send_answered: "wp (http_send E cl og) (answered_live (cl_transport cl)) w"
  unfolding http_send_def wp_bind [of "now_op _"] wp_now wp_bind [of "asks _"] wp_asks wp_bind [of "round_trip _ _ _"]
proof (rule wp_mono [OF round_trip_answered])
  fix result and v :: world
  assume live: "answered_live (cl_transport cl) result v"
  show "wp (case result of
          Inl e \<Rightarrow> ret (Inl e)
        | Inr response \<Rightarrow>
            do { store_cookies E (cl_jar cl) (og_url og) (rs_set_cookie response); ret (Inr response) })
      (answered_live (cl_transport cl)) v"
    using live answered_aside
    by (cases result) (auto simp: wp_simps wp_ret_fun intro!: wp_mono [OF store_cookies_post])
qed

lemma http_do_answered: "wp (http_do redirect E cl n og) (answered_live (cl_transport cl)) w"
proof (induction n arbitrary: og w)
  case 0
  show ?case
    unfolding http_do.simps [of redirect E cl 0 og] wp_bind nat.case
    by (rule wp_mono [OF http_send_answered])
       (auto simp: wp_ret answered_live_Inl split: sum.split option.split simp del: http_do.simps)
next
  case (Suc n)
  show ?case
    unfolding http_do.simps [of redirect E cl "Suc n" og] wp_bind nat.case
    by (rule wp_mono [OF http_send_answered])
       (auto simp: wp_ret answered_live_Inl Suc.IH split: sum.split option.split simp del: http_do.simps)
qed

lemma settle_2xx: "settle meth url decode response = Inr v \<Longrightarrow> 200 \<le> rs_status response \<and> rs_status response \<le> 299"
  by (simp add: settle_def Let_def status_ok_def split: if_splits sum.splits)

section \<open>A new client\<close>

lemma configure_store_calm: "state_io_rel calm (configure_store E r dir)"
  unfolding configure_store_def new_file_session_store_def Let_def
  by (intro calm.keep_rules ensure_dir_calm)

text \<open>The refresher of a configuration: a directory gives it a store, and its own entry there.\<close>

definition configured :: "auth \<Rightarrow> string \<Rightarrow> refresher" where
  "configured a dir =
     (if dir = [] then new_refresher a
      else (new_refresher a)\<lparr>r_store := Some dir,
             r_key := \<lparr>sk_endpoint = au_root a, sk_username = au_username a,
                       sk_impersonate = au_impersonate a,
                       sk_fingerprint = credential_fingerprint (au_root a) (au_username a)
                                          (au_password a) (au_otp a)\<rparr>\<rparr>)"

lemma configured_simps [simp]: "r_auth (configured a dir) = a" "0 < r_max_attempts (configured a dir)"
  by (simp_all add: configured_def new_refresher_def)

lemma configure_store_result:
  "wp (configure_store E (new_refresher a) dir) (\<lambda>res w'. \<forall>r. res = Inr r \<longrightarrow> r = configured a dir) w"
  unfolding configure_store_def Let_def new_file_session_store_def configured_def
  by (auto simp: wp_simps new_refresher_def intro!: wp_any split: option.split sum.split)

definition client_ready :: "env \<Rightarrow> config \<Rightarrow> auth \<Rightarrow> world \<Rightarrow> go_error + api_client \<Rightarrow> world \<Rightarrow> bool" where
  "client_ready E cfg a w res w' =
     (case res of
        Inl e \<Rightarrow> True
      | Inr cl \<Rightarrow> let r = configured a (cf_session_cache_dir cfg)
          in cl_transport cl = transport_of E r \<and> cl_base cl = au_root a
             \<and> cl_jar cl = rf_jar (w_ref w')
             \<and> (\<exists>j. rf_jar (w_ref w') = Some j \<and> (signed_in r w j w' \<or> restored r w j w'))
             \<and> (\<exists>j g t. w_ref w' = initial_refresher\<lparr>rf_jar := j, rf_generation := g, rf_not_before := t\<rparr>))"

lemma signed_in_from: "sent v = sent w \<Longrightarrow> w_jars v = w_jars w \<Longrightarrow> signed_in r v j w' \<longleftrightarrow> signed_in r w j w'"
  by (simp add: signed_in_def)

lemma restored_from: "sent v = sent w \<Longrightarrow> w_jars v = w_jars w \<Longrightarrow> restored r v j w' \<longleftrightarrow> restored r w j w'"
  by (simp add: restored_def)

lemma build_client_ready:
  assumes "new_authenticator (cf_base_url cfg) (cf_username cfg) (cf_password cfg) (cf_otp_secret cfg)
             (cf_impersonate cfg) (cf_user_agent cfg) timeout (cf_on_event cfg) = Inr a"
  shows "wp (build_client E x cfg timeout) (client_ready E cfg a w) w"
  unfolding build_client_def assms sum.case update_ref_def wp_bind wp_modify wp_let_ok
proof (rule wp_mono [OF wp_conj [OF wp_keeps [OF configure_store_calm] configure_store_result]], clarify)
  fix res :: "go_error + refresher" and v :: world
  let ?w = "w\<lparr>w_ref := initial_refresher\<rparr>" and ?r = "configured a (cf_session_cache_dir cfg)"
  assume calm: "calm ?w v" and made: "\<forall>r. res = Inr r \<longrightarrow> r = ?r"
  have ref: "w_ref v = initial_refresher" using calm by (simp add: calm_def memory_def)
  have from_w: "sent v = sent w" "w_jars v = w_jars w"
    using calm by (simp_all add: calm_def memory_def sent_def visible_def)
  have snap: "wp (check_ok (initialize E ?r x)
           (do { (generation, jar) \<leftarrow> snapshot;
                 ret (Inr \<lparr>cl_transport = transport_of E ?r, cl_jar = jar,
                           cl_timeout = au_timeout a, cl_base = au_root a\<rparr>) })) (client_ready E cfg a w) v"
    unfolding wp_check_ok
  proof (rule wp_mono [OF wp_conj [OF initialize_adopted initialize_ready [OF configured_simps(2)]]])
    fix err u
    assume "adopted v err u \<and> session_ready ?r v err u"
    then show "case err of Some e \<Rightarrow> client_ready E cfg a w (Inl e) u
        | None \<Rightarrow> wp (do { (generation, jar) \<leftarrow> snapshot;
                 ret (Inr \<lparr>cl_transport = transport_of E ?r, cl_jar = jar,
                           cl_timeout = au_timeout a, cl_base = au_root a\<rparr>) }) (client_ready E cfg a w) u"
      by (auto simp: wp_simps client_ready_def Let_def adopted_def ref session_ready_def
          signed_in_from [OF from_w] restored_from [OF from_w] split: option.splits)
  qed
  show "case res of Inl e \<Rightarrow> client_ready E cfg a w (Inl e) v
      | Inr r \<Rightarrow> wp (check_ok (initialize E r x)
           (do { (generation, jar) \<leftarrow> snapshot;
                 ret (Inr \<lparr>cl_transport = transport_of E r, cl_jar = jar,
                           cl_timeout = au_timeout a, cl_base = au_root a\<rparr>) })) (client_ready E cfg a w) v"
    using made snap by (cases res) (simp_all add: client_ready_def)
qed

section \<open>Properties\<close>

text \<open>C8: A call succeeds only with the last answer on the wire, and only when that has a 2xx status and a
  body within the limit that decodes; an answer to an earlier request never counts, and a login page
  or a 401 never does.\<close>

theorem call_succeeds_with_last_answer:
  "wp (api_do redirect E cl x meth path body decode) (\<lambda>res w'. case res of
      Inl e \<Rightarrow> True
    | Inr v \<Rightarrow> \<exists>h q response calls. visible w' = h @ [EvHttp q (HttpOk response calls)]
        \<and> 200 \<le> rs_status response \<and> rs_status response \<le> 299
        \<and> \<not> fst (is_session_loss_for response (t_impersonate (cl_transport cl)))
        \<and> settle meth (endpoint_url cl path) decode response = Inr v) w"
proof (cases "api_request cl x meth path body")
  case (Inl e)
  then show ?thesis by (simp add: api_do_def wp_ret)
next
  case (Inr og)
  show ?thesis
    unfolding api_do_def Inr sum.case wp_bind [of "http_do _ _ _ _ _"]
  proof (rule wp_mono [OF http_do_answered])
    fix result v
    assume live: "answered_live (cl_transport cl) result v"
    have failed: "wp (do { ended \<leftarrow> context_err E x; ret (Inl (surface ended e)) })
        (\<lambda>res w'. case res of Inl e \<Rightarrow> True | Inr y \<Rightarrow> Q y w') v" for e and Q :: "'a option \<Rightarrow> world \<Rightarrow> bool"
      by (simp add: wp_bind wp_ret_fun wp_top)
    let ?Q = "\<lambda>res w'. case res of
        Inl (e :: go_error) \<Rightarrow> True
      | Inr v \<Rightarrow> \<exists>h q response calls. visible w' = h @ [EvHttp q (HttpOk response calls)]
          \<and> 200 \<le> rs_status response \<and> rs_status response \<le> 299
          \<and> \<not> fst (is_session_loss_for response (t_impersonate (cl_transport cl)))
          \<and> settle meth (endpoint_url cl path) decode response = Inr v"
    show "wp (case result of
          Inl e \<Rightarrow> do { ended \<leftarrow> context_err E x; ret (Inl (surface ended e)) }
        | Inr response \<Rightarrow> ret (settle meth (endpoint_url cl path) decode response)) ?Q v"
    proof (cases result)
      case (Inl e)
      then show ?thesis using failed by simp
    next
      case (Inr response)
      then obtain h q calls where "visible v = h @ [EvHttp q (HttpOk response calls)]"
          "\<not> fst (is_session_loss_for response (t_impersonate (cl_transport cl)))"
        using live by (auto simp: answered_live_def)
      then show ?thesis
        using settle_2xx [of meth "endpoint_url cl path" decode response]
        by (cases "settle meth (endpoint_url cl path) decode response") (auto simp: Inr wp_ret)
    qed
  qed
qed

text \<open>C14: An answer with an error status fails the call with that status, the method and the URL: with the
  whole trimmed body when it is within the limit, with a note in its place when it is longer. Only
  a body that breaks off before the limit gives the reader's error instead.\<close>

theorem error_answer_keeps_status:
  assumes "\<not> (200 \<le> rs_status response \<and> rs_status response \<le> 299)"
  shows "settle meth url decode response = Inl (case read_error (body_of response) of
      Some f \<Rightarrow>
        if length (content (body_of response)) \<le> 8388608 then net_error f
        else ApiErr \<lparr>ae_status = rs_status response, ae_body = exceeded_note, ae_method = meth, ae_url = url\<rparr>
    | None \<Rightarrow> ApiErr \<lparr>ae_status = rs_status response,
        ae_body = (if length (content (body_of response)) \<le> 8388608 then trim_space (content (body_of response))
                   else exceeded_note),
        ae_method = meth, ae_url = url\<rparr>)"
proof -
  have limit: "max_response_bytes = 8388608" by (simp add: max_response_bytes_def)
  show ?thesis
    using assms
    by (cases "read_error (body_of response)")
       (auto simp: settle_def status_ok_def read_capped_def read_all_limited_def limit err_simps not_le Let_def
          Suc_le_eq less_Suc_eq_le)
qed

lemma error_answer_keeps_status_witness:
  "settle ''GET'' ''https://api.example/drives/'' (None :: (string \<Rightarrow> go_error + unit) option) (plain_response 503)
     = Inl (ApiErr \<lparr>ae_status = 503, ae_body = [], ae_method = ''GET'', ae_url = ''https://api.example/drives/''\<rparr>)"
  by (subst error_answer_keeps_status) (simp_all add: plain_response_def body_of_def str_defs)

text \<open>C10: A classified authentication error of the transport reaches the caller of the JSON client as it is,
  without the wrapping of \<^verbatim>\<open>net/http\<close>; when the caller's context has ended, its error comes first.\<close>

theorem auth_error_surfaces:
  assumes "api_request cl x meth path body = Inr og"
    and "run_state (http_send E cl og) w = (Inl e, v)" and "as_auth_error e = Some (st, k, cause, d)"
    and "run_state (context_err E x) v = (ended, u)"
  shows "run_state (api_do redirect E cl x meth path body decode) w =
    (Inl (case ended of Some c \<Rightarrow> c | None \<Rightarrow> AuthErr st k cause d), u)"
proof -
  have "run_state (http_do redirect E cl max_redirects og) w = (Inl (url_error e), v)"
    by (simp add: http_do.simps [of _ _ _ max_redirects] assms(2) del: http_do.simps)
  moreover have "as_auth_error (url_error e) = Some (st, k, cause, d)"
    using assms(3) by (simp add: url_error_def err_simps)
  ultimately show ?thesis
    using assms(1,4) by (simp add: api_do_def surface_def del: http_do.simps split: option.split)
qed

text \<open>A client whose session is lost and whose recovery is refused.\<close>

definition refused_client :: api_client where
  "refused_client = \<lparr>cl_transport = (transport_of refusing_env sample_refresher)
       \<lparr>t_refresh := \<lambda>c g. ret (Some (AuthErr AuthStageLogin AuthKindRejectedCredentials None 0))\<rparr>,
     cl_jar = None, cl_timeout = second, cl_base = ''https://api.example/''\<rparr>"

theorem auth_error_surfaces_witness:
  "\<exists>u og. api_request refused_client (Ctx 1) ''GET'' ''/drives/'' None = Inr og
    \<and> run_state (api_do (\<lambda>og r. None) refusing_env refused_client (Ctx 1) ''GET'' ''/drives/'' None
        (None :: (string \<Rightarrow> go_error + unit) option)) sample_world
      = (Inl (AuthErr AuthStageLogin AuthKindRejectedCredentials None 0), u)"
proof -
  have url: "endpoint_url refused_client ''/drives/'' = ''https://api.example/drives/''"
    by (simp add: endpoint_url_def refused_client_def trim_prefix_def has_prefix_def)
  have "url_parse ''https://api.example/drives/'' \<noteq> None" by code_simp
  then obtain og where og: "api_request refused_client (Ctx 1) ''GET'' ''/drives/'' None = Inr og" "og_body og = None"
    by (auto simp: api_request_def url Let_def)
  have "\<exists>v. run_state (http_send refusing_env refused_client og) sample_world
      = (Inl (AuthErr AuthStageLogin AuthKindRejectedCredentials None 0), v)"
    by (simp add: http_send_def round_trip_def buffer_body_def og(2) refused_client_def transport_of_def snapshot_def
        asks_def attempt_def add_session_def store_cookies_def refusing_env_def now_op_def observe_def Let_def
        is_session_loss_for_def recover_and_replay_def emit_def sample_refresher_def new_refresher_def sample_auth_def
        initial_refresher_def push_ref plain_response_def)
  then obtain v where run: "run_state (http_send refusing_env refused_client og) sample_world
      = (Inl (AuthErr AuthStageLogin AuthKindRejectedCredentials None 0), v)" by blast
  obtain u where "run_state (context_err refusing_env (Ctx 1)) v = (None, u)"
    by (simp add: context_err_def observe_def Let_def refusing_env_def)
  from auth_error_surfaces [OF og(1) run _ this] og show ?thesis
    by (auto simp: err_simps)
qed


end
