(* ===== verification/Login_Cache.thy ===== *)
theory Login_Cache
  imports Api_Client
begin

text \<open>
  session.go: \<open>LoginWithOptions\<close>. Callers with the same credentials share one client: the
  first performs the login, the others wait for it. The package's two maps are seen here
  as its goroutines see them: every critical section under \<open>sessionMu\<close> is one step, and
  any goroutine may move. A \<open>sessionCacheCall\<close> is an address, so is a client.
\<close>

section \<open>What is cached\<close>

type_synonym cache_key = "int list"

definition session_cache_key :: "config \<Rightarrow> cache_key" where
  "session_cache_key cfg =
     sha256 (bytes_of (join_with [nul]
       [cf_base_url cfg, cf_username cfg, cf_password cfg, cf_otp_secret cfg, cf_impersonate cfg]))"

definition cacheable :: "config \<Rightarrow> bool" where
  "cacheable cfg = (\<not> cf_on_event cfg \<and> cf_timeout cfg \<le> 0 \<and> cf_session_cache_dir cfg = [])"

text \<open>
  The options of \<open>LoginWithOptions\<close>, and the configuration they make with the credentials;
  \<open>Login\<close> has none, so that it always uses the cache.
\<close>

record login_options =
  lo_on_event :: bool
  lo_timeout :: duration
  lo_session_cache_dir :: string

definition no_options :: login_options where
  "no_options = \<lparr>lo_on_event = False, lo_timeout = 0, lo_session_cache_dir = []\<rparr>"

definition login_config ::
  "string \<Rightarrow> string \<Rightarrow> string \<Rightarrow> string \<Rightarrow> string \<Rightarrow> string \<Rightarrow> login_options \<Rightarrow> config" where
  "login_config base_url username password otp_secret target user_agent options =
     \<lparr>cf_base_url = base_url, cf_username = username, cf_password = password, cf_otp_secret = otp_secret,
      cf_impersonate = target, cf_user_agent = user_agent, cf_timeout = lo_timeout options,
      cf_session_cache_dir = lo_session_cache_dir options, cf_on_event = lo_on_event options\<rparr>"

definition legacy_config :: "string \<Rightarrow> string \<Rightarrow> string \<Rightarrow> string \<Rightarrow> string \<Rightarrow> string \<Rightarrow> config" where
  "legacy_config base_url username password otp_secret target user_agent =
     login_config base_url username password otp_secret target user_agent no_options"

lemma legacy_cacheable: "cacheable (legacy_config b u p o' i a)"
  by (simp add: cacheable_def legacy_config_def login_config_def no_options_def)

text \<open>The user agent is no part of the key: callers that differ only in it share a client.\<close>

lemma key_ignores_options:
  "session_cache_key (login_config b u p o' i a opts) = session_cache_key (legacy_config b u p o' i a')"
  by (simp add: session_cache_key_def login_config_def legacy_config_def)

text \<open>What the caller that logs in runs, and every caller that is not cached.\<close>

definition or_background :: "ctx \<Rightarrow> ctx" where
  "or_background x = (if x = CtxNil then detached else x)"

definition own_login :: "env \<Rightarrow> ctx \<Rightarrow> config \<Rightarrow> (world, go_error + api_client) state" where
  "own_login E x cfg =
     build_client E (or_background x) cfg
       (if cf_timeout cfg \<le> 0 then 60 * second else cf_timeout cfg)"

section \<open>The shared maps\<close>

datatype stage = Outside | Looking cache_key | Waiting cache_key nat | Leading cache_key nat
  | Finished cache_key "go_error + nat"

record cache_call =
  cc_err :: "go_error option"
  cc_owner_context_err :: "go_error option"

record login_cache =
  lc_cache :: "cache_key \<rightharpoonup> nat"
  lc_calls :: "cache_key \<rightharpoonup> nat"
  lc_done :: "nat \<rightharpoonup> cache_call"
  lc_next :: nat
  lc_stage :: "nat \<Rightarrow> stage"

definition empty_cache :: login_cache where
  "empty_cache = \<lparr>lc_cache = Map.empty, lc_calls = Map.empty, lc_done = Map.empty, lc_next = 0,
     lc_stage = (\<lambda>_. Outside)\<rparr>"

definition go_to :: "nat \<Rightarrow> stage \<Rightarrow> login_cache \<Rightarrow> login_cache" where
  "go_to g p s = s\<lparr>lc_stage := (lc_stage s)(g := p)\<rparr>"

text \<open>One round of the loop, up to the wait.\<close>

definition look_up :: "nat \<Rightarrow> cache_key \<Rightarrow> login_cache \<Rightarrow> login_cache" where
  "look_up g k s =
     (case lc_cache s k of
        Some client \<Rightarrow> go_to g (Finished k (Inr client)) s
      | None \<Rightarrow>
          (case lc_calls s k of
             Some call \<Rightarrow> go_to g (Waiting k call) s
           | None \<Rightarrow> go_to g (Leading k (lc_next s)) (s\<lparr>lc_calls := (lc_calls s)(k \<mapsto> lc_next s), lc_next := lc_next s + 1\<rparr>)))"

text \<open>After the wait: \<open>None\<close> is another round. \<open>ended\<close> is the error of the waiter's own context.\<close>

definition after_wait :: "go_error option \<Rightarrow> cache_call \<Rightarrow> go_error option" where
  "after_wait ended call =
     (case ended of
        Some e \<Rightarrow> Some e
      | None \<Rightarrow>
          (case cc_err call of
             None \<Rightarrow> None
           | Some e \<Rightarrow> if cc_owner_context_err call \<noteq> None \<and> is_context_error e then None else Some e))"

text \<open>The deferred function of the leader.\<close>

definition hand_over :: "nat \<Rightarrow> cache_key \<Rightarrow> nat \<Rightarrow> go_error + nat \<Rightarrow> go_error option \<Rightarrow> login_cache \<Rightarrow> login_cache" where
  "hand_over g k call result owner_err s =
     go_to g (Finished k result)
       (s\<lparr>lc_cache := (case result of Inr client \<Rightarrow> (lc_cache s)(k \<mapsto> client) | Inl e \<Rightarrow> lc_cache s),
          lc_done := (lc_done s)(call \<mapsto> \<lparr>cc_err = (case result of Inl e \<Rightarrow> Some e | Inr c \<Rightarrow> None),
                                         cc_owner_context_err = owner_err\<rparr>),
          lc_calls := (lc_calls s)(k := None)\<rparr>)"

inductive cache_step :: "login_cache \<Rightarrow> login_cache \<Rightarrow> bool" where
  enter: "lc_stage s g = Outside \<Longrightarrow> cache_step s (go_to g (Looking k) s)"
| look: "lc_stage s g = Looking k \<Longrightarrow> cache_step s (look_up g k s)"
| expire: "lc_stage s g = Waiting k call \<Longrightarrow> ctx_error st = Some e \<Longrightarrow>
    cache_step s (go_to g (Finished k (Inl e)) s)"
| again: "lc_stage s g = Waiting k call \<Longrightarrow> lc_done s call = Some c \<Longrightarrow> after_wait (ctx_error st) c = None \<Longrightarrow>
    cache_step s (go_to g (Looking k) s)"
| give: "lc_stage s g = Waiting k call \<Longrightarrow> lc_done s call = Some c \<Longrightarrow> after_wait (ctx_error st) c = Some e \<Longrightarrow>
    cache_step s (go_to g (Finished k (Inl e)) s)"
| finish: "lc_stage s g = Leading k call \<Longrightarrow>
    cache_step s (hand_over g k call result (ctx_error st) s)"
| leave: "lc_stage s g = Finished k result \<Longrightarrow> cache_step s (go_to g Outside s)"

inductive cache_reachable :: "login_cache \<Rightarrow> bool" where
  start: "cache_reachable empty_cache"
| step: "cache_reachable s \<Longrightarrow> cache_step s t \<Longrightarrow> cache_reachable t"

section \<open>Invariants\<close>

text \<open>
  A call in the map has a leader, who alone logs in for the key; a key with a client has no
  call; a waiter's call is in the map or done; whoever got a client got the cached one.
\<close>

definition cache_ok :: "login_cache \<Rightarrow> bool" where
  "cache_ok s =
     ((\<forall>g k call. lc_stage s g = Leading k call \<longrightarrow> lc_calls s k = Some call \<and> lc_cache s k = None)
      \<and> (\<forall>g h k call call'. lc_stage s g = Leading k call \<longrightarrow> lc_stage s h = Leading k call' \<longrightarrow> g = h)
      \<and> (\<forall>k call. lc_calls s k = Some call \<longrightarrow> (\<exists>g. lc_stage s g = Leading k call))
      \<and> (\<forall>g k call. lc_stage s g = Waiting k call \<longrightarrow> lc_calls s k = Some call \<or> lc_done s call \<noteq> None)
      \<and> (\<forall>g k client. lc_stage s g = Finished k (Inr client) \<longrightarrow> lc_cache s k = Some client))"

lemma go_to_fields [simp]:
  "lc_cache (go_to g p s) = lc_cache s" "lc_calls (go_to g p s) = lc_calls s" "lc_done (go_to g p s) = lc_done s"
  "lc_next (go_to g p s) = lc_next s" "lc_stage (go_to g p s) = (lc_stage s)(g := p)"
  by (simp_all add: go_to_def)

lemma cache_okD:
  assumes "cache_ok s"
  shows "lc_stage s g = Leading k call \<Longrightarrow> lc_calls s k = Some call"
    and "lc_stage s g = Leading k call \<Longrightarrow> lc_cache s k = None"
    and "lc_stage s g = Leading k call \<Longrightarrow> lc_stage s h = Leading k call' \<Longrightarrow> g = h"
    and "lc_calls s k = Some call \<Longrightarrow> \<exists>g. lc_stage s g = Leading k call"
    and "lc_stage s g = Waiting k call \<Longrightarrow> lc_calls s k = Some call \<or> lc_done s call \<noteq> None"
    and "lc_stage s g = Finished k (Inr client) \<Longrightarrow> lc_cache s k = Some client"
  using assms unfolding cache_ok_def by blast+

text \<open>A goroutine that neither leads nor starts to.\<close>

lemma cache_ok_move:
  assumes "cache_ok s" and "\<And>k call. lc_stage s g \<noteq> Leading k call" and "\<And>k call. p \<noteq> Leading k call"
    and "\<And>k call. p = Waiting k call \<Longrightarrow> lc_calls s k = Some call"
    and "\<And>k client. p = Finished k (Inr client) \<Longrightarrow> lc_cache s k = Some client"
  shows "cache_ok (go_to g p s)"
  unfolding cache_ok_def go_to_fields
proof (intro conjI)
  show "\<forall>k call. lc_calls s k = Some call \<longrightarrow> (\<exists>h. ((lc_stage s)(g := p)) h = Leading k call)"
    using cache_okD(4) [OF assms(1)] assms(2) by (metis fun_upd_other)
qed (use cache_okD [OF assms(1)] assms(3-5) in auto)

lemma cache_ok_look:
  assumes ok: "cache_ok s" and look: "lc_stage s g = Looking k"
  shows "cache_ok (look_up g k s)"
proof (cases "lc_cache s k")
  case (Some client)
  then show ?thesis unfolding look_up_def using look by (auto intro!: cache_ok_move [OF ok])
next
  case None
  show ?thesis
  proof (cases "lc_calls s k")
    case (Some call)
    with None show ?thesis unfolding look_up_def using look by (auto intro!: cache_ok_move [OF ok])
  next
    case nocall: None
    have "lc_stage s h \<noteq> Leading k call" for h call
      using cache_okD(1) [OF ok, of h k call] nocall by auto
    then have free: "lc_stage s h \<noteq> Leading k call" for h call .
    have t: "look_up g k s = go_to g (Leading k (lc_next s))
        (s\<lparr>lc_calls := (lc_calls s)(k \<mapsto> lc_next s), lc_next := lc_next s + 1\<rparr>)"
      by (simp add: look_up_def None nocall)
    show ?thesis
      unfolding cache_ok_def t go_to_fields
    proof (intro conjI allI impI, goal_cases)
      case (3 h i j c c')
      then show ?case using cache_okD(3) [OF ok] free by (auto split: if_splits)
    next
      case (4 j c)
      show ?case
      proof (cases "j = k")
        case True
        then show ?thesis using 4 by (intro exI [of _ g]) simp
      next
        case False
        then obtain h where h: "lc_stage s h = Leading j c" using 4 cache_okD(4) [OF ok, of j c] by auto
        then show ?thesis using look by (intro exI [of _ h]) auto
      qed
    next
      case (5 h j c)
      then show ?case using cache_okD(5) [OF ok, of h j c] nocall by (auto split: if_splits)
    qed (use cache_okD(1,2,6) [OF ok] None free in \<open>auto split: if_splits\<close>)
  qed
qed

lemma cache_ok_hand_over:
  assumes ok: "cache_ok s" and lead: "lc_stage s g = Leading k call"
  shows "cache_ok (hand_over g k call result e s)"
proof -
  have alone: "h = g" if "lc_stage s h = Leading k c" for h c
    using cache_okD(3) [OF ok that lead] .
  have other: "j \<noteq> k" if "lc_stage s h = Finished j (Inr c)" for h j c
    using cache_okD(6) [OF ok that] cache_okD(2) [OF ok lead] by auto
  have here: "lc_calls s k = Some call" using cache_okD(1) [OF ok lead] .
  show ?thesis
    unfolding cache_ok_def hand_over_def go_to_fields
  proof (intro conjI allI impI, goal_cases)
    case (1 h j c)
    then show ?case using cache_okD(1) [OF ok, of h j c] alone [of h] by (auto split: if_splits)
  next
    case (2 h j c)
    then show ?case using cache_okD(2) [OF ok, of h j c] alone [of h] by (auto split: if_splits sum.split)
  next
    case (3 h i j c c')
    then show ?case using cache_okD(3) [OF ok, of h j c i c'] by (auto split: if_splits)
  next
    case (4 j c)
    then obtain h where "lc_stage s h = Leading j c" "j \<noteq> k"
      using cache_okD(4) [OF ok, of j c] by (auto split: if_splits)
    then show ?case using lead by (intro exI [of _ h]) auto
  next
    case (5 h j c)
    then show ?case using cache_okD(5) [OF ok, of h j c] here by (auto split: if_splits)
  next
    case (6 h j c)
    then show ?case using cache_okD(6) [OF ok, of h j c] other [of h j c] by (auto split: if_splits sum.split)
  qed
qed

lemma cache_ok_step: "cache_step s t \<Longrightarrow> cache_ok s \<Longrightarrow> cache_ok t"
  by (induction rule: cache_step.induct)
     (auto intro: cache_ok_look cache_ok_hand_over intro!: cache_ok_move)

lemma reachable_cache_ok: "cache_reachable s \<Longrightarrow> cache_ok s"
proof (induction rule: cache_reachable.induct)
  case start
  show ?case by (simp add: cache_ok_def empty_cache_def)
qed (rule cache_ok_step)

lemma cached_for_good:
  assumes "cache_step s t" "cache_ok s" "lc_cache s k = Some client"
  shows "lc_cache t k = Some client"
  using assms
proof (induction rule: cache_step.induct)
  case (look s g j)
  then show ?case by (simp add: look_up_def split: option.split)
next
  case (finish s g j call result st)
  then have "j \<noteq> k" using cache_okD(2) [of s g j call] by auto
  with finish show ?case by (simp add: hand_over_def split: sum.split)
qed simp_all

lemma cached_for_good_steps:
  assumes "cache_step\<^sup>*\<^sup>* s t" "cache_ok s" "lc_cache s k = Some client"
  shows "lc_cache t k = Some client \<and> cache_ok t"
  using assms
  by (induction rule: rtranclp_induct) (auto intro: cached_for_good cache_ok_step)

section \<open>Properties\<close>

text \<open>C9: One login per credential set: while a caller logs in for a key, no other does, the key has no
  client yet, and newcomers find its call to wait for.\<close>

theorem one_login_per_key:
  assumes "cache_reachable s" and "lc_stage s g = Leading k call"
  shows "{h. \<exists>c. lc_stage s h = Leading k c} = {g} \<and> lc_cache s k = None \<and> lc_calls s k = Some call"
  using cache_okD(1-3) [OF reachable_cache_ok [OF assms(1)]] assms(2) by blast

text \<open>A leader and a waiter.\<close>

definition shared_login :: login_cache where
  "shared_login = look_up 1 [7] (go_to 1 (Looking [7]) (look_up 0 [7] (go_to 0 (Looking [7]) empty_cache)))"

lemma shared_login_stages:
  "lc_stage shared_login 0 = Leading [7] 0" "lc_stage shared_login 1 = Waiting [7] 0"
  by (simp_all add: shared_login_def look_up_def empty_cache_def)

lemma shared_login_reachable: "cache_reachable shared_login"
proof -
  have visit: "cache_reachable (look_up g k (go_to g (Looking k) s))" if "cache_reachable s" "lc_stage s g = Outside" for g k s
    by (rule cache_reachable.step [OF cache_reachable.step [OF that(1) cache_step.enter [OF that(2)]] cache_step.look]) simp
  have "cache_reachable (look_up 0 [7] (go_to 0 (Looking [7]) empty_cache))"
    by (rule visit [OF cache_reachable.start]) (simp add: empty_cache_def)
  then show ?thesis
    unfolding shared_login_def by (rule visit) (simp add: empty_cache_def look_up_def)
qed

theorem one_login_per_key_witness:
  "{h. \<exists>c. lc_stage shared_login h = Leading [7] c} = {0} \<and> lc_cache shared_login [7] = None"
  using one_login_per_key [OF shared_login_reachable shared_login_stages(1)] by blast

text \<open>C11: Callers of one credential set share one client for good: whoever gets a client, now or in any
  later state, gets the same one.\<close>

theorem callers_share_client:
  assumes "cache_reachable s" and "lc_stage s g = Finished k (Inr client)"
    and "cache_step\<^sup>*\<^sup>* s t" and "lc_stage t h = Finished k (Inr client')"
  shows "client' = client"
proof -
  have ok: "cache_ok s" using reachable_cache_ok [OF assms(1)] .
  from cached_for_good_steps [OF assms(3) ok cache_okD(6) [OF ok assms(2)]] show ?thesis
    using cache_okD(6) [of t h k client'] assms(4) by auto
qed

text \<open>Another caller, later, after the leader has succeeded with client 3.\<close>

definition shared_success :: login_cache where
  "shared_success = hand_over 0 [7] 0 (Inr 3) None shared_login"

theorem callers_share_client_witness:
  "lc_stage shared_success 0 = Finished [7] (Inr 3)
   \<and> lc_stage (look_up 2 [7] (go_to 2 (Looking [7]) shared_success)) 2 = Finished [7] (Inr 3)"
proof -
  let ?t = "look_up 2 [7] (go_to 2 (Looking [7]) shared_success)"
  have "cache_step shared_login (hand_over 0 [7] 0 (Inr 3) (ctx_error CtxLive) shared_login)"
    by (rule cache_step.finish [OF shared_login_stages(1)])
  then have first: "cache_reachable shared_success"
    using cache_reachable.step [OF shared_login_reachable] by (simp add: shared_success_def)
  have stages: "lc_stage shared_success 0 = Finished [7] (Inr 3)" "lc_stage shared_success 2 = Outside"
    by (simp_all add: shared_success_def hand_over_def shared_login_def look_up_def empty_cache_def)
  have "cache_step shared_success (go_to 2 (Looking [7]) shared_success)"
    by (rule cache_step.enter [OF stages(2)])
  moreover have "cache_step (go_to 2 (Looking [7]) shared_success) ?t" by (rule cache_step.look) simp
  ultimately have run: "cache_step\<^sup>*\<^sup>* shared_success ?t"
    by (rule rtranclp.rtrancl_into_rtrancl [OF r_into_rtranclp])
  obtain c where "lc_stage ?t 2 = Finished [7] (Inr c)"
    by (simp add: look_up_def shared_success_def hand_over_def)
  then show ?thesis using callers_share_client [OF first stages(1) run] stages(1) by blast
qed

text \<open>C12: No waiter is stranded: its call is done or has a leader whose login ends it, and then the waiter
  can go on by itself - with its own context alive, to another look at the cache after a success or
  after a leader whose own context had ended, so that nobody inherits a cancellation.\<close>

theorem login_waiters_wake:
  assumes "cache_reachable s" and "lc_stage s g = Waiting k call"
  shows "\<exists>t c. cache_step\<^sup>*\<^sup>* s t \<and> lc_stage t g = Waiting k call \<and> lc_done t call = Some c
    \<and> (case after_wait None c of
         None \<Rightarrow> cache_step t (go_to g (Looking k) t)
       | Some e \<Rightarrow> cc_err c = Some e \<and> (cc_owner_context_err c = None \<or> \<not> is_context_error e)
           \<and> cache_step t (go_to g (Finished k (Inl e)) t))"
proof -
  have ok: "cache_ok s" using reachable_cache_ok [OF assms(1)] .
  have "\<exists>t c. cache_step\<^sup>*\<^sup>* s t \<and> lc_stage t g = Waiting k call \<and> lc_done t call = Some c"
  proof (cases "lc_done s call")
    case None
    then obtain h where h: "lc_stage s h = Leading k call"
      using cache_okD(4,5) [OF ok] assms(2) by blast
    then have "h \<noteq> g" using assms(2) by auto
    then have "lc_stage (hand_over h k call (Inl (Sentinel ContextCanceled)) (ctx_error CtxLive) s) g = Waiting k call"
      using assms(2) by (simp add: hand_over_def)
    moreover have "lc_done (hand_over h k call (Inl (Sentinel ContextCanceled)) (ctx_error CtxLive) s) call \<noteq> None"
      by (simp add: hand_over_def)
    ultimately show ?thesis using cache_step.finish [OF h] by blast
  qed (use assms(2) in blast)
  then obtain t c where t: "cache_step\<^sup>*\<^sup>* s t" "lc_stage t g = Waiting k call" "lc_done t call = Some c" by blast
  have "case after_wait None c of
         None \<Rightarrow> cache_step t (go_to g (Looking k) t)
       | Some e \<Rightarrow> cc_err c = Some e \<and> (cc_owner_context_err c = None \<or> \<not> is_context_error e)
           \<and> cache_step t (go_to g (Finished k (Inl e)) t)"
    using cache_step.again [OF t(2,3), of CtxLive] cache_step.give [OF t(2,3), of CtxLive]
    by (auto simp: after_wait_def split: option.split)
  with t show ?thesis by blast
qed

theorem login_waiters_wake_witness:
  "lc_stage shared_login 1 = Waiting [7] 0
   \<and> (\<exists>t c. cache_step\<^sup>*\<^sup>* shared_login t \<and> lc_stage t 1 = Waiting [7] 0 \<and> lc_done t 0 = Some c)"
  using login_waiters_wake [OF shared_login_reachable shared_login_stages(2)] shared_login_stages(2) by blast

end
