(* ===== verification/Event_Vocabulary.thy ===== *)
theory Event_Vocabulary
  imports Api_Client
begin

text \<open>
  What the handler of auth.go gets to hear. The documentation of \<open>AuthEvent\<close> promises an
  observation of low cardinality, free of credentials, cookies, URLs and response bodies: here
  that every event of a client's whole life has its reason and its outcome from a fixed list and
  a status only when it reports an attempt. The relation is one more instance of
  \<open>session_preorder\<close>, carried on through the locks, the flights and the transport.
\<close>

definition heard :: "world \<Rightarrow> auth_event list" where
  "heard w = List.map_filter (\<lambda>e. case e of EvEmit a \<Rightarrow> Some a | _ \<Rightarrow> None) (visible w)"

definition reported :: "world \<Rightarrow> world \<Rightarrow> bool" where
  "reported w w' = (\<exists>es. visible w' = visible w @ es \<and> list_all event_ok es)"

lemma reportedI: "visible w' = visible w @ es \<Longrightarrow> list_all event_ok es \<Longrightarrow> reported w w'"
  unfolding reported_def by blast

lemma reported_same: "visible w' = visible w \<Longrightarrow> reported w w'"
  by (rule reportedI [where es = "[]"]) simp_all

interpretation rep: session_preorder reported
proof unfold_locales
  show "reported u v \<Longrightarrow> reported v w \<Longrightarrow> reported u w" for u v w
    unfolding reported_def by (metis append.assoc list_all_append)
qed (auto simp: reported_def hushed_def visible_def put_jar_def)

lemma reported_bounded:
  assumes "reported w w'"
  shows "\<exists>es. heard w' = heard w @ es \<and> list_all event_bounded es"
proof -
  obtain es where es: "visible w' = visible w @ es" "list_all event_ok es"
    using assms by (auto simp: reported_def)
  have "list_all event_bounded (List.map_filter (\<lambda>e. case e of EvEmit a \<Rightarrow> Some a | _ \<Rightarrow> None) es)"
    using es(2) by (induction es) (auto simp: List.map_filter_simps split: event.split)
  moreover have "heard w' = heard w @ List.map_filter (\<lambda>e. case e of EvEmit a \<Rightarrow> Some a | _ \<Rightarrow> None) es"
    by (simp add: heard_def es(1) List.map_filter_def)
  ultimately show ?thesis by blast
qed

section \<open>Sessions\<close>

lemma lock_account_reported: "state_io_rel reported (lock_account E dir c k)"
  unfolding lock_account_def
  by (rule keeps_wpI, rule wp_mono [OF acquire_lock_shown])
     (auto intro: reported_same reportedI split: sum.splits)

lemma close_lock_reported: "state_io_rel reported (close_lock E p)"
  by (rule keeps_wpI) (simp add: wp_close_lock reported_def)

lemma initialize_reported: "state_io_rel reported (initialize E r c)"
  unfolding initialize_def adopt_def
  by (intro rep.keep_flow rep.keep_login rep.keep_update_ref rep.keep_initialize_locked
        lock_account_reported close_lock_reported)

lemma recover_reported: "state_io_rel reported (recover E r c seen)"
  unfolding recover_def
  by (intro rep.keep_flow rep.keep_login rep.keep_recover_locked lock_account_reported close_lock_reported)

lemma persist_reported: "state_io_rel reported (persist_ineffective E r g failure)"
  unfolding persist_ineffective_def mark_ineffective_def Let_def
  by (intro rep.keep_flow rep.keep_update_ref rep.keep_mark_entry lock_account_reported close_lock_reported)

lemma flight_result_reported: "state_io_rel reported (flight_result E c)"
  unfolding flight_result_def by (intro rep.keep_open) simp_all

lemma decide_op_reported: "state_io_rel reported (decide_op E r seen)"
  unfolding decide_op_def by (intro rep.keep_flow)

lemma act_on_reported: "state_io_rel reported (act_on E r c seen v)"
proof (cases v)
  case (Await channel)
  have "state_io_rel reported (await_flight E c)"
    unfolding await_flight_def Let_def by (intro rep.keep_open rep.keep_update_ref) simp_all
  then show ?thesis by (simp add: act_on_def Await)
next
  case (Cooling e remaining)
  show ?thesis
    unfolding act_on_def Cooling verdict.case cooldown_event_def by (intro rep.keep_open) simp
next
  case Lead
  show ?thesis
    unfolding act_on_def Lead verdict.case lead_flight_def
    by (intro rep.keep_flow rep.keep_update_ref recover_reported flight_result_reported)
qed (simp_all add: act_on_def rep.keep_ret)

lemma refresh_reported: "state_io_rel reported (refresh E r c seen)"
  unfolding refresh_def by (intro rep.keep_flow decide_op_reported act_on_reported)

lemma note_ineffective_reported: "state_io_rel reported (note_ineffective E r c g failure)"
  unfolding note_ineffective_def
  by (intro rep.keep_open rep.keep_update_ref persist_reported) simp_all

section \<open>Requests\<close>

lemma store_cookies_reported: "state_io_rel reported (store_cookies E jar u cs)"
  by (rule keeps_wpI, rule wp_mono [OF store_cookies_post]) (simp add: aside_def reported_same)

lemma attempt_reported: "state_io_rel reported (attempt E t og payload jar)"
  by (rule keeps_wpI, rule wp_mono [OF attempt_post]) (auto simp: exchanged_def intro!: reportedI)

lemma snapshot_reported: "state_io_rel reported (t_snapshot (transport_of E r))"
  by (simp add: transport_of_def snapshot_def rep.keep_asks)

lemma replay_reported: "state_io_rel reported (replay E (transport_of E r) og payload)"
  unfolding replay_def Let_def
  by (intro rep.keep_flow attempt_reported snapshot_reported)
     (auto simp: transport_of_def split: bool.split intro!: rep.keep_flow note_ineffective_reported)

lemma recover_and_replay_reported:
  "state_io_rel reported (recover_and_replay E (transport_of E r) og payload g lost)"
proof -
  have "state_io_rel reported (t_refresh (transport_of E r) c g)" for c
    by (simp add: transport_of_def refresh_reported)
  then show ?thesis
    unfolding recover_and_replay_def recovery_event_def
    by (intro rep.keep_open replay_reported) simp_all
qed

lemma round_trip_reported: "state_io_rel reported (round_trip E (transport_of E r) og)"
  unfolding round_trip_def
  by (intro rep.keep_flow attempt_reported snapshot_reported)
     (auto split: bool.split intro!: rep.keep_flow recover_and_replay_reported)

lemma http_send_reported: "cl_transport cl = transport_of E r \<Longrightarrow> state_io_rel reported (http_send E cl og)"
  unfolding http_send_def
  by (intro rep.keep_flow store_cookies_reported) (simp_all add: round_trip_reported)

lemma http_do_reported:
  assumes "cl_transport cl = transport_of E r"
  shows "state_io_rel reported (http_do redirect E cl n og)"
proof (induction n arbitrary: og)
  case 0
  show ?case
    unfolding http_do.simps [of redirect E cl 0 og] nat.case
    by (intro rep.keep_flow http_send_reported [OF assms])
next
  case (Suc n)
  show ?case
    unfolding http_do.simps [of redirect E cl "Suc n" og] nat.case
    by (intro rep.keep_flow http_send_reported [OF assms] Suc.IH)
qed

lemma api_do_reported:
  "cl_transport cl = transport_of E r \<Longrightarrow> state_io_rel reported (api_do redirect E cl x meth path body decode)"
  unfolding api_do_def by (intro rep.keep_flow http_do_reported)

lemma build_client_reported: "state_io_rel reported (build_client E x cfg timeout)"
  unfolding build_client_def snapshot_def
  by (intro rep.keep_flow rep.keep_update_ref initialize_reported rep.keep_calm [OF configure_store_calm])

lemma new_client_reported:
  "wp (new_client E x cfg) (\<lambda>made v. reported w v
     \<and> (case made of Inl e \<Rightarrow> True | Inr cl \<Rightarrow> \<exists>r. cl_transport cl = transport_of E r)) w"
proof (cases "trim_space (cf_base_url cfg) = []")
  case True
  then show ?thesis by (simp add: new_client_def wp_ret reported_same)
next
  case False
  let ?timeout = "if cf_timeout cfg \<le> 0 then default_timeout else cf_timeout cfg"
  have made: "wp (build_client E x cfg ?timeout) (\<lambda>made v.
      case made of Inl e \<Rightarrow> True | Inr cl \<Rightarrow> \<exists>r. cl_transport cl = transport_of E r) w"
  proof (cases "new_authenticator (cf_base_url cfg) (cf_username cfg) (cf_password cfg) (cf_otp_secret cfg)
             (cf_impersonate cfg) (cf_user_agent cfg) ?timeout (cf_on_event cfg)")
    case (Inl e)
    then show ?thesis by (simp add: build_client_def wp_ret)
  next
    case (Inr a)
    show ?thesis
      by (rule wp_mono [OF build_client_ready [OF Inr]]) (auto simp: client_ready_def Let_def split: sum.splits)
  qed
  show ?thesis
    unfolding new_client_def if_not_P [OF False]
    by (rule wp_conj [OF wp_keeps [OF build_client_reported] made])
qed

section \<open>Properties\<close>

text \<open>C6: Whatever the outside does, the handler of a client only ever hears events of the fixed vocabulary:
  while New runs, and in every later call of the client it returns, each event has its reason and
  its outcome from a finite list of constants, and a status only if it is the result of an attempt.
  No credential, cookie, URL or answer of the server can appear in one.\<close>

theorem handler_hears_vocabulary:
  "wp (new_client E x cfg) (\<lambda>made v. (\<exists>es. heard v = heard w @ es \<and> list_all event_bounded es)
     \<and> (case made of
          Inl e \<Rightarrow> True
        | Inr cl \<Rightarrow> \<forall>redirect y meth path body (decode :: (string \<Rightarrow> go_error + 'a) option) u.
            wp (api_do redirect E cl y meth path body decode)
              (\<lambda>res u'. \<exists>es. heard u' = heard u @ es \<and> list_all event_bounded es) u)) w"
proof (rule wp_mono [OF new_client_reported])
  fix made :: "go_error + api_client" and v
  assume post: "reported w v \<and> (case made of Inl e \<Rightarrow> True | Inr cl \<Rightarrow> \<exists>r. cl_transport cl = transport_of E r)"
  have "wp (api_do redirect E cl y meth path body decode)
      (\<lambda>res u'. \<exists>es. heard u' = heard u @ es \<and> list_all event_bounded es) u"
    if "cl_transport cl = transport_of E r"
    for cl r redirect y meth path body u and decode :: "(string \<Rightarrow> go_error + 'a) option"
    by (rule wp_keeps_mono [OF api_do_reported [OF that] reported_bounded])
  then show "(\<exists>es. heard v = heard w @ es \<and> list_all event_bounded es)
     \<and> (case made of
          Inl e \<Rightarrow> True
        | Inr cl \<Rightarrow> \<forall>redirect y meth path body (decode :: (string \<Rightarrow> go_error + 'a) option) u.
            wp (api_do redirect E cl y meth path body decode)
              (\<lambda>res u'. \<exists>es. heard u' = heard u @ es \<and> list_all event_bounded es) u)"
    using post reported_bounded [of w v] by (auto split: sum.splits)
qed

end
