(* ===== verification/Error_Text.thy ===== *)
theory Error_Text
  imports Auth_Errors Go_Json
begin

text \<open>
  errors.go: what the error types print. \<open>AuthError\<close> promises a bounded, body-free description
  for routine logs: it is made of the constants of stages and kinds and of a delay, which
  \<open>time.Duration\<close> prints in hours, minutes and seconds, and below one second in the largest
  unit that gives a whole part.
\<close>

section \<open>Durations\<close>

text \<open>\<^verbatim>\<open>fmtFrac\<close>: the fraction in so many digits, without trailing zeros; nothing for none.\<close>

definition fmt_frac :: "nat \<Rightarrow> int \<Rightarrow> string" where
  "fmt_frac prec v =
     (let n = nat (v mod 10 ^ prec)
      in if n = 0 then [] else CHR ''.'' # trim_right (CHR ''0'') (pad_left prec (CHR ''0'') (show_nat n)))"

definition fmt_part :: "nat \<Rightarrow> int \<Rightarrow> string \<Rightarrow> string" where
  "fmt_part prec v unit_name = show_nat (nat (v div 10 ^ prec)) @ fmt_frac prec v @ unit_name"

text \<open>The micro sign is two bytes of UTF-8.\<close>

definition duration_text :: "duration \<Rightarrow> string" where
  "duration_text d =
     (let u = \<bar>d\<bar>;
          secs = u div 1000000000;
          text = (if u = 0 then ''0s''
                  else if u < 1000 then fmt_part 0 u ''ns''
                  else if u < 1000000 then fmt_part 3 u [CHR 0xC2, CHR 0xB5, CHR ''s'']
                  else if u < 1000000000 then fmt_part 6 u ''ms''
                  else (if 3600 \<le> secs then show_nat (nat (secs div 3600)) @ ''h'' else [])
                     @ (if 60 \<le> secs then show_nat (nat (secs div 60 mod 60)) @ ''m'' else [])
                     @ show_nat (nat (secs mod 60)) @ fmt_frac 9 u @ ''s'')
      in if d < 0 then CHR ''-'' # text else text)"

section \<open>Errors\<close>

definition auth_error_text :: "auth_stage \<Rightarrow> auth_kind \<Rightarrow> duration \<Rightarrow> string" where
  "auth_error_text stage kind retry_after =
     ''cloudsigma authentication '' @ stage_name stage @ '' failed ('' @ kind_name kind @ '')''
       @ (if 0 < retry_after then ''; retry after '' @ duration_text retry_after else [])"

definition api_error_text :: "api_error \<Rightarrow> string" where
  "api_error_text a = show_int (ae_status a) @ '': '' @ ae_body a"

text \<open>\<^verbatim>\<open>Error()\<close> of the two types; an \<open>authAPIError\<close> prints as the \<open>APIError\<close> it embeds.\<close>

fun error_text :: "go_error \<Rightarrow> string option" where
  "error_text (ApiErr a) = Some (api_error_text a)"
| "error_text (AuthApiErr a d) = Some (api_error_text a)"
| "error_text (AuthErr stage kind cause d) = Some (auth_error_text stage kind d)"
| "error_text _ = None"

lemma duration_samples:
  "duration_text 90000000000 = ''1m30s''" "duration_text 7200000000000 = ''2h0m0s''"
proof -
  have "show_nat 0 = ''0''" "show_nat 1 = ''1''" "show_nat 2 = ''2''" "show_nat 30 = ''30''" by code_simp+
  then show "duration_text 90000000000 = ''1m30s''" "duration_text 7200000000000 = ''2h0m0s''"
    by (simp_all add: duration_text_def fmt_frac_def)
qed

section \<open>How long they get\<close>

lemma show_nat_le: "0 \<le> i \<Longrightarrow> i < 10 ^ k \<Longrightarrow> 0 < k \<Longrightarrow> length (show_nat (nat i)) \<le> k"
  using show_nat_length [of "nat i" "k - 1"] by (simp add: nat_less_iff)

lemma fmt_frac_length: "length (fmt_frac prec v) \<le> Suc prec"
proof -
  have "length (show_nat (nat (v mod 10 ^ prec))) \<le> prec" if "v mod 10 ^ prec \<noteq> 0"
    using that show_nat_le [of "v mod 10 ^ prec" prec] by (cases prec) auto
  moreover have "length (trim_right c s) \<le> length s" for c s
    by (metis length_append le_add1 trim_right_split)
  note this [of "CHR ''0''" "pad_left prec (CHR ''0'') (show_nat (nat (v mod 10 ^ prec)))"]
  moreover have "nat (v mod 10 ^ prec) \<noteq> 0 \<Longrightarrow> v mod 10 ^ prec \<noteq> 0" by auto
  ultimately show ?thesis by (auto simp: fmt_frac_def Let_def pad_left_def)
qed

lemma fmt_part_length: "0 \<le> v \<Longrightarrow> v < 10 ^ (prec + 3) \<Longrightarrow> length (fmt_part prec v u) \<le> prec + 4 + length u"
proof -
  assume v: "0 \<le> v" "v < 10 ^ (prec + 3)"
  then have "v < 10 ^ 3 * 10 ^ prec" by (simp add: power_add mult.commute)
  moreover have "v div 10 ^ prec * 10 ^ prec \<le> v"
  proof -
    have "0 \<le> v mod 10 ^ prec" by (rule pos_mod_sign) simp
    then show ?thesis using div_mult_mod_eq [of v "10 ^ prec"] by linarith
  qed
  ultimately have "v div 10 ^ prec * 10 ^ prec < 10 ^ 3 * 10 ^ prec" by linarith
  then have "v div 10 ^ prec < 10 ^ 3" by (rule mult_right_less_imp_less) simp
  then have "length (show_nat (nat (v div 10 ^ prec))) \<le> 3"
    using v(1) by (intro show_nat_le) (simp_all add: pos_imp_zdiv_nonneg_iff)
  then show ?thesis using fmt_frac_length [of prec v] by (simp add: fmt_part_def)
qed

lemma duration_text_length: "0 \<le> d \<Longrightarrow> d \<le> max_duration \<Longrightarrow> length (duration_text d) \<le> 24"
proof -
  assume d: "0 \<le> d" "d \<le> max_duration"
  define secs where "secs = d div 1000000000"
  have secs: "0 \<le> secs" "secs < 3600 * 10 ^ 7"
    using d by (simp_all add: secs_def max_duration_def div_less_iff_less_mult pos_imp_zdiv_nonneg_iff)
  then have hours: "length (show_nat (nat (secs div 3600))) \<le> 7"
    by (intro show_nat_le) (simp_all add: div_less_iff_less_mult pos_imp_zdiv_nonneg_iff)
  have two: "length (show_nat (nat (n mod 60))) \<le> 2" for n
    using pos_mod_bound [of 60 n] by (intro show_nat_le) auto
  have small: "d < 1000 \<Longrightarrow> length (fmt_part 0 d ''ns'') \<le> 6"
    "d < 1000000 \<Longrightarrow> length (fmt_part 3 d [CHR 0xC2, CHR 0xB5, CHR ''s'']) \<le> 10"
    "d < 1000000000 \<Longrightarrow> length (fmt_part 6 d ''ms'') \<le> 12"
    using d(1) fmt_part_length [of d 0 "''ns''"] fmt_part_length [of d 3 "[CHR 0xC2, CHR 0xB5, CHR ''s'']"]
      fmt_part_length [of d 6 "''ms''"] by simp_all
  define h m s t where "h = (if 3600 \<le> secs then show_nat (nat (secs div 3600)) @ ''h'' else [])"
    and "m = (if 60 \<le> secs then show_nat (nat (secs div 60 mod 60)) @ ''m'' else [])"
    and "s = show_nat (nat (secs mod 60))" and "t = fmt_frac 9 d"
  have "length h \<le> 8" "length m \<le> 3" "length s \<le> 2" "length t \<le> 10"
    using hours two [of "secs div 60"] two [of secs] fmt_frac_length [of 9 d]
    by (simp_all add: h_def m_def s_def t_def)
  then have "length (h @ m @ s @ t @ ''s'') \<le> 24" by simp
  moreover have "\<bar>d\<bar> = d" "\<not> d < 0" using d(1) by simp_all
  then have "duration_text d = (if d = 0 then ''0s'' else if d < 1000 then fmt_part 0 d ''ns''
      else if d < 1000000 then fmt_part 3 d [CHR 0xC2, CHR 0xB5, CHR ''s'']
      else if d < 1000000000 then fmt_part 6 d ''ms'' else h @ m @ s @ t @ ''s'')"
    by (simp only: duration_text_def Let_def secs_def h_def m_def s_def t_def append_assoc if_False)
  ultimately show ?thesis using small by (simp split: if_splits)
qed

text \<open>The text of an authentication error is bounded and says nothing of its cause: neither the body of
  a response nor a URL, which its cause may hold, can reach a log through it.\<close>

theorem auth_error_text_bounded:
  assumes "d \<le> max_duration"
  shows "\<exists>t. error_text (AuthErr stage kind cause d) = Some t \<and> error_text (AuthErr stage kind cause' d) = Some t
    \<and> length t \<le> 120"
proof -
  have "length (stage_name stage) \<le> 16" by (cases stage) simp_all
  moreover have "length (kind_name kind) \<le> 23" by (cases kind) simp_all
  moreover have "length (duration_text d) \<le> 24" if "0 < d"
    using duration_text_length [of d] assms that by simp
  ultimately show ?thesis by (auto simp: auth_error_text_def)
qed

lemma auth_error_text_bounded_witness:
  "\<exists>t. error_text (AuthErr AuthStageLogin AuthKindRateLimited
       (Some (ApiErr \<lparr>ae_status = 429, ae_body = ''secret'', ae_method = ''POST'', ae_url = ''u''\<rparr>)) second) = Some t
     \<and> error_text (AuthErr AuthStageLogin AuthKindRateLimited None second) = Some t \<and> length t \<le> 120"
proof -
  have "second \<le> max_duration" by (simp add: second_def max_duration_def)
  from auth_error_text_bounded [OF this] show ?thesis .
qed

end
