(* ===== verification/Client_Close.thy ===== *)
theory Client_Close
  imports Api_Client
begin

text \<open>
  Closing a client (\<open>Client.Close\<close>, \<open>refresher.close\<close>). Closing cancels the context from which
  every recovery derives its own; what that does to the derived context is the documented
  behaviour of \<^verbatim>\<open>context\<close>, the hypothesis \<open>close_cancels\<close> here. Requests of callers and the
  saving of deadlines and markers have contexts of their own and go on.
\<close>

definition close_refresher :: "(world, unit) state" where
  "close_refresher = record_ev EvClose"

definition close_client :: "api_client option \<Rightarrow> (world, unit) state" where
  "close_client cl = (case cl of None \<Rightarrow> ret () | Some _ \<Rightarrow> close_refresher)"

definition close_cancels :: "env \<Rightarrow> bool" where
  "close_cancels E = (\<forall>h. EvClose \<in> set h \<longrightarrow> e_ctx E h recovery_ctx \<noteq> CtxLive)"

lemma extends_set: "extends w w' \<Longrightarrow> x \<in> set (w_trace w) \<Longrightarrow> x \<in> set (w_trace w')"
  by (auto simp: extends_def)

lemma ctx_error_None [simp]: "ctx_error st = None \<longleftrightarrow> st = CtxLive"
  by (cases st) simp_all

text \<open>With a context that has ended, a recovery fails before it does anything.\<close>

lemma recover_ended:
  assumes "e_ctx E (w_trace w) recovery_ctx \<noteq> CtxLive"
  shows "wp (recover E r recovery_ctx seen) (\<lambda>res w'. (\<exists>e. res = Inl e) \<and> w_ref w' = w_ref w \<and> sent w' = sent w) w"
proof -
  obtain e where e: "ctx_error (e_ctx E (w_trace w) recovery_ctx) = Some e" using assms by fastforce
  have quick: "wp (context_err E recovery_ctx) Q w
      = Q (Some e) (push (EvCtx recovery_ctx (e_ctx E (w_trace w) recovery_ctx)) w)" for Q
    using e by (simp add: wp_context_err recovery_ctx_def)
  have same: "sent (push (EvCtx c st) w) = sent w" for c st by (simp add: sent_def)
  show ?thesis
  proof (cases "r_store r")
    case None
    then show ?thesis
      by (simp add: recover_def login_def acquire_otp_account_def Let_def wp_let_ok wp_check_ok wp_then_ok quick same)
  next
    case (Some dir)
    then show ?thesis
      by (simp add: recover_def lock_account_def acquire_lock_def Let_def wp_let_ok wp_check_ok quick same)
  qed
qed

text \<open>A flight that starts after the close lands at once, with its failure and no new session.\<close>

definition stays :: "world \<Rightarrow> world \<Rightarrow> bool" where
  "stays w w' = (sent w' = sent w \<and> rf_generation (w_ref w') = rf_generation (w_ref w)
     \<and> rf_jar (w_ref w') = rf_jar (w_ref w))"

lemma sent_quiet: "quiet e \<Longrightarrow> sent (push e w) = sent w"
  by (simp add: sent_def)

lemma flight_result_stays:
  "wp (flight_result E c) (\<lambda>res w'. sent w' = sent w \<and> w_ref w' = w_ref w
     \<and> (rf_last_err (w_ref w) \<noteq> None \<longrightarrow> res \<noteq> None)) w"
  unfolding flight_result_def
  by (cases c) (auto simp: wp_simps sent_quiet split: option.split)

lemma lead_flight_ended:
  assumes "close_cancels E" "EvClose \<in> set (w_trace w)"
  shows "wp (lead_flight E r c seen) (\<lambda>res w'. stays w w' \<and> res \<noteq> None) w"
proof -
  let ?v = "w\<lparr>w_ref := take_off 0 (w_ref w)\<rparr>"
  have dead: "e_ctx E (w_trace ?v) recovery_ctx \<noteq> CtxLive"
    using assms by (simp add: close_cancels_def)
  have land: "wp (flight_result E c) (\<lambda>res w'. stays w w' \<and> (\<exists>y. res = Some y))
      (u\<lparr>w_ref := landed (Inl e) now (take_off 0 (w_ref w))\<rparr>)" if "sent u = sent w" for u e now
    by (rule wp_mono [OF flight_result_stays])
       (use that in \<open>auto simp: stays_def landed_def take_off_def sent_def visible_def\<close>)
  have start: "sent ?v = sent w" by (simp add: sent_def visible_def)
  show ?thesis
    unfolding lead_flight_def update_ref_def wp_bind wp_modify wp_now
    by (rule wp_mono [OF recover_ended [OF dead]]) (auto simp: sent_quiet start intro!: land)
qed

lemma act_on_ended:
  assumes "close_cancels E" "EvClose \<in> set (w_trace w)" "\<And>ch. v \<noteq> Await ch"
  shows "wp (act_on E r c seen v) (\<lambda>res w'. stays w w' \<and> (res = None \<longrightarrow> v = Retry)) w"
proof (cases v)
  case Lead
  show ?thesis
    unfolding act_on_def Lead verdict.case
    by (rule wp_mono [OF lead_flight_ended [OF assms(1,2)]]) simp
qed (use assms(3) in \<open>auto simp: act_on_def wp_simps emit_def stays_def sent_def\<close>)

lemma await_flight_sends_nothing: "wp (await_flight E c) (\<lambda>res w'. sent w' = sent w) w"
  unfolding await_flight_def
  by (cases c) (simp_all add: wp_simps update_ref_def Let_def sent_def visible_def)

lemma decide_op_quiet: "state_io_rel calm (decide_op E r seen)"
  unfolding decide_op_def by (intro calm.keep_flow)

lemma decide_op_extends: "state_io_rel extends (decide_op E r seen)"
  unfolding decide_op_def by (intro ext.keep_flow)

text \<open>What \<open>decide\<close> says of a flight and of the generation.\<close>

lemma decide_await: "decide r t1 t2 t3 s seen = Await ch \<Longrightarrow> rf_in_flight s = Some ch"
  by (auto simp: decide_def Let_def split: if_splits option.splits)

lemma decide_retry: "decide r t1 t2 t3 s seen = Retry \<Longrightarrow> rf_generation s \<noteq> seen"
  by (auto simp: decide_def Let_def split: if_splits option.splits)

definition closed_post :: "world \<Rightarrow> 64 word \<Rightarrow> go_error option \<Rightarrow> world \<Rightarrow> bool" where
  "closed_post w seen res w' =
     (sent w' = sent w
      \<and> (rf_in_flight (w_ref w) = None \<longrightarrow>
           rf_generation (w_ref w') = rf_generation (w_ref w) \<and> rf_jar (w_ref w') = rf_jar (w_ref w)
           \<and> (res = None \<longrightarrow> rf_generation (w_ref w) \<noteq> seen)))"

lemma decide_and_act_closed:
  assumes "close_cancels E" "EvClose \<in> set (w_trace w)"
  shows "wp (State_Monad.bind (decide_op E r seen) (act_on E r c seen)) (closed_post w seen) w"
  unfolding wp_bind
proof (rule wp_mono [OF wp_conj [OF wp_keeps [OF decide_op_quiet] wp_conj [OF wp_keeps [OF decide_op_extends]
      wp_decide_op [where Q = "\<lambda>v w'. \<exists>t1 t2 t3. v = decide r t1 t2 t3 (w_ref w) seen"]]]])
  show "\<exists>t1 t2 t3. decide r u1 u2 u3 (w_ref w) seen = decide r t1 t2 t3 (w_ref w) seen" for u1 u2 u3
    by blast
next
  fix v and u :: world
  assume post: "calm w u \<and> extends w u \<and> (\<exists>t1 t2 t3. v = decide r t1 t2 t3 (w_ref w) seen)"
  then have closed: "EvClose \<in> set (w_trace u)" using extends_set assms(2) by blast
  have u: "sent u = sent w" "w_ref u = w_ref w"
    using post by (simp_all add: calm_def memory_def sent_def)
  show "wp (act_on E r c seen v) (closed_post w seen) u"
  proof (cases "\<exists>ch. v = Await ch")
    case True
    then obtain ch where ch: "v = Await ch" by blast
    then have "rf_in_flight (w_ref w) = Some ch" using post decide_await by metis
    then show ?thesis
      unfolding ch act_on_def verdict.case
      by (intro wp_mono [OF await_flight_sends_nothing]) (simp add: closed_post_def u)
  next
    case False
    have "v = Retry \<Longrightarrow> rf_generation (w_ref w) \<noteq> seen" using post decide_retry by blast
    then show ?thesis
      using False by (intro wp_mono [OF act_on_ended [OF assms(1) closed]]) (auto simp: closed_post_def stays_def u)
  qed
qed

section \<open>Properties\<close>

text \<open>C7: A closed client signs in no more: once Close has run, refresh sends no request and publishes no
  session of its own. With no recovery of another goroutine in flight, the session in use stays,
  and the caller gets an error, unless the generation it saw had been replaced before.\<close>

theorem closed_client_never_signs_in:
  assumes "close_cancels E" and "EvClose \<in> set (w_trace w)"
  shows "wp (refresh E r c seen) (\<lambda>res w'. sent w' = sent w
     \<and> (rf_in_flight (w_ref w) = None \<longrightarrow>
          rf_generation (w_ref w') = rf_generation (w_ref w) \<and> rf_jar (w_ref w') = rf_jar (w_ref w)
          \<and> (res = None \<longrightarrow> rf_generation (w_ref w) \<noteq> seen))) w"
proof -
  have go: "wp (State_Monad.bind (decide_op E r seen) (act_on E r c seen)) (closed_post w seen) u"
    if "w_ref u = w_ref w" "sent u = sent w" "EvClose \<in> set (w_trace u)" for u
    by (rule wp_mono [OF decide_and_act_closed [OF assms(1) that(3)]])
       (use that(1,2) in \<open>simp add: closed_post_def\<close>)
  have "wp (refresh E r c seen) (closed_post w seen) w"
    unfolding refresh_def wp_then_ok wp_context_err
    using go assms(2)
    by (auto simp: closed_post_def sent_quiet split: ctx.split option.split)
  then show ?thesis unfolding closed_post_def .
qed

text \<open>A client that is closed while nothing else fails.\<close>

definition closable_env :: env where
  "closable_env = sample_env\<lparr>e_ctx := (\<lambda>h c. if EvClose \<in> set h then CtxCanceled else CtxLive)\<rparr>"

lemma closed_client_never_signs_in_witness:
  "wp (do { close_client (Some \<lparr>cl_transport = transport_of closable_env (new_refresher sample_auth), cl_jar = None,
              cl_timeout = default_timeout, cl_base = au_root sample_auth\<rparr>);
            refresh closable_env (new_refresher sample_auth) CtxNil 0 })
     (\<lambda>res w'. sent w' = [] \<and> res \<noteq> None) sample_world"
proof -
  have "close_cancels closable_env" by (simp add: close_cancels_def closable_env_def)
  moreover have "EvClose \<in> set (w_trace (push EvClose sample_world))" by simp
  ultimately have "wp (refresh closable_env (new_refresher sample_auth) CtxNil 0) (\<lambda>res w'.
      sent w' = sent (push EvClose sample_world)
      \<and> (rf_in_flight (w_ref (push EvClose sample_world)) = None \<longrightarrow>
          rf_generation (w_ref w') = rf_generation (w_ref (push EvClose sample_world))
          \<and> rf_jar (w_ref w') = rf_jar (w_ref (push EvClose sample_world))
          \<and> (res = None \<longrightarrow> rf_generation (w_ref (push EvClose sample_world)) \<noteq> 0))) (push EvClose sample_world)"
    by (rule closed_client_never_signs_in)
  then have "wp (refresh closable_env (new_refresher sample_auth) CtxNil 0)
      (\<lambda>res w'. sent w' = [] \<and> res \<noteq> None) (push EvClose sample_world)"
    by (rule wp_mono) (auto simp: initial_refresher_def sent_def visible_def)
  then show ?thesis
    by (simp add: close_client_def close_refresher_def wp_bind wp_record_ev)
qed

end
