(* ===== verification/Spec2Isabelle.thy ===== *)
theory Spec2Isabelle
  imports Lock_Order Otp_Semaphore Login_Cache Event_Vocabulary Error_Text Client_Close
begin

text \<open>
  A model of the Go package \<^verbatim>\<open>cloudsigma\<close> (\<^verbatim>\<open>src/*.go\<close>): an API client that authenticates with
  password and one-time code, keeps the session alive, and shares it with other processes
  through a private directory. The theories follow the package from the leaves up.

  \<^bold>\<open>How Go is read.\<close> A fallible function gives a sum or an option; errors are values of
  \<open>go_error\<close> with the search order of \<^verbatim>\<open>errors.Is\<close> and \<^verbatim>\<open>errors.As\<close> (Go_Error). Durations and
  times are nanoseconds with Go's saturation and wrap-around (Go_Time); generations are
  64-bit words. Strings are byte strings; case mapping and white space are the ASCII part of
  Go's. Stateful code is a computation over the record \<open>world\<close> (World): trace, files, jars,
  accepted one-time codes, fields of the refresher. Everything decided outside the process
  (clock, server, contexts, system calls, random numbers, what other processes and
  goroutines did meanwhile) is a function of the trace so far, collected in the record
  \<open>env\<close>; a theorem for every \<open>env\<close> is one about every behaviour of the outside. \<open>wp m Q w\<close>
  says that the run of \<open>m\<close> in \<open>w\<close> ends in a result and a world that satisfy \<open>Q\<close>; every
  computation ends, so it is a total-correctness statement. What a computation never
  changes is a preorder on worlds, and the locales of World (\<open>quiet_preorder\<close> and its
  relatives) carry such a preorder through a whole computation by the rules \<open>keep_*\<close>.

  \<^bold>\<open>Standard library.\<close> Prelude has the functions of \<^verbatim>\<open>strings\<close> and \<^verbatim>\<open>strconv\<close>, Go_URL
  those of \<^verbatim>\<open>net/url\<close>, Go_Cookie the jar of \<^verbatim>\<open>net/http/cookiejar\<close>, Go_Hash SHA-1, SHA-256
  and HMAC on bytes, Go_Date the calendar and RFC 3339, Http_Date the three formats of
  \<^verbatim>\<open>http.ParseTime\<close>, Go_Json the writer and the reader of \<^verbatim>\<open>encoding/json\<close> with its UTF-8. The
  reader recurses with fuel \<open>2 * length + 1\<close>; \<open>parse_fuel_enough\<close> shows that more changes
  nothing. Parameters are the time-zone names of the machine (\<open>e_zones\<close>), what the bytes of a
  record depend on beyond its value (\<open>e_layout\<close>: the locations of its times, a nil list), the
  values the caller of the JSON client encodes and decodes, and the redirect policy of
  \<^verbatim>\<open>http.Client\<close>.

  \<^bold>\<open>Leaves.\<close> Auth_Errors: \<^verbatim>\<open>errors.go\<close> and \<open>isRateLimited\<close> (session.go); capped reads, the
  classification of failures, Retry-After as seconds or a date. Error_Text: what the errors
  print, bounded and free of bodies. Session_Loss: \<open>isSessionLossFor\<close> and its
  helpers; the verdict and that the inspected response is handed on whole. Totp: \<open>TOTP\<close>,
  secrets and their bindings. Identity: \<open>Endpoint\<close>, the API root, the normal form of
  endpoints, account identities and fingerprints. Session_Cookie and Tracked_Jar:
  \<open>SessionCookie\<close> and \<^verbatim>\<open>tracked_cookie_jar.go\<close>; the invariant of the map, the snapshot round
  trip, independence of Go's map order. Auth_Events: \<^verbatim>\<open>auth.go\<close>. Session_Record: \<open>SessionRecord\<close>
  and its file format by the field tags, omitted fields and the strict decoder included;
  \<open>record_roundtrip\<close>, \<open>reread_stable\<close>.

  \<^bold>\<open>Store.\<close> Session_Store: \<^verbatim>\<open>session_store.go\<close> system call by system call, each of which may
  fail; \<open>save_atomic\<close> (of the directory, a save only creates missing components, \<open>dir_grown\<close>),
  \<open>load_trusted\<close>, \<open>load_after_save\<close>. Session_Lock: the advisory locks, from
  the polling \<open>Lock\<close> to the idempotent \<open>Close\<close>; \<open>account_lock_shared\<close>. Account_Retry: \<^verbatim>\<open>account_retry.go\<close>, deadlines and accepted steps
  that never move back, whether storing them succeeds or fails. Otp_Coordination: the register of accepted codes (interface
  \<open>max_register\<close>) and the wait for the next code window. The fuel of the two polling loops
  is \<open>e_patience\<close>, after which the context ends the wait; \<open>wait_rounds_enough\<close> shows that with
  a monotone clock the bound never bites. Otp_Semaphore: the table of per-account
  semaphores as a step relation over any number of goroutines.

  \<^bold>\<open>Authentication.\<close> Handshake: the authenticator and one handshake, which refines the
  automaton \<open>protocol\<close>. Login_Cycle: \<open>login\<close> with its retries and hooks; what it may send,
  and what it leaves alone. Session_Cycle: \<open>initialize\<close>, \<open>recover\<close>, \<open>persistIneffective\<close>
  under the lock of the account. Session_Start: \<open>initialize\<close> ends without an error only after a
  login of its own or with the session of the store, probed (\<open>signed_in\<close>, \<open>restored\<close>).
  Trace_Growth: the trace only grows, hence what precedes the first request
  (\<open>no_login_before_deadline\<close>). Lock_Order: the system calls on the entries of the store are
  ordered against the lock of the account in the full trace (\<open>session_work_under_lock\<close>).

  \<^bold>\<open>Sharing and use.\<close> Single_Flight: \<open>refresh\<close> and \<open>noteIneffective\<close>, once as one goroutine
  runs them and once as the step relation \<open>flight_step\<close> over any number of them. A ghost log
  of begun, failed, published and marked flights is kept orderly (\<open>single_flight\<close>), and the
  sequential code refines the relation (\<open>refresh_refines_protocol\<close>). Transport:
  \<open>refreshTransport\<close>, over the interface \<open>session_source\<close> that the refresher implements.
  Api_Client: \<^verbatim>\<open>client.go\<close>. Login_Cache: \<open>LoginWithOptions\<close> and the package's cache as a
  step relation. Client_Close: \<open>Close\<close>, after which no recovery signs in. Event_Vocabulary:
  everything the handler hears in the life of a client, one more preorder carried through
  all of the above.

  \<^bold>\<open>Reading the concurrent theories.\<close> Every critical section and every channel operation
  is one step, any goroutine may move at any time, a context may end in any state. Safety
  is an invariant of the reachable states; that nobody is stranded is stated as the
  existence of a run in which only the goroutine waited for acts.

  \<^bold>\<open>Not modelled.\<close> How long a derived context lives: \<open>detached\<close> and \<open>recovery_ctx\<close> end when the
  environment says so, and that cancelling a context ends those derived from it is the
  hypothesis \<open>close_cancels\<close>. The texts of errors beyond those of \<open>APIError\<close> and \<open>AuthError\<close>. A
  handler's own effects. \<open>HTTPClient\<close>, \<open>CookieJar\<close>, \<open>currentGeneration\<close> and \<open>currentTime\<close> only
  read a field; \<open>newAuthenticator\<close>, \<open>isSessionLoss\<close>, \<open>closeBody\<close> and \<open>SessionCookies\<close> only forward
  their arguments. A call that would block for ever has no description.
\<close>

end
